(* ===== verification/Prelude.thy ===== *)
theory Prelude
  imports Main "HOL-Library.AList" "HOL-Library.Sublist"
begin

text \<open>
  What every component shares: Go maps, Go's 64-bit signed arithmetic, the error values of
  the program, and the state-and-error actions in which the stateful code is written.
\<close>

named_theorems act_simps \<open>evaluation of actions on a state\<close>
named_theorems go_simps \<open>facts on the Go string and map operations\<close>

section \<open>Errors\<close>

text \<open>
  \<open>s3_error\<close> is what the S3 client returns, as far as the code tells its errors apart
  (\<open>errors.As\<close> with \<open>types.NotFound\<close> and \<open>types.NoSuchKey\<close>). \<open>go_error\<close> is the error
  interface: the sentinels the code returns or compares with, an error of the S3 client, and
  the errors made by \<open>fmt.Errorf\<close> (format and string arguments; \<open>Wrapf\<close> where the format
  wraps an error with \<open>%w\<close>). \<open>OutOfFuel\<close> is no value of the program: it marks a loop that
  has not finished within the fuel it was given.
\<close>

datatype s3_error = NotFound | NoSuchKey | OtherS3 string

datatype go_error =
    PermissionDenied
  | OpUnsupported
  | ErrNotExist
  | EOF
  | ErrClosedPipe
  | S3 s3_error
  | Errorf string "string list"
  | Wrapf string "string list" go_error
  | OutOfFuel

section \<open>Go maps\<close>

text \<open>
  A Go map with its iteration order: an association list whose first binding of a key
  counts. Go leaves the order of \<open>range\<close> open, so a theorem about any list is a theorem
  about any order.
\<close>

type_synonym ('k, 'v) gomap = "('k \<times> 'v) list"

definition gm_put :: "'k \<Rightarrow> 'v \<Rightarrow> ('k, 'v) gomap \<Rightarrow> ('k, 'v) gomap" where
  "gm_put k v m = AList.update k v m"

definition gm_del :: "'k \<Rightarrow> ('k, 'v) gomap \<Rightarrow> ('k, 'v) gomap" where
  "gm_del k m = AList.delete k m"

definition gm_keys :: "('k, 'v) gomap \<Rightarrow> 'k list" where
  "gm_keys m = remdups (map fst m)"

definition gm_range :: "('k, 'v) gomap \<Rightarrow> ('k \<times> 'v) list" where
  "gm_range m = map (\<lambda>k. (k, the (map_of m k))) (gm_keys m)"

lemma map_of_gm_put [simp]: "map_of (gm_put k v m) = (map_of m)(k \<mapsto> v)"
  by (simp add: gm_put_def update_conv')

lemma map_of_gm_del [simp]: "map_of (gm_del k m) = (map_of m)(k := None)"
  by (simp add: gm_del_def delete_conv')

lemma set_gm_keys [simp]: "set (gm_keys m) = dom (map_of m)"
  by (simp add: gm_keys_def dom_map_of_conv_image_fst)

lemma distinct_gm_keys [simp]: "distinct (gm_keys m)"
  by (simp add: gm_keys_def)

lemma set_gm_range: "set (gm_range m) = {(k, v). map_of m k = Some v}"
  by (force simp: gm_range_def)

lemma map_of_gm_range [simp]: "map_of (gm_range m) = map_of m"
proof
  fix k
  have "map_of (gm_range m) k = (if k \<in> dom (map_of m) then Some (the (map_of m k)) else None)"
    unfolding gm_range_def by (simp add: map_of_map_restrict restrict_map_def)
  then show "map_of (gm_range m) k = map_of m k"
    by (cases "map_of m k") (auto simp: domIff)
qed

lemma map_fst_gm_range [simp]: "map fst (gm_range m) = gm_keys m"
  by (simp add: gm_range_def comp_def)

lemma distinct_gm_range [simp]: "distinct (gm_range m)"
  by (simp add: gm_range_def distinct_map inj_on_def)

section \<open>Signed 64-bit integers\<close>

text \<open>An \<open>int64\<close> is an \<open>int\<close>; \<open>i64\<close> is the wrap-around of an operation's result.\<close>

definition i64 :: "int \<Rightarrow> int" where
  "i64 x = (x + 2 ^ 63) mod 2 ^ 64 - 2 ^ 63"

definition is_i64 :: "int \<Rightarrow> bool" where
  "is_i64 x \<longleftrightarrow> - (2 ^ 63) \<le> x \<and> x < 2 ^ 63"

lemma i64_id: "is_i64 x \<Longrightarrow> i64 x = x"
  by (simp add: i64_def is_i64_def)

lemma is_i64_i64 [simp]: "is_i64 (i64 x)"
  by (simp add: i64_def is_i64_def)

section \<open>Actions\<close>

text \<open>
  An action runs on a state and gives an error or a value, and the next state: a Go function
  with results \<open>(T, error)\<close> that changes what it is given. \<open>bindE\<close> is the sequence
  \<open>v, err := m(); if err != nil { return err }; f(v)\<close>: the effects made before an error
  stay.
\<close>

type_synonym ('s, 'a) act = "'s \<Rightarrow> (go_error + 'a) \<times> 's"

definition retE :: "'a \<Rightarrow> ('s, 'a) act" where
  "retE v s = (Inr v, s)"

definition failE :: "go_error \<Rightarrow> ('s, 'a) act" where
  "failE e s = (Inl e, s)"

definition liftE :: "go_error + 'a \<Rightarrow> ('s, 'a) act" where
  "liftE r s = (r, s)"

definition bindE :: "('s, 'a) act \<Rightarrow> ('a \<Rightarrow> ('s, 'b) act) \<Rightarrow> ('s, 'b) act" where
  "bindE m f s = (case m s of (Inl e, t) \<Rightarrow> (Inl e, t) | (Inr v, t) \<Rightarrow> f v t)"

abbreviation thenE :: "('s, 'a) act \<Rightarrow> ('s, 'b) act \<Rightarrow> ('s, 'b) act" where
  "thenE m n \<equiv> bindE m (\<lambda>_. n)"

text \<open>\<open>for _, x := range xs { if err := f(x); err != nil { return err } }\<close>\<close>

fun forE :: "('a \<Rightarrow> ('s, unit) act) \<Rightarrow> 'a list \<Rightarrow> ('s, unit) act" where
  "forE f [] = retE ()"
| "forE f (x # xs) = thenE (f x) (forE f xs)"

lemma retE_eq [act_simps]: "retE v s = (r, t) \<longleftrightarrow> r = Inr v \<and> t = s"
  by (auto simp: retE_def)

lemma failE_eq [act_simps]: "failE e s = (r, t) \<longleftrightarrow> r = Inl e \<and> t = s"
  by (auto simp: failE_def)

lemma liftE_eq [act_simps]: "liftE x s = (r, t) \<longleftrightarrow> r = x \<and> t = s"
  by (auto simp: liftE_def)

lemma bindE_Inr [act_simps]:
  "bindE m f s = (Inr v, t) \<longleftrightarrow> (\<exists>u s'. m s = (Inr u, s') \<and> f u s' = (Inr v, t))"
  by (auto simp: bindE_def split: prod.splits sum.splits)

lemma bindE_Inl [act_simps]:
  "bindE m f s = (Inl e, t) \<longleftrightarrow>
     m s = (Inl e, t) \<or> (\<exists>u s'. m s = (Inr u, s') \<and> f u s' = (Inl e, t))"
  by (auto simp: bindE_def split: prod.splits sum.splits)

lemma bindE_app_Inr [simp]: "m s = (Inr v, t) \<Longrightarrow> bindE m f s = f v t"
  by (simp add: bindE_def)

lemma bindE_app_Inl [simp]: "m s = (Inl e, t) \<Longrightarrow> bindE m f s = (Inl e, t)"
  by (simp add: bindE_def)

lemma retE_app: "retE v s = (Inr v, s)" and failE_app: "failE e s = (Inl e, s)"
  and liftE_app: "liftE r s = (r, s)"
  by (simp_all add: retE_def failE_def liftE_def)

subsection \<open>What an action may change\<close>

text \<open>
  \<open>within R m\<close>: whatever \<open>m\<close> returns, the states before and after it are related by \<open>R\<close>.
  For a reflexive and transitive \<open>R\<close> the rules follow the syntax of an action.
\<close>

definition within :: "('s \<Rightarrow> 's \<Rightarrow> bool) \<Rightarrow> ('s, 'a) act \<Rightarrow> bool" where
  "within R m \<longleftrightarrow> (\<forall>s. R s (snd (m s)))"

lemma withinI: "(\<And>s r t. m s = (r, t) \<Longrightarrow> R s t) \<Longrightarrow> within R m"
  unfolding within_def by (metis prod.collapse)

lemma withinD: "within R m \<Longrightarrow> m s = (r, t) \<Longrightarrow> R s t"
  unfolding within_def by (metis snd_conv)

lemma within_retE: "reflp R \<Longrightarrow> within R (retE v)"
  by (simp add: within_def retE_app reflpD)

lemma within_failE: "reflp R \<Longrightarrow> within R (failE e)"
  by (simp add: within_def failE_app reflpD)

lemma within_liftE: "reflp R \<Longrightarrow> within R (liftE r)"
  by (simp add: within_def liftE_app reflpD)

lemma within_bindE:
  assumes "transp R" and "within R m" and "\<And>v. within R (f v)"
  shows "within R (bindE m f)"
proof (rule withinI)
  fix s r t assume run: "bindE m f s = (r, t)"
  obtain r1 s1 where m: "m s = (r1, s1)" by fastforce
  with assms(2) have R1: "R s s1" by (rule withinD)
  show "R s t"
  proof (cases r1)
    case (Inl e)
    with run m R1 show ?thesis by simp
  next
    case (Inr v)
    with run m have "f v s1 = (r, t)" by simp
    with assms(3) have "R s1 t" by (rule withinD)
    with R1 show ?thesis by (rule transpD [OF assms(1)])
  qed
qed

lemma within_forE:
  assumes "reflp R" and "transp R" and "\<And>x. x \<in> set xs \<Longrightarrow> within R (f x)"
  shows "within R (forE f xs)"
  using assms(3)
proof (induction xs)
  case Nil
  show ?case by (simp add: within_retE assms(1))
next
  case (Cons x xs)
  then have "within R (f x)" and "within R (forE f xs)" by simp_all
  then show ?case by (simp add: within_bindE assms(2))
qed

text \<open>
  The same rules where the rest of an action depends on the value returned: the premise on
  the continuation may assume that the first part can return it.
\<close>

lemma within_bindE':
  assumes "transp R" and "within R m" and "\<And>v s t. m s = (Inr v, t) \<Longrightarrow> within R (f v)"
  shows "within R (bindE m f)"
proof (rule withinI)
  fix s r t assume run: "bindE m f s = (r, t)"
  obtain r1 s1 where m: "m s = (r1, s1)" by fastforce
  with assms(2) have R1: "R s s1" by (rule withinD)
  show "R s t"
  proof (cases r1)
    case (Inl e)
    with run m R1 show ?thesis by simp
  next
    case (Inr v)
    with run m have "f v s1 = (r, t)" by simp
    moreover have "within R (f v)" by (rule assms(3) [OF m [unfolded Inr]])
    ultimately have "R s1 t" by (blast dest: withinD)
    with R1 show ?thesis by (rule transpD [OF assms(1)])
  qed
qed

lemmas within_intros = within_retE within_failE within_liftE within_bindE within_forE

end
