(* ===== verification/GoStrings.thy ===== *)
theory GoStrings
  imports Prelude
begin

text \<open>
  The functions of Go's \<open>strings\<close> package the program uses, on byte strings (a Go string is
  a sequence of bytes, as a \<open>string\<close> is here), with the lemmas on prefixes, suffixes and
  splitting the components share.
\<close>

section \<open>Prefixes and suffixes\<close>

definition has_prefix :: "string \<Rightarrow> string \<Rightarrow> bool" where
  "has_prefix s p \<longleftrightarrow> take (length p) s = p"

definition has_suffix :: "string \<Rightarrow> string \<Rightarrow> bool" where
  "has_suffix s p \<longleftrightarrow> length p \<le> length s \<and> drop (length s - length p) s = p"

definition trim_prefix :: "string \<Rightarrow> string \<Rightarrow> string" where
  "trim_prefix s p = (if has_prefix s p then drop (length p) s else s)"

definition trim_suffix :: "string \<Rightarrow> string \<Rightarrow> string" where
  "trim_suffix s p = (if has_suffix s p then take (length s - length p) s else s)"

lemma has_prefix_iff [go_simps]: "has_prefix s p \<longleftrightarrow> prefix p s"
  unfolding has_prefix_def by (metis append_eq_conv_conj prefix_def take_is_prefix)

lemma has_prefix_append [simp]: "has_prefix (p @ s) p"
  by (simp add: has_prefix_def)

lemma trim_prefix_append [simp]: "trim_prefix (p @ s) p = s"
  by (simp add: trim_prefix_def)

lemma has_suffix_append [simp]: "has_suffix (s @ p) p"
  by (simp add: has_suffix_def)

lemma has_suffixD: "has_suffix s p \<Longrightarrow> \<exists>t. s = t @ p"
  unfolding has_suffix_def by (metis append_take_drop_id)

lemma trim_suffix_append [simp]: "trim_suffix (s @ p) p = s"
  by (simp add: trim_suffix_def)

lemma trim_suffix_none: "\<not> has_suffix s p \<Longrightarrow> trim_suffix s p = s"
  by (simp add: trim_suffix_def)

lemma trim_suffix_prefix: "prefix (trim_suffix s p) s"
  by (simp add: trim_suffix_def take_is_prefix)

lemma has_suffix_single [go_simps]: "has_suffix s [c] \<longleftrightarrow> s \<noteq> [] \<and> last s = c"
proof (cases s rule: rev_cases)
  case Nil
  then show ?thesis by (simp add: has_suffix_def)
next
  case (snoc t x)
  then show ?thesis by (simp add: has_suffix_def)
qed

lemma trim_suffix_single: "trim_suffix s [c] = (if s \<noteq> [] \<and> last s = c then butlast s else s)"
  by (simp add: trim_suffix_def has_suffix_single butlast_conv_take)

text \<open>\<open>strings.Trim(s, c)\<close> for a cutset of one byte.\<close>

definition trim_char :: "char \<Rightarrow> string \<Rightarrow> string" where
  "trim_char c s = rev (dropWhile ((=) c) (rev (dropWhile ((=) c) s)))"

lemma trim_char_ends:
  "trim_char c s \<noteq> [] \<Longrightarrow> hd (trim_char c s) \<noteq> c \<and> last (trim_char c s) \<noteq> c"
proof -
  assume ne: "trim_char c s \<noteq> []"
  let ?t = "dropWhile ((=) c) s" and ?r = "dropWhile ((=) c) (rev (dropWhile ((=) c) s))"
  from ne have r: "?r \<noteq> []" by (simp add: trim_char_def)
  then have t: "?t \<noteq> []" by (metis dropWhile.simps(1) rev.simps(1))
  have "hd ?r \<noteq> c" using hd_dropWhile [OF r] by auto
  then have last: "last (trim_char c s) \<noteq> c"
    by (simp add: trim_char_def last_rev)
  have "hd (trim_char c s) = hd ?t"
  proof -
    have "\<exists>u. rev ?t = u @ ?r" by (metis takeWhile_dropWhile_id)
    then obtain u where "rev ?t = u @ ?r" ..
    then have "?t = rev ?r @ rev u" by (metis rev_append rev_rev_ident)
    with r show ?thesis unfolding trim_char_def by (metis hd_append2 rev_is_Nil_conv)
  qed
  moreover have "hd ?t \<noteq> c" using hd_dropWhile [OF t] by auto
  ultimately show ?thesis using last by simp
qed

lemma trim_char_id: "s \<noteq> [] \<Longrightarrow> hd s \<noteq> c \<Longrightarrow> last s \<noteq> c \<Longrightarrow> trim_char c s = s"
proof -
  assume a: "s \<noteq> []" "hd s \<noteq> c" "last s \<noteq> c"
  then have "dropWhile ((=) c) s = s"
    by (cases s) auto
  moreover from a have "dropWhile ((=) c) (rev s) = rev s"
    by (cases "rev s") (auto simp: hd_rev [symmetric])
  ultimately show ?thesis by (simp add: trim_char_def)
qed

lemma trim_char_Nil [simp]: "trim_char c [] = []"
  by (simp add: trim_char_def)

lemma trim_char_idem [simp]: "trim_char c (trim_char c s) = trim_char c s"
  by (cases "trim_char c s = []") (auto intro: trim_char_id dest: trim_char_ends)

lemma trim_char_Cons_eq [simp]: "trim_char c (c # s) = trim_char c s"
  by (simp add: trim_char_def)

lemma set_trim_char: "set (trim_char c s) \<subseteq> set s"
  unfolding trim_char_def by (metis set_dropWhileD set_rev subsetI)

section \<open>Splitting and joining\<close>

text \<open>\<open>strings.Split(s, c)\<close> and \<open>strings.Join(xs, c)\<close> for a separator of one byte.\<close>

fun split :: "char \<Rightarrow> string \<Rightarrow> string list" where
  "split c [] = [[]]"
| "split c (x # xs) =
     (if x = c then [] # split c xs
      else (case split c xs of [] \<Rightarrow> [[x]] | y # ys \<Rightarrow> (x # y) # ys))"

fun join :: "char \<Rightarrow> string list \<Rightarrow> string" where
  "join c [] = []"
| "join c [x] = x"
| "join c (x # y # ys) = x @ c # join c (y # ys)"

text \<open>\<open>strings.SplitN(s, c, 2)\<close>: at the first separator, if there is one.\<close>

definition splitn2 :: "char \<Rightarrow> string \<Rightarrow> string list" where
  "splitn2 c s = (case dropWhile ((\<noteq>) c) s of
      [] \<Rightarrow> [s]
    | _ # r \<Rightarrow> [takeWhile ((\<noteq>) c) s, r])"

lemma split_not_Nil [simp]: "split c s \<noteq> []"
  by (induction s) (auto split: list.splits)

lemma join_split [simp]: "join c (split c s) = s"
proof (induction s)
  case Nil
  then show ?case by simp
next
  case (Cons x xs)
  obtain y ys where y: "split c xs = y # ys" by (meson neq_Nil_conv split_not_Nil)
  then have IH: "join c (y # ys) = xs" using Cons.IH by simp
  show ?case
  proof (cases "x = c")
    case True
    then show ?thesis using y IH by simp
  next
    case False
    then show ?thesis using y IH by (cases ys) auto
  qed
qed

lemma split_no_sep: "p \<in> set (split c s) \<Longrightarrow> c \<notin> set p"
  by (induction s arbitrary: p) (fastforce split: list.splits if_splits)+

lemma split_plain: "c \<notin> set s \<Longrightarrow> split c s = [s]"
  by (induction s) auto

lemma split_append_sep: "c \<notin> set p \<Longrightarrow> split c (p @ c # r) = p # split c r"
  by (induction p) auto

lemma split_join:
  assumes "xs \<noteq> []" and "\<forall>x\<in>set xs. c \<notin> set x"
  shows "split c (join c xs) = xs"
  using assms
proof (induction c xs rule: join.induct)
  case (3 c x y ys)
  then show ?case by (simp add: split_append_sep)
qed (auto simp: split_plain)

lemma splitn2_plain: "c \<notin> set s \<Longrightarrow> splitn2 c s = [s]"
proof -
  assume "c \<notin> set s"
  then have "dropWhile ((\<noteq>) c) s = []" by (auto simp: dropWhile_eq_Nil_conv)
  then show ?thesis unfolding splitn2_def by (simp del: dropWhile_eq_Nil_conv)
qed

lemma splitn2_sep: "c \<notin> set p \<Longrightarrow> splitn2 c (p @ c # r) = [p, r]"
proof -
  assume "c \<notin> set p"
  then have "dropWhile ((\<noteq>) c) (p @ c # r) = c # r" and "takeWhile ((\<noteq>) c) (p @ c # r) = p"
    by (induction p) auto
  then show ?thesis by (simp add: splitn2_def)
qed

section \<open>Searching\<close>

text \<open>\<open>strings.Index(s, sub)\<close>, \<open>None\<close> for -1, and \<open>strings.Contains\<close>.\<close>

fun index_of :: "string \<Rightarrow> string \<Rightarrow> nat option" where
  "index_of sub [] = (if sub = [] then Some 0 else None)"
| "index_of sub (x # xs) =
     (if has_prefix (x # xs) sub then Some 0 else map_option Suc (index_of sub xs))"

definition contains :: "string \<Rightarrow> string \<Rightarrow> bool" where
  "contains s sub \<longleftrightarrow> index_of sub s \<noteq> None"

lemma index_of_single:
  "index_of [c] s = (if c \<in> set s then Some (length (takeWhile ((\<noteq>) c) s)) else None)"
  by (induction s) (auto simp: has_prefix_def)

lemma contains_single [simp]: "contains s [c] \<longleftrightarrow> c \<in> set s"
  by (simp add: contains_def index_of_single)

lemma index_of_append: "index_of sub (p @ sub @ q) \<noteq> None"
proof (induction p)
  case Nil
  show ?case
  proof (cases "sub @ q")
    case (Cons a r)
    have "has_prefix (sub @ q) sub" by simp
    then have "has_prefix (a # r) sub" unfolding Cons .
    then show ?thesis by (simp add: Cons)
  qed simp
next
  case (Cons x p)
  then show ?case by auto
qed

lemma contains_append [simp]: "contains (p @ sub @ q) sub"
  using index_of_append by (simp add: contains_def)

section \<open>Case and white space\<close>

text \<open>
  \<open>strings.ToLower\<close>, exact for the comparisons with ASCII words the program makes: ASCII
  letters are lowered, and so are the two runes beyond ASCII whose lower case is an ASCII
  letter (U+0130, the capital I with a dot, and U+212A, the Kelvin sign); every other byte
  beyond ASCII is left as it is, and never is part of an ASCII word.
\<close>

definition ascii_lower :: "char \<Rightarrow> char" where
  "ascii_lower c =
     (if 65 \<le> (of_char c :: nat) \<and> (of_char c :: nat) \<le> 90
      then char_of (of_char c + 32 :: nat) else c)"

fun to_lower :: "string \<Rightarrow> string" where
  "to_lower (a # b # d # xs) =
     (if a = CHR 0xE2 \<and> b = CHR 0x84 \<and> d = CHR 0xAA then CHR ''k'' # to_lower xs
      else if a = CHR 0xC4 \<and> b = CHR 0xB0 then CHR ''i'' # to_lower (d # xs)
      else ascii_lower a # to_lower (b # d # xs))"
| "to_lower [a, b] =
     (if a = CHR 0xC4 \<and> b = CHR 0xB0 then [CHR ''i''] else [ascii_lower a, ascii_lower b])"
| "to_lower [a] = [ascii_lower a]"
| "to_lower [] = []"

text \<open>
  \<open>strings.TrimSpace\<close>: the white space of \<open>unicode.IsSpace\<close> as UTF-8 bytes, taken off both
  ends. None of the codes is the start of another, and none ends inside another rune.
\<close>

definition space_codes :: "string list" where
  "space_codes =
     map (\<lambda>c. [c]) [CHR 0x09, CHR 0x0A, CHR 0x0B, CHR 0x0C, CHR 0x0D, CHR 0x20]
     @ [[CHR 0xC2, CHR 0x85], [CHR 0xC2, CHR 0xA0], [CHR 0xE1, CHR 0x9A, CHR 0x80]]
     @ map (\<lambda>c. [CHR 0xE2, CHR 0x80, c])
         [CHR 0x80, CHR 0x81, CHR 0x82, CHR 0x83, CHR 0x84, CHR 0x85, CHR 0x86, CHR 0x87,
          CHR 0x88, CHR 0x89, CHR 0x8A, CHR 0xA8, CHR 0xA9, CHR 0xAF]
     @ [[CHR 0xE2, CHR 0x81, CHR 0x9F], [CHR 0xE3, CHR 0x80, CHR 0x80]]"

function trim_left_space :: "string \<Rightarrow> string" where
  "trim_left_space s =
     (case find (has_prefix s) space_codes of
        None \<Rightarrow> s
      | Some c \<Rightarrow> trim_left_space (drop (length c) s))"
  by pat_completeness auto

lemma find_space_code:
  "find (has_prefix s) space_codes = Some c \<Longrightarrow> c \<noteq> [] \<and> s \<noteq> []"
proof -
  assume "find (has_prefix s) space_codes = Some c"
  then have "c \<in> set space_codes" and p: "has_prefix s c"
    by (auto simp: find_Some_iff)
  then have "c \<noteq> []" by (auto simp: space_codes_def)
  with p show ?thesis by (auto simp: has_prefix_iff)
qed

termination trim_left_space
  by (relation "measure length") (auto dest: find_space_code)

declare trim_left_space.simps [simp del]

function trim_right_space :: "string \<Rightarrow> string" where
  "trim_right_space s =
     (case find (has_suffix s) space_codes of
        None \<Rightarrow> s
      | Some c \<Rightarrow> trim_right_space (take (length s - length c) s))"
  by pat_completeness auto

lemma find_space_code_suffix:
  "find (has_suffix s) space_codes = Some c \<Longrightarrow> c \<noteq> [] \<and> length c \<le> length s"
proof -
  assume "find (has_suffix s) space_codes = Some c"
  then have "c \<in> set space_codes" and p: "has_suffix s c"
    by (auto simp: find_Some_iff)
  then have "c \<noteq> []" by (auto simp: space_codes_def)
  with p show ?thesis by (auto simp: has_suffix_def)
qed

termination trim_right_space
proof (relation "measure length")
  fix s c assume "find (has_suffix s) space_codes = Some c"
  then have "c \<noteq> [] \<and> length c \<le> length s" by (rule find_space_code_suffix)
  then show "(take (length s - length c) s, s) \<in> measure length"
    by (cases c) auto
qed simp

declare trim_right_space.simps [simp del]

definition trim_space :: "string \<Rightarrow> string" where
  "trim_space s = trim_right_space (trim_left_space s)"

text \<open>The digits of a number, as \<open>fmt\<close> prints it with the verb d.\<close>

fun decimal :: "nat \<Rightarrow> string" where
  "decimal n = (if n < 10 then [char_of (48 + n)] else decimal (n div 10) @ [char_of (48 + n mod 10)])"

declare decimal.simps [simp del]

end
