(* ===== verification/GoTime.thy ===== *)
theory GoTime
  imports GoStrings
begin

text \<open>
  Go's \<open>time.ParseDuration\<close>, which every duration of the configuration goes through. A
  duration is an \<open>int\<close> in nanoseconds. The fraction of an element is computed here exactly and
  rounded down, where Go computes it in float64 (a difference below the precision of a
  float64).
\<close>

definition nsecs :: int where "nsecs = 1000000000"
definition minutes :: int where "minutes = 60 * nsecs"

definition is_digit :: "char \<Rightarrow> bool" where
  "is_digit c \<longleftrightarrow> 48 \<le> (of_char c :: nat) \<and> (of_char c :: nat) \<le> 57"

definition digit_val :: "char \<Rightarrow> nat" where
  "digit_val c = of_char c - 48"

definition unit_map :: "(string, nat) gomap" where
  "unit_map =
     [(''ns'', 1), (''us'', 1000), ([CHR 0xC2, CHR 0xB5, CHR ''s''], 1000),
      ([CHR 0xCE, CHR 0xBC, CHR ''s''], 1000), (''ms'', 1000000), (''s'', 1000000000),
      (''m'', 60000000000), (''h'', 3600000000000)]"

text \<open>\<open>leadingInt\<close>: \<open>None\<close> on overflow.\<close>

fun leading_int :: "nat \<Rightarrow> string \<Rightarrow> (nat \<times> string) option" where
  "leading_int x [] = Some (x, [])"
| "leading_int x (c # s) =
     (if is_digit c then
        if 2 ^ 63 div 10 < x then None
        else let y = x * 10 + digit_val c in if 2 ^ 63 < y then None else leading_int y s
      else Some (x, c # s))"

text \<open>\<open>leadingFraction\<close>: digits beyond the precision of the accumulator are skipped.\<close>

fun leading_fraction :: "bool \<Rightarrow> nat \<Rightarrow> nat \<Rightarrow> string \<Rightarrow> nat \<times> nat \<times> string" where
  "leading_fraction overflow x scale [] = (x, scale, [])"
| "leading_fraction overflow x scale (c # s) =
     (if is_digit c then
        if overflow \<or> (2 ^ 63 - 1) div 10 < x \<or> 2 ^ 63 < x * 10 + digit_val c
        then leading_fraction True x scale s
        else leading_fraction False (x * 10 + digit_val c) (scale * 10) s
      else (x, scale, c # s))"

definition invalid_duration :: "go_error + 'a" where
  "invalid_duration = Inl (Errorf ''time: invalid duration'' [])"

text \<open>The optional \<open>.\<close> and digits after the integer part: value, scale, "any digit", rest.\<close>

definition fraction_part :: "string \<Rightarrow> nat \<times> nat \<times> bool \<times> string" where
  "fraction_part s =
     (if s \<noteq> [] \<and> hd s = CHR ''.'' then
        (case leading_fraction False 0 1 (tl s) of
           (f, scale, r) \<Rightarrow> (f, scale, length r \<noteq> length (tl s), r))
      else (0, 1, False, s))"

text \<open>The unit: everything up to the next digit or period.\<close>

definition is_unit_char :: "char \<Rightarrow> bool" where
  "is_unit_char c \<longleftrightarrow> c \<noteq> CHR ''.'' \<and> \<not> is_digit c"

text \<open>One element: its value in nanoseconds and the rest of the string.\<close>

definition parse_element :: "string \<Rightarrow> (nat \<times> string) option" where
  "parse_element s =
     (if s = [] \<or> \<not> (hd s = CHR ''.'' \<or> is_digit (hd s)) then None
      else case leading_int 0 s of None \<Rightarrow> None
      | Some (v, s1) \<Rightarrow>
          (case fraction_part s1 of (f, scale, post, s2) \<Rightarrow>
             if length s1 = length s \<and> \<not> post then None
             else case map_of unit_map (takeWhile is_unit_char s2) of None \<Rightarrow> None
             | Some unit \<Rightarrow>
                 if 2 ^ 63 div unit < v then None
                 else let w = v * unit + (f * unit) div scale
                      in if 2 ^ 63 < w then None else Some (w, dropWhile is_unit_char s2)))"

lemma leading_int_length: "leading_int x s = Some (v, r) \<Longrightarrow> length r \<le> length s"
  by (induction x s rule: leading_int.induct) (auto simp: Let_def split: if_splits)

lemma leading_fraction_length:
  "leading_fraction ov x sc s = (f, sc', r) \<Longrightarrow> length r \<le> length s"
  by (induction ov x sc s rule: leading_fraction.induct) (auto split: if_splits)

lemma fraction_part_length: "fraction_part s = (f, sc, post, r) \<Longrightarrow> length r \<le> length s"
  by (auto simp: fraction_part_def split: if_splits prod.splits dest: leading_fraction_length)

lemma unit_part_length: "map_of unit_map (takeWhile is_unit_char s) \<noteq> None
    \<Longrightarrow> length (dropWhile is_unit_char s) < length s"
proof -
  assume u: "map_of unit_map (takeWhile is_unit_char s) \<noteq> None"
  have "map_of unit_map [] = None" by (simp add: unit_map_def)
  with u have "takeWhile is_unit_char s \<noteq> []" by metis
  moreover have "length (takeWhile is_unit_char s) + length (dropWhile is_unit_char s) = length s"
    by (metis length_append takeWhile_dropWhile_id)
  ultimately show ?thesis by (cases "takeWhile is_unit_char s") auto
qed

lemma parse_element_length: "parse_element s = Some (w, r) \<Longrightarrow> length r < length s"
proof -
  assume run: "parse_element s = Some (w, r)"
  then obtain v s1 where s1: "leading_int 0 s = Some (v, s1)"
    unfolding parse_element_def by (auto split: if_splits option.splits)
  obtain f sc post s2 where q: "fraction_part s1 = (f, sc, post, s2)"
    by (cases "fraction_part s1")
  have u: "map_of unit_map (takeWhile is_unit_char s2) \<noteq> None"
    and r: "r = dropWhile is_unit_char s2"
    using run s1 q unfolding parse_element_def
    by (auto simp: Let_def split: if_splits option.splits)
  have "length r < length s2" unfolding r by (rule unit_part_length [OF u])
  also have "\<dots> \<le> length s1" using q by (rule fraction_part_length)
  also have "\<dots> \<le> length s" using s1 by (rule leading_int_length)
  finally show ?thesis .
qed

function parse_elements :: "nat \<Rightarrow> string \<Rightarrow> nat option" where
  "parse_elements d s =
     (if s = [] then Some d
      else case parse_element s of None \<Rightarrow> None
      | Some (v, r) \<Rightarrow> if 2 ^ 63 < d + v then None else parse_elements (d + v) r)"
  by pat_completeness auto
termination
  by (relation "measure (\<lambda>(d, s). length s)") (auto dest: parse_element_length)

declare parse_elements.simps [simp del]

definition parse_duration :: "string \<Rightarrow> go_error + int" where
  "parse_duration s =
     (let neg = (s \<noteq> [] \<and> hd s = CHR ''-'');
          r = (if s \<noteq> [] \<and> (hd s = CHR ''-'' \<or> hd s = CHR ''+'') then tl s else s)
      in if r = ''0'' then Inr 0
         else if r = [] then invalid_duration
         else case parse_elements 0 r of None \<Rightarrow> invalid_duration
         | Some d \<Rightarrow>
             if neg then Inr (- int d)
             else if 2 ^ 63 - 1 < d then invalid_duration else Inr (int d))"

text \<open>A duration is an int64.\<close>

lemma parse_elements_bound: "parse_elements d s = Some v \<Longrightarrow> d \<le> 2 ^ 63 \<Longrightarrow> v \<le> 2 ^ 63"
proof (induction d s rule: parse_elements.induct)
  case (1 d s)
  show ?case
  proof (cases "s = []")
    case True
    with 1 show ?thesis by (simp add: parse_elements.simps)
  next
    case False
    with 1 show ?thesis
      by (auto simp: parse_elements.simps [of d s] split: option.splits if_splits)
  qed
qed

lemma parse_duration_i64: "parse_duration s = Inr d \<Longrightarrow> is_i64 d"
  unfolding parse_duration_def invalid_duration_def is_i64_def
  by (auto simp: Let_def split: if_splits option.splits dest!: parse_elements_bound)

lemma parse_60s: "parse_duration ''60s'' = Inr (60 * nsecs)"
  by (simp add: parse_duration_def parse_elements.simps parse_element_def fraction_part_def
      is_unit_char_def unit_map_def
      is_digit_def digit_val_def nsecs_def)

end
