(* ===== verification/Config.thy ===== *)
theory Config
  imports GoTime
begin

text \<open>
  The configuration of \<open>internal/config/config.go\<close>: the structs, as records with the fields
  the code reads.
\<close>

record authFailuresConfig =
  afMaxAttempts :: int
  afWindow :: string
  afBlockDuration :: string
  afTarpitDelay :: string
  afStateFile :: string
  afSaveInterval :: string

record sshidConfig =
  sshUsername :: string
  sshAlgorithms :: "string list"
  sshCacheDir :: string

record userConfig =
  uUsername :: string
  uPassword :: string
  uPasswordHash :: string
  uBackends :: "string list"
  uAuthorizedKeys :: "string list"
  uPrefix :: string
  uBackendPrefixes :: "(string, string) gomap"
  uPermissions :: "string list"
  uSSHID :: "sshidConfig option"
  uMaxConnections :: int
  uRateLimitBytesPerSec :: int
  uMaxFileSize :: int
  uMaxReadSize :: int

record backendConfig =
  bcName :: string
  bcEndpointURL :: string
  bcRegion :: string
  bcAccessKeyID :: string
  bcSecretAccessKey :: string
  bcBucket :: string
  bcPrefix :: string
  bcUsePathStyle :: bool
  bcPathStyleLegacy :: bool
  bcPartSize :: int
  bcTimeout :: string

record serverConfig =
  sHost :: string
  sPort :: int
  sHostKey :: string
  sHostKeyType :: string
  sLogLevel :: string
  sLogFormat :: string
  sShutdownTimeout :: string
  sMetricsAddr :: string
  sMetricsCertFile :: string
  sMetricsKeyFile :: string
  sMetricsToken :: string
  sCacheDir :: string
  sBackendHealthInterval :: string
  sAuthFailures :: authFailuresConfig
  sMaxReadSize :: int
  sMaxFileSize :: int
  sMaxConnectionsPerSecond :: int

record config =
  cServer :: serverConfig
  cUsers :: "userConfig list"
  cBackends :: "backendConfig list"

end
