(* ===== verification/GoURL.thy ===== *)
theory GoURL
  imports GoStrings
begin

text \<open>
  \<open>url.PathEscape\<close> and \<open>url.PathUnescape\<close> of Go's \<open>net/url\<close>: the encoding of the copy source
  of an S3 copy, written by \<open>internal/storage/operations.go\<close> and read back by the fake S3 of
  \<open>internal/storagetest/fake.go\<close>.
\<close>

definition hex_digits :: string where
  "hex_digits = ''0123456789ABCDEF''"

definition unreserved :: "char \<Rightarrow> bool" where
  "unreserved c \<longleftrightarrow>
     (let n = (of_char c :: nat)
      in 97 \<le> n \<and> n \<le> 122 \<or> 65 \<le> n \<and> n \<le> 90 \<or> 48 \<le> n \<and> n \<le> 57)
     \<or> c \<in> set ''-_.~$&+:=@''"

definition escape_char :: "char \<Rightarrow> string" where
  "escape_char c =
     (if unreserved c then [c]
      else [CHR ''%'', hex_digits ! (of_char c div 16), hex_digits ! (of_char c mod 16)])"

definition path_escape :: "string \<Rightarrow> string" where
  "path_escape s = concat (map escape_char s)"

definition unhex :: "char \<Rightarrow> nat option" where
  "unhex c =
     (let n = (of_char c :: nat)
      in if 48 \<le> n \<and> n \<le> 57 then Some (n - 48)
         else if 97 \<le> n \<and> n \<le> 102 then Some (n - 97 + 10)
         else if 65 \<le> n \<and> n \<le> 70 then Some (n - 65 + 10)
         else None)"

fun path_unescape :: "string \<Rightarrow> string option" where
  "path_unescape [] = Some []"
| "path_unescape (c # s) =
     (if c = CHR ''%'' then
        (case s of
           a # b # r \<Rightarrow>
             (case (unhex a, unhex b) of
                (Some i, Some j) \<Rightarrow> map_option ((#) (char_of (16 * i + j))) (path_unescape r)
              | _ \<Rightarrow> None)
         | _ \<Rightarrow> None)
      else map_option ((#) c) (path_unescape s))"

lemma unhex_hex_digit: "i < 16 \<Longrightarrow> unhex (hex_digits ! i) = Some i"
proof -
  have "\<forall>i\<in>set [0..<16]. unhex (hex_digits ! i) = Some i" by code_simp
  then show "i < 16 \<Longrightarrow> unhex (hex_digits ! i) = Some i" by simp
qed

lemma percent_not_unreserved: "\<not> unreserved CHR ''%''"
  by (simp add: unreserved_def Let_def)

lemma path_unescape_char [simp]:
  "path_unescape (escape_char c @ s) = map_option ((#) c) (path_unescape s)"
proof (cases "unreserved c")
  case True
  then have "c \<noteq> CHR ''%''" using percent_not_unreserved by auto
  with True show ?thesis by (simp add: escape_char_def)
next
  case False
  have "(of_char c :: nat) < 256" by (cases c) (simp add: of_char_def horner_sum_bit_eq_take_bit)
  then have "unhex (hex_digits ! (of_char c div 16)) = Some (of_char c div 16)"
    and "unhex (hex_digits ! (of_char c mod 16)) = Some (of_char c mod 16)"
    by (simp_all add: unhex_hex_digit less_mult_imp_div_less)
  moreover have "char_of (16 * (of_char c div 16) + of_char c mod 16 :: nat) = c"
    by simp
  ultimately show ?thesis using False by (simp add: escape_char_def)
qed

text \<open>The round trip: what is escaped is read back.\<close>

lemma path_unescape_escape [simp]: "path_unescape (path_escape s) = Some s"
  by (induction s) (simp_all add: path_escape_def)

text \<open>An escaped key has no slash, so it stays one segment of the copy source.\<close>

lemma no_slash_hex: "CHR ''/'' \<notin> set hex_digits"
  by (simp add: hex_digits_def)

lemma path_escape_no_slash: "CHR ''/'' \<notin> set (path_escape s)"
proof -
  have "CHR ''/'' \<notin> set (escape_char c)" for c
  proof (cases "unreserved c")
    case True
    moreover have "\<not> unreserved CHR ''/''" by (simp add: unreserved_def Let_def)
    ultimately show ?thesis by (auto simp: escape_char_def)
  next
    case False
    have "(of_char c :: nat) < 256"
      by (cases c) (simp add: of_char_def horner_sum_bit_eq_take_bit)
    then have "hex_digits ! (of_char c div 16) \<in> set hex_digits"
      and "hex_digits ! (of_char c mod 16) \<in> set hex_digits"
      by (simp_all add: hex_digits_def less_mult_imp_div_less del: list.set)
    with False no_slash_hex show ?thesis by (auto simp: escape_char_def)
  qed
  then show ?thesis by (auto simp: path_escape_def)
qed

end
