(* ===== verification/Storage.thy ===== *)
theory Storage
  imports Config GoURL
begin

text \<open>
  \<open>internal/storage\<close>: the backend, its key arithmetic, its operations over the S3 client, and
  the contract of the S3 service the rest of the program relies on. The client (the AWS SDK)
  is no code of the repository: it is the record \<open>s3_api\<close> of the calls the code makes, and
  the locale \<open>s3_service\<close> states what their documentation promises.
\<close>

section \<open>The S3 client\<close>

text \<open>
  \<open>client\<close> names the service a client object talks to (endpoint and account); an object's
  place is a client, a bucket and a key. A nil pointer of the SDK's results is \<open>None\<close>.
\<close>

type_synonym client = nat
type_synonym loc = "client \<times> string \<times> string"

record head_out =
  ho_ContentLength :: "int option"
  ho_LastModified :: "int option"

text \<open>
  A body is what reading it to the end yields: bytes, then an error or the end. The argument
  tells whether the context of the request has been cancelled before the reading.
\<close>

record get_out =
  go_ContentLength :: "int option"
  go_Body :: "bool \<Rightarrow> string \<times> go_error option"

record list_in =
  li_Prefix :: string
  li_Delimiter :: string
  li_MaxKeys :: "int option"
  li_Token :: "string option"

record list_obj =
  lo_Key :: string
  lo_Size :: "int option"
  lo_LastModified :: "int option"

record list_out =
  lp_Contents :: "list_obj list"
  lp_CommonPrefixes :: "string list"
  lp_Next :: "string option"

text \<open>
  The calls, on the state \<open>'s\<close> of the outside world. \<open>api_DeleteObjects\<close> gives the keys the
  service reports as not deleted (\<open>DeleteObjectsOutput.Errors\<close>). \<open>api_Upload\<close> reads its body
  from a stream and tells whether it has read it to its end.
\<close>

record 's s3_api =
  api_HeadObject :: "client \<Rightarrow> string \<Rightarrow> string \<Rightarrow> 's \<Rightarrow> (s3_error + head_out) \<times> 's"
  api_GetObject :: "client \<Rightarrow> string \<Rightarrow> string \<Rightarrow> (int \<times> int) option \<Rightarrow> 's \<Rightarrow> (s3_error + get_out) \<times> 's"
  api_PutObject :: "client \<Rightarrow> string \<Rightarrow> string \<Rightarrow> string \<Rightarrow> 's \<Rightarrow> (s3_error + unit) \<times> 's"
  api_CopyObject :: "client \<Rightarrow> string \<Rightarrow> string \<Rightarrow> string \<Rightarrow> 's \<Rightarrow> (s3_error + unit) \<times> 's"
  api_DeleteObject :: "client \<Rightarrow> string \<Rightarrow> string \<Rightarrow> 's \<Rightarrow> (s3_error + unit) \<times> 's"
  api_DeleteObjects :: "client \<Rightarrow> string \<Rightarrow> string list \<Rightarrow> 's \<Rightarrow> (s3_error + string list) \<times> 's"
  api_ListObjectsV2 :: "client \<Rightarrow> string \<Rightarrow> list_in \<Rightarrow> 's \<Rightarrow> (s3_error + list_out) \<times> 's"
  api_Upload :: "client \<Rightarrow> string \<Rightarrow> string \<Rightarrow> string \<times> go_error option \<Rightarrow> 's
    \<Rightarrow> ((go_error + unit) \<times> bool) \<times> 's"

definition aws_ToInt64 :: "int option \<Rightarrow> int" where
  "aws_ToInt64 p = (case p of None \<Rightarrow> 0 | Some n \<Rightarrow> n)"

definition s3call :: "('s \<Rightarrow> (s3_error + 'a) \<times> 's) \<Rightarrow> ('s, 'a) act" where
  "s3call f s = (case f s of (Inl e, t) \<Rightarrow> (Inl (S3 e), t) | (Inr v, t) \<Rightarrow> (Inr v, t))"

lemma s3call_Inr [act_simps]: "s3call f s = (Inr v, t) \<longleftrightarrow> f s = (Inr v, t)"
  by (auto simp: s3call_def split: prod.splits sum.splits)

lemma s3call_Inl [act_simps]: "s3call f s = (Inl e, t) \<longleftrightarrow> (\<exists>x. e = S3 x \<and> f s = (Inl x, t))"
  by (auto simp: s3call_def split: prod.splits sum.splits)

lemma snd_s3call [simp]: "snd (s3call f s) = snd (f s)"
  by (auto simp: s3call_def split: prod.splits sum.splits)

lemma within_s3call: "(\<And>s r t. f s = (r, t) \<Longrightarrow> R s t) \<Longrightarrow> within R (s3call f)"
  unfolding within_def by (metis prod.collapse snd_s3call)

section \<open>Backends\<close>

record backend =
  bName :: string
  bBucket :: string
  bPrefix :: string
  bClient :: client
  bPartSize :: int
  bTimeout :: int

definition defaultTimeout :: int where
  "defaultTimeout = 60 * nsecs"

definition ObjectKey :: "backend \<Rightarrow> string \<Rightarrow> string" where
  "ObjectKey b rel = (if bPrefix b = [] then rel else bPrefix b @ rel)"

definition DirPrefix :: "backend \<Rightarrow> string \<Rightarrow> string" where
  "DirPrefix b rel =
     (if bPrefix b = [] \<and> rel = [] then []
      else trim_suffix (ObjectKey b rel) ''/'' @ ''/'')"

text \<open>
  \<open>NewBackend\<close>: \<open>load_aws\<close> is the outcome of loading the AWS configuration, \<open>client_of\<close> the
  service the new client talks to.
\<close>

definition NewBackend ::
    "(backendConfig \<Rightarrow> go_error option) \<Rightarrow> (backendConfig \<Rightarrow> client) \<Rightarrow> backendConfig
     \<Rightarrow> go_error + backend" where
  "NewBackend load_aws client_of bc =
     (case (if bcTimeout bc \<noteq> [] then parse_duration (bcTimeout bc) else Inr defaultTimeout) of
        Inl e \<Rightarrow> Inl (Wrapf ''backend %q: invalid timeout %q: %w'' [bcName bc, bcTimeout bc] e)
      | Inr timeout \<Rightarrow>
          (case load_aws bc of
             Some e \<Rightarrow> Inl (Wrapf ''backend %q: aws config: %w'' [bcName bc] e)
           | None \<Rightarrow>
               let pfx = trim_char CHR ''/'' (bcPrefix bc);
                   pfx = (if pfx \<noteq> [] then pfx @ ''/'' else pfx)
               in Inr \<lparr>bName = bcName bc, bBucket = bcBucket bc, bPrefix = pfx,
                       bClient = client_of bc, bPartSize = bcPartSize bc,
                       bTimeout = timeout\<rparr>))"

definition backend_String :: "backend \<Rightarrow> string" where
  "backend_String b = bName b @ ''/'' @ bBucket b"

section \<open>Operations\<close>

definition DeleteObject :: "'s s3_api \<Rightarrow> backend \<Rightarrow> string \<Rightarrow> ('s, unit) act" where
  "DeleteObject api b key = s3call (api_DeleteObject api (bClient b) (bBucket b) key)"

text \<open>
  The paginator: \<open>HasMorePages\<close> and \<open>NextPage\<close> around a loop body that collects an
  accumulator. \<open>next\<close> fetches the page of a token; a page without a next token is the last.
\<close>

fun page_loop ::
    "nat \<Rightarrow> (string option \<Rightarrow> ('w, list_out) act) \<Rightarrow> (list_out \<Rightarrow> 'acc \<Rightarrow> ('w, 'acc) act)
     \<Rightarrow> string option \<Rightarrow> 'acc \<Rightarrow> ('w, 'acc) act" where
  "page_loop 0 next body tok acc = failE OutOfFuel"
| "page_loop (Suc n) next body tok acc =
     bindE (next tok) (\<lambda>page.
     bindE (body page acc) (\<lambda>acc'.
       case lp_Next page of
         None \<Rightarrow> retE acc'
       | Some t \<Rightarrow> page_loop n next body (Some t) acc'))"

definition list_request :: "string \<Rightarrow> string \<Rightarrow> string option \<Rightarrow> list_in" where
  "list_request pfx delim tok =
     \<lparr>li_Prefix = pfx, li_Delimiter = delim, li_MaxKeys = None, li_Token = tok\<rparr>"

definition list_page :: "'s s3_api \<Rightarrow> backend \<Rightarrow> string \<Rightarrow> string \<Rightarrow> string option \<Rightarrow> ('s, list_out) act" where
  "list_page api b pfx delim tok =
     s3call (api_ListObjectsV2 api (bClient b) (bBucket b) (list_request pfx delim tok))"

text \<open>The deletion loop \<open>for i := 0; i < len(keys); i += 1000\<close>.\<close>

function delete_batches :: "'s s3_api \<Rightarrow> backend \<Rightarrow> string list \<Rightarrow> nat \<Rightarrow> ('s, unit) act" where
  "delete_batches api b keys i =
     (if i < length keys then
        let end = (if i + 1000 > length keys then length keys else i + 1000)
        in thenE (s3call (api_DeleteObjects api (bClient b) (bBucket b) (drop i (take end keys))))
             (delete_batches api b keys (i + 1000))
      else retE ())"
  by pat_completeness auto
termination
  by (relation "measure (\<lambda>(api, b, keys, i). length keys - i)") auto

declare delete_batches.simps [simp del]

definition DeletePrefix :: "nat \<Rightarrow> 's s3_api \<Rightarrow> backend \<Rightarrow> string \<Rightarrow> ('s, unit) act" where
  "DeletePrefix fuel api b pfx =
     bindE (page_loop fuel (list_page api b pfx [])
              (\<lambda>page keys. retE (keys @ map lo_Key (lp_Contents page))) None [])
       (\<lambda>keys. delete_batches api b keys 0)"

definition ObjectExists :: "'s s3_api \<Rightarrow> backend \<Rightarrow> string \<Rightarrow> ('s, bool) act" where
  "ObjectExists api b key s =
     (case api_HeadObject api (bClient b) (bBucket b) key s of
        (Inr _, t) \<Rightarrow> (Inr True, t)
      | (Inl e, t) \<Rightarrow> if e = NotFound \<or> e = NoSuchKey then (Inr False, t) else (Inl (S3 e), t))"

definition CopyObject :: "'s s3_api \<Rightarrow> backend \<Rightarrow> string \<Rightarrow> string \<Rightarrow> ('s, unit) act" where
  "CopyObject api b srcKey dstKey =
     s3call (api_CopyObject api (bClient b) (bBucket b) dstKey
       (''/'' @ bBucket b @ ''/'' @ path_escape srcKey))"

definition PrefixHasEntries :: "'s s3_api \<Rightarrow> backend \<Rightarrow> string \<Rightarrow> ('s, bool) act" where
  "PrefixHasEntries api b pfx =
     bindE (s3call (api_ListObjectsV2 api (bClient b) (bBucket b)
              \<lparr>li_Prefix = pfx, li_Delimiter = ''/'', li_MaxKeys = Some 1, li_Token = None\<rparr>))
       (\<lambda>out. retE (lp_CommonPrefixes out \<noteq> [] \<or> lp_Contents out \<noteq> []))"

section \<open>Keys\<close>

text \<open>What \<open>NewBackend\<close> makes of a prefix: empty, or ending with a slash.\<close>

definition wf_prefix :: "string \<Rightarrow> bool" where
  "wf_prefix p \<longleftrightarrow> p = [] \<or> last p = CHR ''/''"

lemma wf_prefix_Nil [simp]: "wf_prefix []"
  and wf_prefix_slash [simp]: "wf_prefix (p @ ''/'')"
  by (simp_all add: wf_prefix_def)

lemma ObjectKey_eq: "ObjectKey b rel = bPrefix b @ rel"
  by (simp add: ObjectKey_def)

lemma DirPrefix_eq:
  "wf_prefix (bPrefix b) \<Longrightarrow>
     DirPrefix b rel = bPrefix b @ (if rel = [] then [] else trim_suffix rel ''/'' @ ''/'')"
  by (cases rel rule: rev_cases; cases "bPrefix b" rule: rev_cases)
    (auto simp: DirPrefix_def ObjectKey_def wf_prefix_def trim_suffix_single butlast_append)

lemma DirPrefix_prefix: "wf_prefix (bPrefix b) \<Longrightarrow> prefix (bPrefix b) (DirPrefix b rel)"
  by (simp add: DirPrefix_eq)

lemma ObjectKey_prefix: "prefix (bPrefix b) (ObjectKey b rel)"
  by (simp add: ObjectKey_eq)

lemma DirPrefix_plain:
  "wf_prefix (bPrefix b) \<Longrightarrow> rel \<noteq> [] \<Longrightarrow> last rel \<noteq> CHR ''/'' \<Longrightarrow>
     DirPrefix b rel = ObjectKey b rel @ ''/''"
  by (simp add: DirPrefix_eq ObjectKey_eq trim_suffix_single)

lemma NewBackend_Inr:
  assumes "NewBackend load_aws client_of bc = Inr b"
  shows "wf_prefix (bPrefix b)" and "bName b = bcName bc" and "bBucket b = bcBucket bc"
    and "bPrefix b \<noteq> ''/''" and "bClient b = client_of bc"
  using assms unfolding NewBackend_def
  by (auto simp: Let_def split: sum.splits option.splits if_splits)

end
