(* ===== verification/S3Service.thy ===== *)
theory S3Service
  imports Storage
begin

text \<open>
  The contract of an S3 service, as the locale \<open>s3_service\<close> over the calls of \<open>s3_api\<close>, and
  what the storage operations do to the objects under it. The world is seen through \<open>view\<close>:
  the contents of the object at a place, if there is one.
\<close>

section \<open>Places and what changes there\<close>

definition locs :: "backend \<Rightarrow> string set \<Rightarrow> loc set" where
  "locs b K = {bClient b} \<times> {bBucket b} \<times> K"

definition loc_of :: "backend \<Rightarrow> string \<Rightarrow> loc" where
  "loc_of b k = (bClient b, bBucket b, k)"

lemma loc_of_in_locs [simp]: "loc_of b k \<in> locs b K \<longleftrightarrow> k \<in> K"
  by (simp add: locs_def loc_of_def)

lemma locs_mono: "K \<subseteq> L \<Longrightarrow> locs b K \<subseteq> locs b L"
  by (auto simp: locs_def)

lemma locs_single: "locs b {k} = {loc_of b k}"
  by (simp add: locs_def loc_of_def)

lemma loc_of_eq [simp]: "loc_of b k = loc_of b k' \<longleftrightarrow> k = k'"
  by (simp add: loc_of_def)

lemma locs_Un: "locs b (K \<union> L) = locs b K \<union> locs b L"
  by (auto simp: locs_def)

text \<open>The keys under a prefix, and the keys of a bucket that hold an object.\<close>

definition under :: "string \<Rightarrow> string set" where
  "under p = {k. prefix p k}"

lemma in_under [simp]: "k \<in> under p \<longleftrightarrow> prefix p k"
  by (simp add: under_def)

definition keys_of :: "(loc \<Rightarrow> string option) \<Rightarrow> backend \<Rightarrow> string set" where
  "keys_of v b = {k. v (loc_of b k) \<noteq> None}"

lemma keys_of_mono: "(\<And>k. v (loc_of b k) = w (loc_of b k)) \<Longrightarrow> keys_of v b = keys_of w b"
  by (simp add: keys_of_def)

text \<open>
  What a listing lists: an object, or the common prefix of the objects whose key goes on with
  the delimiter somewhere after the listed prefix.
\<close>

datatype list_item = Obj string | Common string

definition item_of :: "string \<Rightarrow> string \<Rightarrow> string \<Rightarrow> list_item" where
  "item_of p d k =
     (let suf = drop (length p) k
      in if d = [] then Obj k
         else (case index_of d suf of
                 None \<Rightarrow> Obj k
               | Some i \<Rightarrow> Common (p @ take (i + length d) suf)))"

definition items :: "string \<Rightarrow> string \<Rightarrow> string set \<Rightarrow> list_item set" where
  "items p d K = item_of p d ` (K \<inter> under p)"

definition got :: "list_out \<Rightarrow> list_item set" where
  "got page = Obj ` lo_Key ` set (lp_Contents page) \<union> Common ` set (lp_CommonPrefixes page)"

text \<open>A page of a listing with the items \<open>I\<close> still to come, and where the listing goes on.\<close>

definition page_ok :: "(string option \<Rightarrow> list_item set \<Rightarrow> list_item set) \<Rightarrow> string option
    \<Rightarrow> list_item set \<Rightarrow> list_out \<Rightarrow> bool" where
  "page_ok pending tok I page \<longleftrightarrow>
     (case lp_Next page of
        None \<Rightarrow> got page = pending tok I
      | Some t \<Rightarrow> got page \<noteq> {} \<and> got page \<subseteq> pending tok I
                   \<and> pending (Some t) I = pending tok I - got page)"

text \<open>What reading the body of an object with contents \<open>d\<close> may give.\<close>

definition reads :: "string \<Rightarrow> string \<times> go_error option \<Rightarrow> bool" where
  "reads d r \<longleftrightarrow> prefix (fst r) d \<and> (snd r = None \<longrightarrow> fst r = d)"

text \<open>The \<open>x-amz-copy-source\<close> of a copy: \<open>/bucket/key\<close>, the key URL-encoded.\<close>

definition parse_copy_source :: "string \<Rightarrow> (string \<times> string) option" where
  "parse_copy_source src =
     (case splitn2 CHR ''/'' (trim_prefix src ''/'') of
        [b, k] \<Rightarrow> map_option (Pair b) (path_unescape k)
      | _ \<Rightarrow> None)"

lemma parse_copy_source_escape:
  "CHR ''/'' \<notin> set b \<Longrightarrow> parse_copy_source (''/'' @ b @ ''/'' @ path_escape k) = Some (b, k)"
proof -
  assume b: "CHR ''/'' \<notin> set b"
  have "trim_prefix (''/'' @ (b @ ''/'' @ path_escape k)) ''/'' = b @ ''/'' @ path_escape k"
    by (rule trim_prefix_append)
  moreover have "splitn2 CHR ''/'' (b @ CHR ''/'' # path_escape k) = [b, path_escape k]"
    using b by (rule splitn2_sep)
  ultimately show ?thesis by (simp add: parse_copy_source_def)
qed

section \<open>The contract\<close>

text \<open>
  \<open>mounted c b\<close> holds for the buckets that exist. A call that fails may still have taken
  effect (a timeout after the request was sent): the laws for errors allow both outcomes, for
  each key of a batch on its own. What is read of a body is a beginning of the object, and all of
  it when the end is reached without an error, whether or not the context of the request has been
  cancelled. \<open>pending\<close> is what a continuation token stands for. The last two laws say that \<open>OutOfFuel\<close>, which is no error of the program, does not come from outside.
\<close>

locale s3_service =
  fixes api :: "'s s3_api"
    and view :: "'s \<Rightarrow> loc \<Rightarrow> string option"
    and mounted :: "client \<Rightarrow> string \<Rightarrow> bool"
    and pending :: "string option \<Rightarrow> list_item set \<Rightarrow> list_item set"
  assumes bucket_name: "mounted c b \<Longrightarrow> CHR ''/'' \<notin> set b"
    and finite_bucket: "finite {k. view s (c, b, k) \<noteq> None}"
    and pending_all: "pending None I = I"
    and head_ok: "mounted c b \<Longrightarrow> api_HeadObject api c b k s = (Inr ho, t) \<Longrightarrow>
      view t = view s \<and>
      (\<exists>d. view s (c, b, k) = Some d \<and> ho_ContentLength ho = Some (int (length d)))"
    and head_err: "mounted c b \<Longrightarrow> api_HeadObject api c b k s = (Inl e, t) \<Longrightarrow>
      view t = view s \<and> (e = NotFound \<or> e = NoSuchKey \<longrightarrow> view s (c, b, k) = None)"
    and get_frame: "mounted c b \<Longrightarrow> api_GetObject api c b k r s = (xg, t) \<Longrightarrow> view t = view s"
    and get_ok: "mounted c b \<Longrightarrow> api_GetObject api c b k None s = (Inr go, t) \<Longrightarrow>
      \<exists>d. view s (c, b, k) = Some d \<and> go_ContentLength go = Some (int (length d))
        \<and> reads d (go_Body go x)"
    and put_ok: "mounted c b \<Longrightarrow> api_PutObject api c b k d s = (Inr u, t) \<Longrightarrow>
      view t = (view s)((c, b, k) \<mapsto> d)"
    and put_err: "mounted c b \<Longrightarrow> api_PutObject api c b k d s = (Inl e, t) \<Longrightarrow>
      view t = view s \<or> view t = (view s)((c, b, k) \<mapsto> d)"
    and copy_ok: "mounted c b \<Longrightarrow> mounted c sb \<Longrightarrow> parse_copy_source src = Some (sb, sk) \<Longrightarrow>
      api_CopyObject api c b k src s = (Inr u, t) \<Longrightarrow>
      \<exists>d. view s (c, sb, sk) = Some d \<and> view t = (view s)((c, b, k) \<mapsto> d)"
    and copy_err: "mounted c b \<Longrightarrow> mounted c sb \<Longrightarrow> parse_copy_source src = Some (sb, sk) \<Longrightarrow>
      api_CopyObject api c b k src s = (Inl e, t) \<Longrightarrow>
      view t = view s \<or> (\<exists>d. view s (c, sb, sk) = Some d \<and> view t = (view s)((c, b, k) \<mapsto> d))"
    and delete_ok: "mounted c b \<Longrightarrow> api_DeleteObject api c b k s = (Inr u, t) \<Longrightarrow>
      view t = (view s)((c, b, k) := None)"
    and delete_err: "mounted c b \<Longrightarrow> api_DeleteObject api c b k s = (Inl e, t) \<Longrightarrow>
      view t = view s \<or> view t = (view s)((c, b, k) := None)"
    and deletes_ok: "mounted c b \<Longrightarrow> api_DeleteObjects api c b ks s = (Inr failed, t) \<Longrightarrow>
      view t = view s |` (- ({c} \<times> {b} \<times> (set ks - set failed)))"
    and deletes_err: "mounted c b \<Longrightarrow> api_DeleteObjects api c b ks s = (Inl e, t) \<Longrightarrow>
      \<exists>D \<subseteq> set ks. view t = view s |` (- ({c} \<times> {b} \<times> D))"
    and list_frame: "mounted c b \<Longrightarrow> api_ListObjectsV2 api c b li s = (xl, t) \<Longrightarrow> view t = view s"
    and list_ok: "mounted c b \<Longrightarrow> api_ListObjectsV2 api c b li s = (Inr page, t) \<Longrightarrow>
      page_ok pending (li_Token li)
        (items (li_Prefix li) (li_Delimiter li) {k. view s (c, b, k) \<noteq> None}) page \<and>
      (\<forall>ob\<in>set (lp_Contents page).
         \<exists>d. view s (c, b, lo_Key ob) = Some d \<and> lo_Size ob = Some (int (length d)))"
    and upload_ok: "mounted c b \<Longrightarrow> api_Upload api c b k (d, de) s = ((Inr u, drained), t) \<Longrightarrow>
      drained \<and> de = None \<and> view t = (view s)((c, b, k) \<mapsto> d)"
    and upload_err: "mounted c b \<Longrightarrow> api_Upload api c b k (d, de) s = ((Inl ue, drained), t) \<Longrightarrow>
      view t = view s \<or> de = None \<and> view t = (view s)((c, b, k) \<mapsto> d)"
    and get_marks: "api_GetObject api c b k r s = (Inr go, t) \<Longrightarrow> snd (go_Body go x) \<noteq> Some OutOfFuel"
    and upload_marks: "api_Upload api c b k (d, de) s = ((Inl ue, drained), t) \<Longrightarrow>
      de \<noteq> Some OutOfFuel \<Longrightarrow> ue \<noteq> OutOfFuel"

text \<open>
  Three promises a service may make beyond the contract: a batch deletion reports no key as
  failed, a body can be read to its end after its request's context was cancelled, and a ranged
  read gives the bytes of the range. The fake of the tests makes the first two, which no
  property of the program relies on; the third is documented and named where it is used.
\<close>

definition deletes_all :: "'s s3_api \<Rightarrow> bool" where
  "deletes_all api \<longleftrightarrow>
     (\<forall>c b ks s failed t. api_DeleteObjects api c b ks s = (Inr failed, t) \<longrightarrow> failed = [])"

definition body_outlives_cancel :: "'s s3_api \<Rightarrow> bool" where
  "body_outlives_cancel api \<longleftrightarrow>
     (\<forall>c b k r s go t. api_GetObject api c b k r s = (Inr go, t) \<longrightarrow> go_Body go True = go_Body go False)"

definition honours_range :: "'s s3_api \<Rightarrow> ('s \<Rightarrow> loc \<Rightarrow> string option) \<Rightarrow> bool" where
  "honours_range api view \<longleftrightarrow>
     (\<forall>c b k lo hi s go t. api_GetObject api c b k (Some (lo, hi)) s = (Inr go, t) \<longrightarrow>
        (\<forall>d. view s (c, b, k) = Some d \<longrightarrow> 0 \<le> lo \<longrightarrow> lo \<le> hi \<longrightarrow> hi < int (length d) \<longrightarrow>
           reads (take (nat (hi - lo + 1)) (drop (nat lo) d)) (go_Body go False)))"

section \<open>What a deletion may leave\<close>

text \<open>
  \<open>DeleteObjects\<close> names in its answer the keys it has refused to delete. \<open>remembers api N\<close>: the
  state of the service keeps the places of the refused keys in \<open>N\<close>.
\<close>

definition remembers :: "'s s3_api \<Rightarrow> ('s \<Rightarrow> loc set) \<Rightarrow> bool" where
  "remembers api N \<longleftrightarrow>
     (\<forall>c b ks s r t. api_DeleteObjects api c b ks s = (r, t) \<longrightarrow>
        N s \<subseteq> N t \<and> (\<forall>failed. r = Inr failed \<longrightarrow> {c} \<times> {b} \<times> set failed \<subseteq> N t))"

text \<open>
  The objects at the places \<open>L\<close> are gone, apart from some of those at the places \<open>N\<close>, which
  are as they were; nothing else has changed.
\<close>

definition cleared :: "loc set \<Rightarrow> loc set \<Rightarrow> (loc \<Rightarrow> string option) \<Rightarrow> (loc \<Rightarrow> string option) \<Rightarrow> bool" where
  "cleared L N v v' \<longleftrightarrow>
     (\<forall>l. if l \<in> L then v' l = None \<or> l \<in> N \<and> v' l = v l else v' l = v l)"

lemma cleared_trans:
  assumes "cleared L M v v1" and "cleared L' N v1 v2" and "M \<subseteq> N"
  shows "cleared (L \<union> L') N v v2"
  unfolding cleared_def
proof
  fix l
  show "if l \<in> L \<union> L' then v2 l = None \<or> l \<in> N \<and> v2 l = v l else v2 l = v l"
    using spec [OF assms(1) [unfolded cleared_def], of l] assms(3)
      spec [OF assms(2) [unfolded cleared_def], of l]
    by (auto split: if_splits)
qed

lemma cleared_none: "cleared L {} v v' \<longleftrightarrow> v' = v |` (- L)"
  by (auto simp: cleared_def restrict_map_def fun_eq_iff)

lemma cleared_upd: "v' = v(l := None) \<Longrightarrow> cleared {l} N v v'"
  by (simp add: cleared_def)

section \<open>What may change: frames\<close>

definition agree_off :: "('s \<Rightarrow> loc \<Rightarrow> string option) \<Rightarrow> loc set \<Rightarrow> 's \<Rightarrow> 's \<Rightarrow> bool" where
  "agree_off view L s t \<longleftrightarrow> (\<forall>l. l \<notin> L \<longrightarrow> view t l = view s l)"

lemma reflp_agree_off [simp]: "reflp (agree_off view L)"
  by (simp add: reflp_def agree_off_def)

lemma transp_agree_off [simp]: "transp (agree_off view L)"
  by (simp add: transp_def agree_off_def)

lemma agree_off_mono: "agree_off view L s t \<Longrightarrow> L \<subseteq> M \<Longrightarrow> agree_off view M s t"
  by (auto simp: agree_off_def)

lemma within_agree_mono: "within (agree_off view L) m \<Longrightarrow> L \<subseteq> M \<Longrightarrow> within (agree_off view M) m"
  unfolding within_def by (blast intro: agree_off_mono)

lemma agree_off_same: "view t = view s \<Longrightarrow> agree_off view L s t"
  by (simp add: agree_off_def)

lemma agree_off_upd: "l \<in> L \<Longrightarrow> view t = (view s)(l := x) \<Longrightarrow> agree_off view L s t"
  by (auto simp: agree_off_def)

lemma agree_off_restrict: "A \<subseteq> L \<Longrightarrow> view t = view s |` (- A) \<Longrightarrow> agree_off view L s t"
  by (auto simp: agree_off_def restrict_map_def)

text \<open>Only erased: some objects at the places \<open>L\<close> are gone, all others are as they were.\<close>

definition erased :: "('s \<Rightarrow> loc \<Rightarrow> string option) \<Rightarrow> loc set \<Rightarrow> 's \<Rightarrow> 's \<Rightarrow> bool" where
  "erased view L s t \<longleftrightarrow> (\<forall>l. view t l = view s l \<or> l \<in> L \<and> view t l = None)"

lemma reflp_erased [simp]: "reflp (erased view L)"
  by (simp add: reflp_def erased_def)

lemma transp_erased [simp]: "transp (erased view L)"
  unfolding transp_def erased_def by metis

lemma erased_same: "view t = view s \<Longrightarrow> erased view L s t"
  by (simp add: erased_def)

lemma erased_restrict: "A \<subseteq> L \<Longrightarrow> view t = view s |` (- A) \<Longrightarrow> erased view L s t"
  by (auto simp: erased_def restrict_map_def)

lemma erased_agree: "erased view L s t \<Longrightarrow> agree_off view L s t"
  by (auto simp: erased_def agree_off_def)

section \<open>The pagination loop\<close>

text \<open>
  The rule for a loop over the pages of a listing of the items \<open>I\<close>. The invariant speaks of
  the accumulator, the items done and the state; each page adds its items to those done, and
  the loop ends when all are. The second rule says how much fuel is enough: more than there
  are items to come.
\<close>

lemma pending_step:
  assumes "page_ok pending tok I page" and "D \<union> pending tok I = I"
  shows "got page \<subseteq> I"
    and "lp_Next page = None \<Longrightarrow> D \<union> got page = I"
    and "lp_Next page = Some u \<Longrightarrow> D \<union> got page \<union> pending (Some u) I = I"
    and "lp_Next page = Some u \<Longrightarrow> finite I \<Longrightarrow> card (pending (Some u) I) < card (pending tok I)"
proof -
  show "got page \<subseteq> I" and "lp_Next page = None \<Longrightarrow> D \<union> got page = I"
    and "lp_Next page = Some u \<Longrightarrow> D \<union> got page \<union> pending (Some u) I = I"
    using assms by (auto simp: page_ok_def split: option.splits)
  assume "lp_Next page = Some u" "finite I"
  then have g: "got page \<noteq> {}" "got page \<subseteq> pending tok I"
    "pending (Some u) I = pending tok I - got page"
    using assms(1) by (auto simp: page_ok_def)
  have "pending tok I \<subseteq> I" using assms(2) by blast
  then have "finite (pending tok I)" using \<open>finite I\<close> by (rule finite_subset)
  moreover have "pending (Some u) I \<subset> pending tok I" using g by blast
  ultimately show "card (pending (Some u) I) < card (pending tok I)" by (rule psubset_card_mono)
qed

lemma page_loop_inv:
  assumes next_ok: "\<And>tok acc D w page w'. Inv acc D w \<Longrightarrow> next tok w = (Inr page, w') \<Longrightarrow>
      page_ok pending tok I page \<and> Inv acc D w' \<and> Pg page w'"
    and body_ok: "\<And>page acc D w acc' w'. Inv acc D w \<Longrightarrow> Pg page w \<Longrightarrow> got page \<subseteq> I \<Longrightarrow>
      body page acc w = (Inr acc', w') \<Longrightarrow> Inv acc' (D \<union> got page) w'"
  shows "page_loop n next body tok acc w = (Inr acc', w') \<Longrightarrow> Inv acc D w \<Longrightarrow>
      D \<union> pending tok I = I \<Longrightarrow> Inv acc' I w'"
proof (induction n arbitrary: tok acc D w)
  case 0
  then show ?case by (simp add: failE_app)
next
  case (Suc n)
  from Suc.prems(1) obtain page w1 a1 w2 where
    nx: "next tok w = (Inr page, w1)" and bd: "body page acc w1 = (Inr a1, w2)"
    and rest: "(case lp_Next page of None \<Rightarrow> retE a1
        | Some t \<Rightarrow> page_loop n next body (Some t) a1) w2 = (Inr acc', w')"
    by (auto simp: act_simps)
  from next_ok [OF Suc.prems(2) nx]
  have pg: "page_ok pending tok I page" and i1: "Inv acc D w1" and p1: "Pg page w1" by auto
  note st = pending_step [OF pg Suc.prems(3)]
  have i2: "Inv a1 (D \<union> got page) w2" by (rule body_ok [OF i1 p1 st(1) bd])
  show ?case
  proof (cases "lp_Next page")
    case None
    with rest have "acc' = a1" "w' = w2" by (auto simp: act_simps)
    with i2 st(2) [OF None] show ?thesis by simp
  next
    case (Some u)
    with rest have "page_loop n next body (Some u) a1 w2 = (Inr acc', w')" by simp
    then show ?thesis by (rule Suc.IH [OF _ i2 st(3) [OF Some]])
  qed
qed

lemma page_loop_fuel:
  assumes next_ok: "\<And>tok acc D w page w'. Inv acc D w \<Longrightarrow> next tok w = (Inr page, w') \<Longrightarrow>
      page_ok pending tok I page \<and> Inv acc D w' \<and> Pg page w'"
    and body_ok: "\<And>page acc D w acc' w'. Inv acc D w \<Longrightarrow> Pg page w \<Longrightarrow> got page \<subseteq> I \<Longrightarrow>
      body page acc w = (Inr acc', w') \<Longrightarrow> Inv acc' (D \<union> got page) w'"
    and next_err: "\<And>tok w e w'. next tok w = (Inl e, w') \<Longrightarrow> e \<noteq> OutOfFuel"
    and body_err: "\<And>page acc w e w'. body page acc w = (Inl e, w') \<Longrightarrow> e \<noteq> OutOfFuel"
    and fin: "finite I"
  shows "Inv acc D w \<Longrightarrow> D \<union> pending tok I = I \<Longrightarrow> card (pending tok I) < n \<Longrightarrow>
      page_loop n next body tok acc w \<noteq> (Inl OutOfFuel, w')"
proof (induction n arbitrary: tok acc D w)
  case 0
  then show ?case by simp
next
  case (Suc n)
  show ?case
  proof
    assume run: "page_loop (Suc n) next body tok acc w = (Inl OutOfFuel, w')"
    then obtain page w1 a1 w2 where
      nx: "next tok w = (Inr page, w1)" and bd: "body page acc w1 = (Inr a1, w2)"
      and rest: "(case lp_Next page of None \<Rightarrow> retE a1
        | Some t \<Rightarrow> page_loop n next body (Some t) a1) w2 = (Inl OutOfFuel, w')"
      using next_err body_err by (fastforce simp: act_simps)
    from next_ok [OF Suc.prems(1) nx]
    have pg: "page_ok pending tok I page" and i1: "Inv acc D w1" and p1: "Pg page w1" by auto
    note st = pending_step [OF pg Suc.prems(2)]
    have i2: "Inv a1 (D \<union> got page) w2" by (rule body_ok [OF i1 p1 st(1) bd])
    from rest obtain u where u: "lp_Next page = Some u"
      by (auto simp: act_simps split: option.splits)
    have "card (pending (Some u) I) < n" using st(4) [OF u fin] Suc.prems(3) by simp
    from Suc.IH [OF i2 st(3) [OF u] this] rest u show False by simp
  qed
qed

lemma within_page_loop:
  assumes "reflp R" and "transp R" and "\<And>tok. within R (next tok)"
    and "\<And>page acc. within R (body page acc)"
  shows "within R (page_loop n next body tok acc)"
proof (induction n arbitrary: tok acc)
  case 0
  show ?case by (simp add: within_failE assms(1))
next
  case (Suc n)
  show ?case
    by (auto intro!: within_bindE assms within_retE Suc split: option.split)
qed

section \<open>The storage operations under the contract\<close>

context s3_service
begin

abbreviation mounted_b :: "backend \<Rightarrow> bool" where
  "mounted_b b \<equiv> mounted (bClient b) (bBucket b)"

lemma keys_of_eq: "keys_of (view s) b = {k. view s (bClient b, bBucket b, k) \<noteq> None}"
  by (simp add: keys_of_def loc_of_def)

lemma finite_keys_of [simp]: "finite (keys_of (view s) b)"
  unfolding keys_of_eq by (rule finite_bucket)

lemma finite_items [simp]: "finite (items p d (keys_of (view s) b))"
  by (simp add: items_def)

lemma list_page_Inr:
  assumes "mounted_b b" and "list_page api b p d tok s = (Inr page, t)"
  shows "view t = view s" and "page_ok pending tok (items p d (keys_of (view s) b)) page"
    and "\<forall>ob\<in>set (lp_Contents page).
      \<exists>x. view s (loc_of b (lo_Key ob)) = Some x \<and> lo_Size ob = Some (int (length x))"
proof -
  let ?li = "list_request p d tok"
  have run: "api_ListObjectsV2 api (bClient b) (bBucket b) ?li s = (Inr page, t)"
    using assms(2) by (simp add: list_page_def act_simps)
  show "view t = view s" by (rule list_frame [OF assms(1) run])
  from list_ok [OF assms(1) run]
  show "page_ok pending tok (items p d (keys_of (view s) b)) page"
    and "\<forall>ob\<in>set (lp_Contents page).
      \<exists>x. view s (loc_of b (lo_Key ob)) = Some x \<and> lo_Size ob = Some (int (length x))"
    by (simp_all add: list_request_def keys_of_eq loc_of_def)
qed

lemma list_page_frame: "mounted_b b \<Longrightarrow> list_page api b p d tok s = (r, t) \<Longrightarrow> view t = view s"
  unfolding list_page_def s3call_def by (auto split: prod.splits sum.splits dest: list_frame)

lemma list_page_fuel: "list_page api b p d tok s = (Inl e, t) \<Longrightarrow> e \<noteq> OutOfFuel"
  by (auto simp: list_page_def act_simps)

lemma ObjectExists_Inr:
  "mounted_b b \<Longrightarrow> ObjectExists api b k s = (Inr x, t) \<Longrightarrow>
     view t = view s \<and> (x \<longleftrightarrow> view s (loc_of b k) \<noteq> None)"
  unfolding ObjectExists_def loc_of_def
  by (auto split: prod.splits sum.splits if_splits dest: head_ok head_err)

lemma ObjectExists_Inl:
  "mounted_b b \<Longrightarrow> ObjectExists api b k s = (Inl e, t) \<Longrightarrow> view t = view s \<and> e \<noteq> OutOfFuel"
  unfolding ObjectExists_def
  by (auto split: prod.splits sum.splits if_splits dest: head_ok head_err)

lemma page_ok_first: "page_ok pending None I page \<Longrightarrow> got page \<noteq> {} \<longleftrightarrow> I \<noteq> {}"
  by (auto simp: page_ok_def pending_all split: option.splits)

lemma PrefixHasEntries_Inr:
  assumes "mounted_b b" and "PrefixHasEntries api b p s = (Inr x, t)"
  shows "view t = view s \<and> (x \<longleftrightarrow> keys_of (view s) b \<inter> under p \<noteq> {})"
proof -
  let ?li = "\<lparr>li_Prefix = p, li_Delimiter = ''/'', li_MaxKeys = Some 1, li_Token = None\<rparr>"
  from assms(2) obtain out where
    run: "api_ListObjectsV2 api (bClient b) (bBucket b) ?li s = (Inr out, t)"
    and x: "x = (lp_CommonPrefixes out \<noteq> [] \<or> lp_Contents out \<noteq> [])"
    by (auto simp: PrefixHasEntries_def act_simps)
  have "page_ok pending None (items p ''/'' (keys_of (view s) b)) out"
    using list_ok [OF assms(1) run] by (simp add: keys_of_eq)
  then have "got out \<noteq> {} \<longleftrightarrow> items p ''/'' (keys_of (view s) b) \<noteq> {}"
    by (rule page_ok_first)
  then have "x \<longleftrightarrow> keys_of (view s) b \<inter> under p \<noteq> {}"
    unfolding x by (auto simp: got_def items_def)
  with list_frame [OF assms(1) run] show ?thesis by simp
qed

lemma PrefixHasEntries_Inl:
  "mounted_b b \<Longrightarrow> PrefixHasEntries api b p s = (Inl e, t) \<Longrightarrow> view t = view s \<and> e \<noteq> OutOfFuel"
  by (auto simp: PrefixHasEntries_def act_simps dest: list_frame)

lemma CopyObject_Inr:
  assumes "mounted_b b" and "CopyObject api b src dst s = (Inr u, t)"
  shows "\<exists>d. view s (loc_of b src) = Some d \<and> view t = (view s)(loc_of b dst \<mapsto> d)"
  using assms copy_ok [OF assms(1) assms(1) parse_copy_source_escape [OF bucket_name [OF assms(1)]]]
  by (simp add: CopyObject_def act_simps loc_of_def)

lemma CopyObject_Inl:
  assumes "mounted_b b" and "CopyObject api b src dst s = (Inl e, t)"
  shows "(view t = view s \<or>
      (\<exists>d. view s (loc_of b src) = Some d \<and> view t = (view s)(loc_of b dst \<mapsto> d))) \<and> e \<noteq> OutOfFuel"
proof -
  obtain x where x: "e = S3 x" and run: "api_CopyObject api (bClient b) (bBucket b) dst
      (''/'' @ bBucket b @ ''/'' @ path_escape src) s = (Inl x, t)"
    using assms(2) by (auto simp: CopyObject_def act_simps)
  from copy_err [OF assms(1) assms(1) parse_copy_source_escape [OF bucket_name [OF assms(1)]] run]
  show ?thesis by (simp add: x loc_of_def)
qed

lemma DeleteObject_Inr:
  "mounted_b b \<Longrightarrow> DeleteObject api b k s = (Inr u, t) \<Longrightarrow> view t = (view s)(loc_of b k := None)"
  by (simp add: DeleteObject_def act_simps loc_of_def delete_ok)

lemma DeleteObject_Inl:
  "mounted_b b \<Longrightarrow> DeleteObject api b k s = (Inl e, t) \<Longrightarrow>
     (view t = view s \<or> view t = (view s)(loc_of b k := None)) \<and> e \<noteq> OutOfFuel"
  by (auto simp: DeleteObject_def act_simps loc_of_def dest: delete_err)

subsection \<open>Deleting everything under a prefix\<close>

text \<open>The keys a complete listing without a delimiter collects.\<close>

lemma got_plain:
  "got page \<subseteq> items p [] K \<Longrightarrow> got page = Obj ` lo_Key ` set (lp_Contents page)"
  by (auto simp: got_def items_def item_of_def)

lemma items_plain: "items p [] K = Obj ` (K \<inter> under p)"
  by (simp add: items_def item_of_def image_def)

lemma collect_keys:
  assumes m: "mounted_b b"
    and run: "page_loop n (list_page api b p [])
      (\<lambda>page keys. retE (keys @ map lo_Key (lp_Contents page))) None [] s = (Inr keys, t)"
  shows "view t = view s" and "set keys = keys_of (view s) b \<inter> under p"
proof -
  let ?I = "items p [] (keys_of (view s) b)"
  let ?Inv = "\<lambda>keys D w. view w = view s \<and> D = Obj ` set keys"
  have "?Inv keys ?I t"
  proof (rule page_loop_inv [where Inv = ?Inv and I = ?I and Pg = "\<lambda>_ _. True"
        and pending = pending and D = "{}", OF _ _ run])
    fix tok acc D w page w'
    assume "?Inv acc D w" and "list_page api b p [] tok w = (Inr page, w')"
    then show "page_ok pending tok ?I page \<and> ?Inv acc D w' \<and> True"
      using list_page_Inr [OF m] by metis
  next
    fix page acc D w acc' w'
    assume "?Inv acc D w" and g: "got page \<subseteq> ?I"
      and "retE (acc @ map lo_Key (lp_Contents page)) w = (Inr acc', w')"
    then show "?Inv acc' (D \<union> got page) w'"
      by (simp add: retE_eq got_plain [OF g] image_Un)
  qed (simp_all add: pending_all)
  then show "view t = view s" and "set keys = keys_of (view s) b \<inter> under p"
    unfolding items_plain by (auto simp: inj_image_eq_iff inj_def)
qed

lemma collect_keys_fuel:
  assumes m: "mounted_b b" and n: "card (keys_of (view s) b \<inter> under p) < n"
  shows "page_loop n (list_page api b p [])
      (\<lambda>page keys. retE (keys @ map lo_Key (lp_Contents page))) None [] s \<noteq> (Inl OutOfFuel, t)"
proof -
  let ?I = "items p [] (keys_of (view s) b)"
  let ?Inv = "\<lambda>keys D w. view w = view s"
  have c: "card (pending None ?I) < n"
    using n by (simp add: pending_all items_plain card_image inj_on_def)
  show ?thesis
  proof (rule page_loop_fuel [where Inv = ?Inv and I = ?I and Pg = "\<lambda>_ _. True"
        and pending = pending, OF _ _ _ _ _ _ _ c])
    fix tok acc D w page w'
    assume "?Inv acc D w" and "list_page api b p [] tok w = (Inr page, w')"
    then show "page_ok pending tok ?I page \<and> ?Inv acc D w' \<and> True"
      using list_page_Inr [OF m] by metis
  qed (auto simp: act_simps pending_all dest: list_page_fuel)
qed

lemma batch_split:
  assumes "i < length keys" and "e = (if i + 1000 > length keys then length keys else i + 1000)"
  shows "set (drop i keys) = set (drop i (take e keys)) \<union> set (drop (i + 1000) keys)"
proof -
  have "drop i keys = drop i (take e keys @ drop e keys)" by simp
  also have "\<dots> = drop i (take e keys) @ drop e keys"
    using assms by (simp add: drop_append del: append_take_drop_id)
  finally have "drop i keys = drop i (take e keys) @ drop e keys" .
  moreover have "drop e keys = drop (i + 1000) keys" using assms(2) by simp
  ultimately show ?thesis by (metis set_append)
qed

lemma delete_batches_Inr:
  assumes m: "mounted_b b" and mem: "remembers api N"
  shows "delete_batches api b keys i s = (Inr u, t) \<Longrightarrow>
    N s \<subseteq> N t \<and> cleared (locs b (set (drop i keys))) (N t) (view s) (view t)"
proof (induction "length keys - i" arbitrary: i s rule: less_induct)
  case less
  show ?case
  proof (cases "i < length keys")
    case False
    with less.prems show ?thesis
      by (simp add: delete_batches.simps [of api b keys i] retE_eq locs_def cleared_def)
  next
    case True
    define e where "e = (if i + 1000 > length keys then length keys else i + 1000)"
    let ?batch = "drop i (take e keys)"
    from less.prems True obtain failed s1 where
      del: "api_DeleteObjects api (bClient b) (bBucket b) ?batch s = (Inr failed, s1)"
      and rest: "delete_batches api b keys (i + 1000) s1 = (Inr u, t)"
      unfolding e_def
      by (auto simp: delete_batches.simps [of api b keys i] Let_def act_simps)
    from mem del have n1: "N s \<subseteq> N s1" "locs b (set failed) \<subseteq> N s1"
      unfolding remembers_def locs_def by blast+
    have "cleared (locs b (set ?batch)) (N s1) (view s) (view s1)"
      unfolding deletes_ok [OF m del] using n1(2)
      by (auto simp: cleared_def locs_def restrict_map_def)
    moreover have "N s1 \<subseteq> N t
        \<and> cleared (locs b (set (drop (i + 1000) keys))) (N t) (view s1) (view t)"
      by (rule less.hyps [OF _ rest]) (use True in simp)
    ultimately show ?thesis
      unfolding batch_split [OF True e_def] locs_Un
      using n1(1) by (blast intro: cleared_trans)
  qed
qed

lemma within_delete_batches:
  assumes m: "mounted_b b" and K: "set keys \<subseteq> K"
  shows "within (erased view (locs b K)) (delete_batches api b keys i)"
proof (induction "length keys - i" arbitrary: i rule: less_induct)
  case less
  show ?case
  proof (cases "i < length keys")
    case False
    then show ?thesis by (simp add: delete_batches.simps [of api b keys i] within_retE)
  next
    case True
    have "within (erased view (locs b K))
        (s3call (api_DeleteObjects api (bClient b) (bBucket b) ks))" if ks: "set ks \<subseteq> K" for ks
    proof (rule within_s3call)
      fix s r t assume run: "api_DeleteObjects api (bClient b) (bBucket b) ks s = (r, t)"
      show "erased view (locs b K) s t"
      proof (cases r)
        case (Inl e)
        from deletes_err [OF m run [unfolded Inl]] obtain D where D: "D \<subseteq> set ks"
          and v: "view t = view s |` (- ({bClient b} \<times> {bBucket b} \<times> D))" by auto
        show ?thesis by (rule erased_restrict [OF _ v]) (use D ks in \<open>auto simp: locs_def\<close>)
      next
        case (Inr failed)
        show ?thesis
          by (rule erased_restrict [OF _ deletes_ok [OF m run [unfolded Inr]]])
            (use ks in \<open>auto simp: locs_def\<close>)
      qed
    qed
    moreover have "set (drop i (take e keys)) \<subseteq> K" for e
      using K by (meson set_drop_subset set_take_subset subset_trans)
    moreover have "within (erased view (locs b K)) (delete_batches api b keys (i + 1000))"
      by (rule less.hyps) (use True in simp)
    ultimately show ?thesis using True
      by (simp add: delete_batches.simps [of api b keys i] Let_def within_bindE)
  qed
qed

lemma cleared_present:
  assumes "cleared (locs b (keys_of v b \<inter> S)) N v v'"
  shows "cleared (locs b S) N v v'"
  unfolding cleared_def
proof
  fix l
  have "l \<in> locs b (keys_of v b \<inter> S) \<longleftrightarrow> l \<in> locs b S \<and> v l \<noteq> None"
    by (auto simp: locs_def keys_of_def loc_of_def)
  then show "if l \<in> locs b S then v' l = None \<or> l \<in> N \<and> v' l = v l else v' l = v l"
    using spec [OF assms [unfolded cleared_def], of l] by (auto split: if_splits)
qed

lemma DeletePrefix_Inr:
  assumes m: "mounted_b b" and mem: "remembers api N"
    and run: "DeletePrefix n api b p s = (Inr u, t)"
  shows "cleared (locs b (under p)) (N t) (view s) (view t)"
proof -
  from run obtain keys s1 where
    l: "page_loop n (list_page api b p [])
      (\<lambda>page keys. retE (keys @ map lo_Key (lp_Contents page))) None [] s = (Inr keys, s1)"
    and d: "delete_batches api b keys 0 s1 = (Inr u, t)"
    by (auto simp: DeletePrefix_def act_simps)
  from delete_batches_Inr [OF m mem d] collect_keys [OF m l] show ?thesis
    by (simp add: cleared_present)
qed

lemma DeletePrefix_erases:
  assumes m: "mounted_b b"
  shows "within (erased view (locs b (under p))) (DeletePrefix n api b p)"
  unfolding DeletePrefix_def
proof (rule within_bindE')
  show "within (erased view (locs b (under p))) (page_loop n (list_page api b p [])
      (\<lambda>page keys. retE (keys @ map lo_Key (lp_Contents page))) None [])"
    by (intro within_page_loop within_retE reflp_erased transp_erased)
      (auto intro!: withinI erased_same dest: list_page_frame [OF m])
  fix keys s t
  assume "page_loop n (list_page api b p [])
      (\<lambda>page keys. retE (keys @ map lo_Key (lp_Contents page))) None [] s = (Inr keys, t)"
  then have "set keys \<subseteq> under p" using collect_keys(2) [OF m] by blast
  then show "within (erased view (locs b (under p))) (delete_batches api b keys 0)"
    by (rule within_delete_batches [OF m])
qed simp

lemma within_DeletePrefix:
  "mounted_b b \<Longrightarrow> within (agree_off view (locs b (under p))) (DeletePrefix n api b p)"
  using DeletePrefix_erases unfolding within_def by (blast intro: erased_agree)

lemma delete_batches_fuel: "delete_batches api b keys i s \<noteq> (Inl OutOfFuel, t)"
proof (induction "length keys - i" arbitrary: i s rule: less_induct)
  case less
  show ?case
  proof (cases "i < length keys")
    case True
    then have "delete_batches api b keys (i + 1000) s1 \<noteq> (Inl OutOfFuel, t)" for s1
      using less.hyps by simp
    with True show ?thesis
      by (auto simp: delete_batches.simps [of api b keys i] Let_def act_simps)
  qed (simp add: delete_batches.simps [of api b keys i] retE_eq)
qed

lemma DeletePrefix_fuel:
  assumes m: "mounted_b b" and n: "card (keys_of (view s) b \<inter> under p) < n"
  shows "DeletePrefix n api b p s \<noteq> (Inl OutOfFuel, t)"
  using collect_keys_fuel [OF m n] delete_batches_fuel
  by (auto simp: DeletePrefix_def act_simps)

subsection \<open>Frames of the single calls\<close>

lemma within_ObjectExists:
  assumes m: "mounted_b b"
  shows "within (agree_off view L) (ObjectExists api b k)"
proof (rule withinI)
  fix s r t assume "ObjectExists api b k s = (r, t)"
  then show "agree_off view L s t"
    using ObjectExists_Inr [OF m] ObjectExists_Inl [OF m]
    by (cases r) (auto intro!: agree_off_same)
qed

lemma within_PrefixHasEntries:
  assumes m: "mounted_b b"
  shows "within (agree_off view L) (PrefixHasEntries api b p)"
proof (rule withinI)
  fix s r t assume "PrefixHasEntries api b p s = (r, t)"
  then show "agree_off view L s t"
    using PrefixHasEntries_Inr [OF m] PrefixHasEntries_Inl [OF m]
    by (cases r) (auto intro!: agree_off_same)
qed

lemma within_list_page: "mounted_b b \<Longrightarrow> within (agree_off view L) (list_page api b p d tok)"
  by (auto intro!: withinI agree_off_same dest: list_page_frame)

lemma within_CopyObject:
  assumes m: "mounted_b b" and d: "loc_of b dst \<in> L"
  shows "within (agree_off view L) (CopyObject api b src dst)"
proof (rule withinI)
  fix s r t assume run: "CopyObject api b src dst s = (r, t)"
  show "agree_off view L s t"
  proof (cases r)
    case (Inl e)
    with CopyObject_Inl [OF m] run show ?thesis
      by (blast intro: agree_off_same agree_off_upd [OF d])
  next
    case (Inr u)
    with CopyObject_Inr [OF m] run show ?thesis by (blast intro: agree_off_upd [OF d])
  qed
qed

lemma within_DeleteObject:
  assumes m: "mounted_b b" and d: "loc_of b k \<in> L"
  shows "within (agree_off view L) (DeleteObject api b k)"
proof (rule withinI)
  fix s r t assume run: "DeleteObject api b k s = (r, t)"
  show "agree_off view L s t"
  proof (cases r)
    case (Inl e)
    with DeleteObject_Inl [OF m] run show ?thesis
      by (blast intro: agree_off_same agree_off_upd [OF d])
  next
    case (Inr u)
    with DeleteObject_Inr [OF m] run show ?thesis by (blast intro: agree_off_upd [OF d])
  qed
qed

end

end
