(* ===== verification/FakeS3.thy ===== *)
theory FakeS3
  imports S3Service
begin

text \<open>
  The in-memory S3 of \<open>internal/storagetest/fake.go\<close>: its request handler \<open>Do\<close> with the
  response functions, and the proof that a client wired to it meets the contract
  \<open>s3_service\<close>. A request is its parts as \<open>Do\<close> reads them; the XML of a response is kept as
  the data it carries.
\<close>

section \<open>Requests and responses\<close>

datatype http_method = GET | HEAD | DELETE | POST | PUT | Method string

record http_request =
  rqMethod :: http_method
  rqPath :: string
  rqListType :: string
  rqPrefix :: string
  rqDelimiter :: string
  rqHasDelete :: bool
  rqDelete :: "string list option"
  rqCopySource :: string
  rqBody :: "string option"

datatype payload =
    Empty
  | Raw string
  | ErrorNoSuchKey
  | ListBucketResult "(string \<times> int) list" "string list"
  | DeleteResult "string list"
  | CopyObjectResult

record http_response =
  rsStatus :: nat
  rsContentLength :: "int option"
  rsPayload :: payload

definition emptyHTTPResponse :: "nat \<Rightarrow> http_response" where
  "emptyHTTPResponse status = \<lparr>rsStatus = status, rsContentLength = None, rsPayload = Empty\<rparr>"

definition xmlHTTPResponse :: "nat \<Rightarrow> payload \<Rightarrow> http_response" where
  "xmlHTTPResponse status body =
     \<lparr>rsStatus = status, rsContentLength = None, rsPayload = body\<rparr>"

section \<open>The fake\<close>

record fake_s3 =
  fkObjects :: "(string, string) gomap"
  fkFail :: bool

definition NewFakeS3 :: "(string, string) gomap \<Rightarrow> fake_s3" where
  "NewFakeS3 objects = \<lparr>fkObjects = objects, fkFail = False\<rparr>"

definition NewFakeS3FromSizes :: "(string, nat) gomap \<Rightarrow> fake_s3" where
  "NewFakeS3FromSizes sizes =
     NewFakeS3 (map (\<lambda>(k, size). (k, replicate size (CHR 0x00))) (gm_range sizes))"

definition parseS3Path :: "string \<Rightarrow> string \<times> string" where
  "parseS3Path path =
     (case splitn2 CHR ''/'' (trim_prefix path ''/'') of
        [] \<Rightarrow> ([], [])
      | [bucket] \<Rightarrow> (bucket, [])
      | bucket # key # _ \<Rightarrow> (bucket, key))"

text \<open>
  The body of the listing loop over the objects. A common prefix is listed the first time it is seen,
  so \<open>seen\<close> holds exactly the prefixes listed so far.
\<close>

definition list_step :: "string \<Rightarrow> string \<Rightarrow> (string \<times> int) list \<times> string list \<Rightarrow> string \<times> string
    \<Rightarrow> (string \<times> int) list \<times> string list" where
  "list_step p d acc ob =
     (case acc of (contents, pfxs) \<Rightarrow> case ob of (k, data) \<Rightarrow>
        if p \<noteq> [] \<and> \<not> has_prefix k p then (contents, pfxs)
        else let suf = trim_prefix k p
             in if d = [] then (contents @ [(k, int (length data))], pfxs)
                else (case index_of d suf of
                        Some idx \<Rightarrow>
                          let dir = p @ take (idx + length d) suf
                          in (contents, if dir \<in> set pfxs then pfxs else pfxs @ [dir])
                      | None \<Rightarrow> (contents @ [(k, int (length data))], pfxs)))"

definition list_loop :: "string \<Rightarrow> string \<Rightarrow> (string \<times> string) list
    \<Rightarrow> (string \<times> int) list \<times> string list" where
  "list_loop p d objs = foldl (list_step p d) ([], []) objs"

definition listResponse :: "fake_s3 \<Rightarrow> string \<Rightarrow> string \<Rightarrow> http_response" where
  "listResponse f p d =
     (case list_loop p d (gm_range (fkObjects f)) of
        (contents, pfxs) \<Rightarrow> xmlHTTPResponse 200 (ListBucketResult contents pfxs))"

definition headObject :: "fake_s3 \<Rightarrow> string \<Rightarrow> http_response" where
  "headObject f key =
     (case map_of (fkObjects f) key of
        None \<Rightarrow> emptyHTTPResponse 404
      | Some data \<Rightarrow>
          \<lparr>rsStatus = 200, rsContentLength = Some (int (length data)), rsPayload = Empty\<rparr>)"

definition getObject :: "fake_s3 \<Rightarrow> string \<Rightarrow> http_response" where
  "getObject f key =
     (case map_of (fkObjects f) key of
        None \<Rightarrow> xmlHTTPResponse 404 ErrorNoSuchKey
      | Some data \<Rightarrow>
          \<lparr>rsStatus = 200, rsContentLength = Some (int (length data)), rsPayload = Raw data\<rparr>)"

definition deleteObjects :: "fake_s3 \<Rightarrow> string list option \<Rightarrow> http_response \<times> fake_s3" where
  "deleteObjects f body =
     (case body of
        None \<Rightarrow> (emptyHTTPResponse 400, f)
      | Some keys \<Rightarrow>
          (xmlHTTPResponse 200 (DeleteResult keys),
           f\<lparr>fkObjects := foldl (\<lambda>m k. gm_del k m) (fkObjects f) keys\<rparr>))"

definition fake_copyObject :: "fake_s3 \<Rightarrow> string \<Rightarrow> string \<Rightarrow> http_response \<times> fake_s3" where
  "fake_copyObject f src dst =
     (case splitn2 CHR ''/'' (trim_prefix src ''/'') of
        [_, k] \<Rightarrow>
          (case path_unescape k of
             None \<Rightarrow> (emptyHTTPResponse 400, f)
           | Some srcKey \<Rightarrow>
               (case map_of (fkObjects f) srcKey of
                  None \<Rightarrow> (emptyHTTPResponse 404, f)
                | Some data \<Rightarrow>
                    (xmlHTTPResponse 200 CopyObjectResult,
                     f\<lparr>fkObjects := gm_put dst data (fkObjects f)\<rparr>)))
      | _ \<Rightarrow> (emptyHTTPResponse 400, f))"

definition fake_Do :: "fake_s3 \<Rightarrow> http_request \<Rightarrow> http_response \<times> fake_s3" where
  "fake_Do f req =
     (if fkFail f then (emptyHTTPResponse 500, f)
      else case parseS3Path (rqPath req) of (bucket, key) \<Rightarrow>
        (case rqMethod req of
           GET \<Rightarrow>
             if rqListType req = ''2''
             then (listResponse f (rqPrefix req) (rqDelimiter req), f)
             else (getObject f key, f)
         | HEAD \<Rightarrow> (headObject f key, f)
         | DELETE \<Rightarrow> (emptyHTTPResponse 204, f\<lparr>fkObjects := gm_del key (fkObjects f)\<rparr>)
         | POST \<Rightarrow>
             if rqHasDelete req then deleteObjects f (rqDelete req) else (emptyHTTPResponse 400, f)
         | PUT \<Rightarrow>
             if rqCopySource req \<noteq> [] then fake_copyObject f (rqCopySource req) key
             else (emptyHTTPResponse 200,
                   f\<lparr>fkObjects := gm_put key (case rqBody req of None \<Rightarrow> [] | Some d \<Rightarrow> d)
                       (fkObjects f)\<rparr>)
         | Method _ \<Rightarrow> (emptyHTTPResponse 400, f)))"

section \<open>A client wired to the fake\<close>

text \<open>
  \<open>NewS3Client\<close> gives a client whose HTTP requests go to a fake of its own, with path-style
  addresses: the world is one fake for each client. \<open>fake_api\<close> is that client, as far as the
  tests rely on the SDK: the request of each call, and how a status becomes an error.
\<close>

type_synonym fake_world = "client \<Rightarrow> fake_s3"

definition request :: "http_method \<Rightarrow> string \<Rightarrow> string \<Rightarrow> http_request" where
  "request m b k =
     \<lparr>rqMethod = m, rqPath = ''/'' @ b @ ''/'' @ k, rqListType = [], rqPrefix = [],
      rqDelimiter = [], rqHasDelete = False, rqDelete = None, rqCopySource = [],
      rqBody = None\<rparr>"

definition send :: "client \<Rightarrow> http_request \<Rightarrow> fake_world \<Rightarrow> http_response \<times> fake_world" where
  "send c req w = (case fake_Do (w c) req of (r, f) \<Rightarrow> (r, w(c := f)))"

definition status_error :: "http_response \<Rightarrow> s3_error" where
  "status_error r =
     (if rsPayload r = ErrorNoSuchKey then NoSuchKey
      else if rsStatus r = 404 then NotFound else OtherS3 ''http status'')"

definition fake_unit :: "nat \<Rightarrow> http_response \<times> fake_world \<Rightarrow> (s3_error + unit) \<times> fake_world" where
  "fake_unit ok x = (if rsStatus (fst x) = ok then Inr () else Inl (status_error (fst x)), snd x)"

definition fake_time :: int where
  "fake_time = 1704067200 * nsecs"

definition fake_head :: "client \<Rightarrow> string \<Rightarrow> string \<Rightarrow> fake_world \<Rightarrow> (s3_error + head_out) \<times> fake_world" where
  "fake_head c b k w =
     (case send c (request HEAD b k) w of (r, w') \<Rightarrow>
        (if rsStatus r = 200
         then Inr \<lparr>ho_ContentLength = rsContentLength r, ho_LastModified = Some fake_time\<rparr>
         else Inl (status_error r), w'))"

definition fake_get :: "client \<Rightarrow> string \<Rightarrow> string \<Rightarrow> (int \<times> int) option \<Rightarrow> fake_world
    \<Rightarrow> (s3_error + get_out) \<times> fake_world" where
  "fake_get c b k r w =
     (case send c (request GET b k) w of (r, w') \<Rightarrow>
        (case rsPayload r of
           Raw d \<Rightarrow> (Inr \<lparr>go_ContentLength = rsContentLength r, go_Body = (\<lambda>_. (d, None))\<rparr>, w')
         | _ \<Rightarrow> (Inl (status_error r), w')))"

definition fake_put :: "client \<Rightarrow> string \<Rightarrow> string \<Rightarrow> string \<Rightarrow> fake_world \<Rightarrow> (s3_error + unit) \<times> fake_world" where
  "fake_put c b k d w = fake_unit 200 (send c ((request PUT b k)\<lparr>rqBody := Some d\<rparr>) w)"

definition fake_copy :: "client \<Rightarrow> string \<Rightarrow> string \<Rightarrow> string \<Rightarrow> fake_world \<Rightarrow> (s3_error + unit) \<times> fake_world" where
  "fake_copy c b k src w =
     fake_unit 200 (send c ((request PUT b k)\<lparr>rqCopySource := src\<rparr>) w)"

definition fake_delete :: "client \<Rightarrow> string \<Rightarrow> string \<Rightarrow> fake_world \<Rightarrow> (s3_error + unit) \<times> fake_world" where
  "fake_delete c b k w = fake_unit 204 (send c (request DELETE b k) w)"

definition fake_deletes :: "client \<Rightarrow> string \<Rightarrow> string list \<Rightarrow> fake_world
    \<Rightarrow> (s3_error + string list) \<times> fake_world" where
  "fake_deletes c b ks w =
     (case send c ((request POST b [])\<lparr>rqHasDelete := True, rqDelete := Some ks\<rparr>) w of (r, w') \<Rightarrow>
        (if rsStatus r = 200 then Inr [] else Inl (status_error r), w'))"

definition fake_list :: "client \<Rightarrow> string \<Rightarrow> list_in \<Rightarrow> fake_world \<Rightarrow> (s3_error + list_out) \<times> fake_world" where
  "fake_list c b li w =
     (case send c ((request GET b [])\<lparr>rqListType := ''2'', rqPrefix := li_Prefix li,
                     rqDelimiter := li_Delimiter li\<rparr>) w of (r, w') \<Rightarrow>
        (case rsPayload r of
           ListBucketResult contents pfxs \<Rightarrow>
             (Inr \<lparr>lp_Contents = map (\<lambda>(k, n). \<lparr>lo_Key = k, lo_Size = Some n,
                                        lo_LastModified = Some fake_time\<rparr>) contents,
                   lp_CommonPrefixes = pfxs, lp_Next = None\<rparr>, w')
         | _ \<Rightarrow> (Inl (status_error r), w')))"

definition fake_upload :: "client \<Rightarrow> string \<Rightarrow> string \<Rightarrow> string \<times> go_error option \<Rightarrow> fake_world
    \<Rightarrow> ((go_error + unit) \<times> bool) \<times> fake_world" where
  "fake_upload c b k body w =
     (case snd body of
        Some e \<Rightarrow> ((Inl e, True), w)
      | None \<Rightarrow> (case s3call (fake_put c b k (fst body)) w of (r, w') \<Rightarrow> ((r, True), w')))"

definition fake_api :: "fake_world s3_api" where
  "fake_api =
     \<lparr>api_HeadObject = fake_head, api_GetObject = fake_get, api_PutObject = fake_put,
      api_CopyObject = fake_copy, api_DeleteObject = fake_delete,
      api_DeleteObjects = fake_deletes, api_ListObjectsV2 = fake_list,
      api_Upload = fake_upload\<rparr>"

text \<open>The objects of the fakes; each serves one bucket, named \<open>bucket\<close>.\<close>

definition fake_view :: "fake_world \<Rightarrow> loc \<Rightarrow> string option" where
  "fake_view w l =
     (case l of (c, b, k) \<Rightarrow> if b = ''bucket'' then map_of (fkObjects (w c)) k else None)"

definition fake_mounted :: "client \<Rightarrow> string \<Rightarrow> bool" where
  "fake_mounted c b \<longleftrightarrow> b = ''bucket''"

definition fake_pending :: "string option \<Rightarrow> list_item set \<Rightarrow> list_item set" where
  "fake_pending tok I = I"

section \<open>The fake meets the contract\<close>

definition listed :: "(string \<times> int) list \<times> string list \<Rightarrow> list_item set" where
  "listed acc = Obj ` fst ` set (fst acc) \<union> Common ` set (snd acc)"

lemma listed_step:
  "listed (list_step p d acc (k, data)) =
     listed acc \<union> (if prefix p k then {item_of p d k} else {})"
proof (cases "prefix p k")
  case False
  then have "p \<noteq> []" by auto
  with False show ?thesis by (simp add: list_step_def has_prefix_iff split: prod.split)
next
  case True
  then obtain suf where k: "k = p @ suf" by (auto simp: prefix_def)
  show ?thesis
    by (cases acc) (auto simp: k listed_def list_step_def Let_def item_of_def split: option.split)
qed

lemma listed_foldl:
  "listed (foldl (list_step p d) acc objs) = listed acc \<union> item_of p d ` (fst ` set objs \<inter> under p)"
proof (induction objs arbitrary: acc)
  case (Cons ob objs)
  obtain k data where ob: "ob = (k, data)" by (cases ob)
  show ?case by (auto simp: Cons.IH ob listed_step)
qed simp

lemma listed_loop: "listed (list_loop p d objs) = items p d (fst ` set objs)"
  by (simp add: list_loop_def listed_foldl items_def) (simp add: listed_def)

lemma list_step_sizes:
  "set (fst (list_step p d acc (k, data))) \<subseteq> insert (k, int (length data)) (set (fst acc))"
  by (auto simp: list_step_def Let_def split: prod.splits if_splits option.splits)

lemma list_loop_sizes:
  "set (fst (list_loop p d objs)) \<subseteq> (\<lambda>(k, v). (k, int (length v))) ` set objs"
proof -
  have "set (fst (foldl (list_step p d) acc objs)) \<subseteq>
      set (fst acc) \<union> (\<lambda>(k, v). (k, int (length v))) ` set objs" for acc
  proof (induction objs arbitrary: acc)
    case (Cons ob objs)
    obtain k data where ob: "ob = (k, data)" by (cases ob)
    show ?case using Cons.IH [of "list_step p d acc ob"] list_step_sizes [of p d acc k data]
      by (auto simp: ob)
  qed simp
  from this [of "([], [])"] show ?thesis by (simp add: list_loop_def)
qed

lemma parseS3Path_request [simp]:
  "parseS3Path (rqPath (request m ''bucket'' k)) = (''bucket'', k)"
proof -
  have "trim_prefix (''/'' @ (''bucket'' @ ''/'' @ k)) ''/'' = ''bucket'' @ CHR ''/'' # k"
    by (subst trim_prefix_append) simp
  moreover have "splitn2 CHR ''/'' (''bucket'' @ CHR ''/'' # k) = [''bucket'', k]"
    by (rule splitn2_sep) simp
  ultimately show ?thesis by (simp add: parseS3Path_def request_def)
qed

lemma request_sel [simp]:
  "rqMethod (request m b k) = m" "rqListType (request m b k) = []"
  "rqHasDelete (request m b k) = False" "rqCopySource (request m b k) = []"
  "rqBody (request m b k) = None"
  by (simp_all add: request_def)

lemma parseS3Path_upd [simp]:
  "rqPath ((request m b k)\<lparr>rqListType := x1\<rparr>) = rqPath (request m b k)"
  "rqPath (q\<lparr>rqPrefix := x2\<rparr>) = rqPath q" "rqPath (q\<lparr>rqDelimiter := x3\<rparr>) = rqPath q"
  by simp_all

text \<open>What each call does, in terms of the objects of the fake of its client.\<close>

lemma fake_head_eq:
  "fake_head c ''bucket'' k w =
     (if fkFail (w c) then Inl (OtherS3 ''http status'')
      else case map_of (fkObjects (w c)) k of
             None \<Rightarrow> Inl NotFound
           | Some d \<Rightarrow> Inr \<lparr>ho_ContentLength = Some (int (length d)),
                            ho_LastModified = Some fake_time\<rparr>, w)"
  by (auto simp: fake_head_def send_def fake_Do_def headObject_def emptyHTTPResponse_def
      status_error_def split: option.splits)

lemma fake_get_eq:
  "fake_get c ''bucket'' k r w =
     (if fkFail (w c) then Inl (OtherS3 ''http status'')
      else case map_of (fkObjects (w c)) k of
             None \<Rightarrow> Inl NoSuchKey
           | Some d \<Rightarrow> Inr \<lparr>go_ContentLength = Some (int (length d)), go_Body = (\<lambda>_. (d, None))\<rparr>, w)"
  by (auto simp: fake_get_def send_def fake_Do_def getObject_def emptyHTTPResponse_def
      xmlHTTPResponse_def status_error_def split: option.splits)

lemma fake_put_eq:
  "fake_put c ''bucket'' k d w =
     (if fkFail (w c) then (Inl (OtherS3 ''http status''), w)
      else (Inr (), w(c := (w c)\<lparr>fkObjects := gm_put k d (fkObjects (w c))\<rparr>)))"
  by (simp add: fake_put_def fake_unit_def send_def fake_Do_def emptyHTTPResponse_def
      status_error_def)

lemma fake_delete_eq:
  "fake_delete c ''bucket'' k w =
     (if fkFail (w c) then (Inl (OtherS3 ''http status''), w)
      else (Inr (), w(c := (w c)\<lparr>fkObjects := gm_del k (fkObjects (w c))\<rparr>)))"
  by (simp add: fake_delete_def fake_unit_def send_def fake_Do_def emptyHTTPResponse_def
      status_error_def)

lemma fake_copy_source:
  "parse_copy_source src = Some (sb, sk) \<Longrightarrow>
     (\<exists>k. splitn2 CHR ''/'' (trim_prefix src ''/'') = [sb, k] \<and> path_unescape k = Some sk) \<and> src \<noteq> []"
proof -
  assume p: "parse_copy_source src = Some (sb, sk)"
  have "src \<noteq> []"
  proof
    assume "src = []"
    then have "splitn2 CHR ''/'' (trim_prefix src ''/'') = [[]]"
      by (simp add: trim_prefix_def has_prefix_def splitn2_plain)
    with p show False by (simp add: parse_copy_source_def)
  qed
  with p show ?thesis
    by (auto simp: parse_copy_source_def split: list.splits)
qed

lemma fake_copy_eq:
  assumes src: "parse_copy_source src = Some (sb, sk)"
  shows "fake_copy c ''bucket'' k src w =
     (if fkFail (w c) then (Inl (OtherS3 ''http status''), w)
      else case map_of (fkObjects (w c)) sk of
             None \<Rightarrow> (Inl NotFound, w)
           | Some d \<Rightarrow> (Inr (), w(c := (w c)\<lparr>fkObjects := gm_put k d (fkObjects (w c))\<rparr>)))"
proof -
  from fake_copy_source [OF src] obtain e where
    e: "splitn2 CHR ''/'' (trim_prefix src ''/'') = [sb, e]" "path_unescape e = Some sk" "src \<noteq> []"
    by blast
  then show ?thesis
    by (simp add: fake_copy_def fake_unit_def send_def fake_Do_def fake_copyObject_def
        emptyHTTPResponse_def xmlHTTPResponse_def status_error_def split: option.split)
qed

lemma map_of_foldl_gm_del:
  "map_of (foldl (\<lambda>m k. gm_del k m) m ks) = map_of m |` (- set ks)"
  by (induction ks arbitrary: m) (auto simp: restrict_map_def fun_eq_iff)

lemma fake_deletes_eq:
  "fake_deletes c ''bucket'' ks w =
     (if fkFail (w c) then (Inl (OtherS3 ''http status''), w)
      else (Inr [], w(c := (w c)\<lparr>fkObjects := foldl (\<lambda>m k. gm_del k m) (fkObjects (w c)) ks\<rparr>)))"
  by (simp add: fake_deletes_def send_def fake_Do_def deleteObjects_def emptyHTTPResponse_def
      xmlHTTPResponse_def status_error_def)

definition fake_page :: "(string \<times> int) list \<times> string list \<Rightarrow> list_out" where
  "fake_page acc =
     \<lparr>lp_Contents = map (\<lambda>(k, n). \<lparr>lo_Key = k, lo_Size = Some n,
                            lo_LastModified = Some fake_time\<rparr>) (fst acc),
      lp_CommonPrefixes = snd acc, lp_Next = None\<rparr>"

lemma fake_list_eq:
  "fake_list c ''bucket'' li w =
     (if fkFail (w c) then Inl (OtherS3 ''http status'')
      else Inr (fake_page (list_loop (li_Prefix li) (li_Delimiter li) (gm_range (fkObjects (w c))))), w)"
  by (auto simp: fake_list_def fake_page_def send_def fake_Do_def listResponse_def
      emptyHTTPResponse_def xmlHTTPResponse_def status_error_def split: prod.splits)

lemma fake_upload_eq:
  "fake_upload c ''bucket'' k (d, e) w =
     (case e of
        Some x \<Rightarrow> ((Inl x, True), w)
      | None \<Rightarrow>
          if fkFail (w c) then ((Inl (S3 (OtherS3 ''http status'')), True), w)
          else ((Inr (), True), w(c := (w c)\<lparr>fkObjects := gm_put k d (fkObjects (w c))\<rparr>)))"
  by (simp add: fake_upload_def s3call_def fake_put_eq split: option.split)

lemmas fake_calls =
  fake_head_eq fake_get_eq fake_put_eq fake_delete_eq fake_copy_eq fake_deletes_eq
  fake_list_eq fake_upload_eq

lemma fake_api_sel [simp]:
  "api_HeadObject fake_api = fake_head" "api_GetObject fake_api = fake_get"
  "api_PutObject fake_api = fake_put" "api_CopyObject fake_api = fake_copy"
  "api_DeleteObject fake_api = fake_delete" "api_DeleteObjects fake_api = fake_deletes"
  "api_ListObjectsV2 fake_api = fake_list" "api_Upload fake_api = fake_upload"
  by (simp_all add: fake_api_def)

lemma fake_view_upd:
  "fake_view (w(c := (w c)\<lparr>fkObjects := m\<rparr>)) =
     (\<lambda>l. if fst l = c \<and> fst (snd l) = ''bucket'' then map_of m (snd (snd l)) else fake_view w l)"
  by (auto simp: fake_view_def fun_eq_iff split: prod.split)

lemma fake_view_bucket [simp]: "fake_view w (c, ''bucket'', k) = map_of (fkObjects (w c)) k"
  by (simp add: fake_view_def)

lemma got_fake_page: "got (fake_page acc) = listed acc"
  by (auto simp: got_def fake_page_def listed_def image_image case_prod_beta)

lemma fake_list_law:
  assumes "fake_list c ''bucket'' li w = (Inr page, w')"
  shows "page_ok fake_pending (li_Token li)
      (items (li_Prefix li) (li_Delimiter li) {k. fake_view w (c, ''bucket'', k) \<noteq> None}) page"
    and "\<forall>ob\<in>set (lp_Contents page). \<exists>d.
      fake_view w (c, ''bucket'', lo_Key ob) = Some d \<and> lo_Size ob = Some (int (length d))"
proof -
  let ?loop = "list_loop (li_Prefix li) (li_Delimiter li) (gm_range (fkObjects (w c)))"
  from assms have page: "page = fake_page ?loop"
    by (auto simp: fake_list_eq split: if_splits)
  have "got page = items (li_Prefix li) (li_Delimiter li) (fst ` set (gm_range (fkObjects (w c))))"
    by (simp add: page got_fake_page listed_loop)
  also have "fst ` set (gm_range (fkObjects (w c))) = {k. fake_view w (c, ''bucket'', k) \<noteq> None}"
    by (force simp: set_gm_range)
  finally show "page_ok fake_pending (li_Token li)
      (items (li_Prefix li) (li_Delimiter li) {k. fake_view w (c, ''bucket'', k) \<noteq> None}) page"
    by (simp add: page page_ok_def fake_pending_def fake_page_def)
  show "\<forall>ob\<in>set (lp_Contents page). \<exists>d.
      fake_view w (c, ''bucket'', lo_Key ob) = Some d \<and> lo_Size ob = Some (int (length d))"
    using list_loop_sizes [of "li_Prefix li" "li_Delimiter li" "gm_range (fkObjects (w c))"]
    by (fastforce simp: page fake_page_def set_gm_range)
qed

text \<open>The view after the two kinds of changes.\<close>

lemma fake_view_put:
  "fake_view (w(c := (w c)\<lparr>fkObjects := gm_put k d (fkObjects (w c))\<rparr>)) =
     (fake_view w)((c, ''bucket'', k) \<mapsto> d)"
  by (auto simp: fake_view_upd fun_eq_iff)

lemma fake_view_del:
  "fake_view (w(c := (w c)\<lparr>fkObjects := gm_del k (fkObjects (w c))\<rparr>)) =
     (fake_view w)((c, ''bucket'', k) := None)"
  by (auto simp: fake_view_upd fun_eq_iff)

lemma fake_view_dels:
  "fake_view (w(c := (w c)\<lparr>fkObjects := foldl (\<lambda>m k. gm_del k m) (fkObjects (w c)) ks\<rparr>)) =
     fake_view w |` (- ({c} \<times> {''bucket''} \<times> set ks))"
  by (auto simp: fake_view_upd fun_eq_iff map_of_foldl_gm_del restrict_map_def)

lemmas fake_views = fake_view_put fake_view_del fake_view_dels

lemma fake_copy_law:
  assumes "parse_copy_source src = Some (sb, sk)" and "fake_copy c ''bucket'' k src w = (r, w')"
  shows "(case r of
      Inl e \<Rightarrow> fake_view w' = fake_view w
    | Inr u \<Rightarrow> \<exists>d. fake_view w (c, ''bucket'', sk) = Some d
                 \<and> fake_view w' = (fake_view w)((c, ''bucket'', k) \<mapsto> d))"
  using assms(2) fake_copy_eq [OF assms(1), of c k w]
  by (auto simp: fake_views split: if_splits option.splits)

lemma finite_fake_view: "finite {k. fake_view s (c, b, k) \<noteq> None}"
proof (rule finite_subset)
  show "{k. fake_view s (c, b, k) \<noteq> None} \<subseteq> dom (map_of (fkObjects (s c)))"
    by (auto simp: fake_view_def split: if_splits)
qed (rule finite_dom_map_of)

interpretation fake: s3_service fake_api fake_view fake_mounted fake_pending
proof (unfold_locales, unfold fake_mounted_def fake_api_sel, goal_cases)
  case 2 show ?case by (rule finite_fake_view)
next
  case 10 then show ?case using fake_copy_law by fastforce
next
  case 11 then show ?case using fake_copy_law by fastforce
next
  case 16 then show ?case by (auto simp: fake_list_eq split: if_splits)
next
  case 17 then show ?case using fake_list_law by blast
next
  case 4 then show ?case by (auto simp: fake_head_eq split: if_splits option.splits)
next
  case 5 then show ?case by (auto simp: fake_head_eq split: if_splits option.splits)
next
  case 6 then show ?case by (auto simp: fake_get_eq)
next
  case 7 then show ?case by (auto simp: fake_get_eq reads_def split: if_splits option.splits)
next
  case 8 then show ?case by (auto simp: fake_put_eq fake_views split: if_splits)
next
  case 9 then show ?case by (auto simp: fake_put_eq split: if_splits)
next
  case 12 then show ?case by (auto simp: fake_delete_eq fake_views split: if_splits)
next
  case 13 then show ?case by (auto simp: fake_delete_eq split: if_splits)
next
  case 14 then show ?case by (auto simp: fake_deletes_eq fake_views split: if_splits)
next
  case 15 then show ?case by (intro exI [of _ "{}"]) (auto simp: fake_deletes_eq split: if_splits)
next
  case 18 then show ?case by (auto simp: fake_upload_eq fake_views split: if_splits option.splits)
next
  case 19 then show ?case by (auto simp: fake_upload_eq split: if_splits option.splits)
next
  case 20 then show ?case
    by (auto simp: fake_get_def split: prod.splits payload.splits)
next
  case 21 then show ?case
    by (auto simp: fake_upload_def s3call_def split: option.splits prod.splits sum.splits)
qed (simp_all add: fake_pending_def)

lemma fake_deletes_all: "deletes_all fake_api"
  by (auto simp: deletes_all_def fake_deletes_def split: prod.splits if_splits)

lemma fake_body_outlives_cancel: "body_outlives_cancel fake_api"
  by (auto simp: body_outlives_cancel_def fake_get_def split: prod.splits payload.splits)

end
