(* ===== verification/NetS3.thy ===== *)
theory NetS3
  imports FakeS3
begin

text \<open>
  A second instance of the contract: the fake behind a client that behaves as \<open>net/http\<close>
  does. It answers a ranged read with the bytes of the range, and the body of a response can
  no longer be read once the context of its request is cancelled.
\<close>

definition net_range :: "(int \<times> int) option \<Rightarrow> string \<Rightarrow> string" where
  "net_range r d =
     (case r of None \<Rightarrow> d | Some (lo, hi) \<Rightarrow> take (nat (hi - lo + 1)) (drop (nat lo) d))"

definition net_body :: "string \<Rightarrow> bool \<Rightarrow> string \<times> go_error option" where
  "net_body d cancelled =
     (if cancelled then ([], Some (Errorf ''context canceled'' [])) else (d, None))"

definition net_get :: "client \<Rightarrow> string \<Rightarrow> string \<Rightarrow> (int \<times> int) option \<Rightarrow> fake_world
    \<Rightarrow> (s3_error + get_out) \<times> fake_world" where
  "net_get c b k r w =
     (case fake_get c b k None w of
        (Inl e, w') \<Rightarrow> (Inl e, w')
      | (Inr out, w') \<Rightarrow>
          (let d = net_range r (fst (go_Body out False))
           in (Inr \<lparr>go_ContentLength = Some (int (length d)), go_Body = net_body d\<rparr>, w')))"

definition net_api :: "fake_world s3_api" where
  "net_api = fake_api\<lparr>api_GetObject := net_get\<rparr>"

lemma net_api_sel [simp]:
  "api_HeadObject net_api = fake_head" "api_GetObject net_api = net_get"
  "api_PutObject net_api = fake_put" "api_CopyObject net_api = fake_copy"
  "api_DeleteObject net_api = fake_delete" "api_DeleteObjects net_api = fake_deletes"
  "api_ListObjectsV2 net_api = fake_list" "api_Upload net_api = fake_upload"
  by (simp_all add: net_api_def)

lemmas fake_laws = fake.bucket_name fake.finite_bucket fake.pending_all fake.head_ok fake.head_err
  fake.put_ok fake.put_err fake.copy_ok fake.copy_err fake.delete_ok fake.delete_err
  fake.deletes_ok fake.deletes_err fake.list_frame fake.list_ok fake.upload_ok fake.upload_err
  fake.upload_marks

lemma net_get_Inr:
  "net_get c ''bucket'' k r w = (Inr out, w') \<Longrightarrow>
     \<exists>d. fake_view w (c, ''bucket'', k) = Some d \<and> w' = w
       \<and> out = \<lparr>go_ContentLength = Some (int (length (net_range r d))), go_Body = net_body (net_range r d)\<rparr>"
  by (auto simp: net_get_def fake_get_eq Let_def fake_views split: if_splits option.splits)

interpretation net: s3_service net_api fake_view fake_mounted fake_pending
proof (unfold_locales, unfold net_api_sel, goal_cases)
  case (6 c b k r s xg t)
  then show ?case
    by (auto simp: net_get_def Let_def fake_mounted_def fake_get_eq split: prod.splits sum.splits if_splits option.splits)
next
  case (7 c b k s go t)
  then have b: "b = ''bucket''" by (simp add: fake_mounted_def)
  with 7 net_get_Inr [of c k None s go t] show ?case
    by (auto simp: net_range_def net_body_def reads_def)
next
  case (20 c b k r s go t x)
  then show ?case
    by (auto simp: net_get_def net_body_def Let_def split: prod.splits sum.splits if_splits)
qed (rule fake_laws [unfolded fake_api_sel]; assumption)+

text \<open>It honours ranges, and no body outlives its context.\<close>

lemma net_honours_range: "honours_range net_api fake_view"
  unfolding honours_range_def
proof (intro allI impI)
  fix c b k lo hi s go t d
  assume get: "api_GetObject net_api c b k (Some (lo, hi)) s = (Inr go, t)"
    and d: "fake_view s (c, b, k) = Some d"
  from d have "b = ''bucket''" by (simp add: fake_view_def split: if_splits)
  with get d net_get_Inr [of c k "Some (lo, hi)" s go t]
  show "reads (take (nat (hi - lo + 1)) (drop (nat lo) d)) (go_Body go False)"
    by (auto simp: net_range_def net_body_def reads_def)
qed

lemma net_body_dies: "api_GetObject net_api c b k r w = (Inr out, w') \<Longrightarrow> snd (go_Body out True) \<noteq> None"
  by (auto simp: net_get_def net_body_def Let_def split: prod.splits sum.splits if_splits)

lemma net_deletes_all: "deletes_all net_api"
  using fake_deletes_all by (simp add: deletes_all_def)

end
