(* ===== verification/GoPath.thy ===== *)
theory GoPath
  imports GoStrings
begin

text \<open>
  Go's \<open>path\<close> package as far as the program uses it (\<open>Clean\<close>, \<open>Base\<close>, and \<open>filepath.Join\<close>
  on a slash-separated system), and what a cleaned path looks like.
\<close>

section \<open>path.Clean\<close>

text \<open>
  \<open>Clean\<close> processes the path element by element. The elements kept so far are a stack, last
  one first: an empty element and \<open>.\<close> are dropped, \<open>..\<close> removes the element before it, is
  dropped at the root, and is kept at the start of a path that is not rooted.
\<close>

definition clean_step :: "bool \<Rightarrow> string list \<Rightarrow> string \<Rightarrow> string list" where
  "clean_step rooted st part =
     (if part = [] \<or> part = ''.'' then st
      else if part = ''..'' then
        (case st of
           [] \<Rightarrow> if rooted then [] else [''..'']
         | t # r \<Rightarrow> if t = ''..'' then ''..'' # st else r)
      else part # st)"

definition rooted :: "string \<Rightarrow> bool" where
  "rooted p \<longleftrightarrow> p \<noteq> [] \<and> hd p = CHR ''/''"

definition clean_parts :: "string \<Rightarrow> string list" where
  "clean_parts p = rev (foldl (clean_step (rooted p)) [] (split CHR ''/'' p))"

definition path_clean :: "string \<Rightarrow> string" where
  "path_clean p =
     (if p = [] then ''.''
      else let out = (if rooted p then ''/'' else []) @ join CHR ''/'' (clean_parts p)
           in if out = [] then ''.'' else out)"

text \<open>
  \<open>path.Base\<close>: the last element, after trailing slashes are taken off.
\<close>

definition path_base :: "string \<Rightarrow> string" where
  "path_base p =
     (if p = [] then ''.''
      else let t = rev (dropWhile ((=) CHR ''/'') (rev p))
           in if t = [] then ''/'' else last (split CHR ''/'' t))"

text \<open>\<open>filepath.Join(a, b)\<close>: empty elements are ignored, the rest is joined and cleaned.\<close>

definition filepath_join :: "string \<Rightarrow> string \<Rightarrow> string" where
  "filepath_join a b =
     (case filter (\<lambda>x. x \<noteq> []) [a, b] of
        [] \<Rightarrow> []
      | xs \<Rightarrow> path_clean (join CHR ''/'' xs))"

section \<open>Cleaned paths\<close>

text \<open>A normal element is one \<open>Clean\<close> never drops.\<close>

definition normal_part :: "string \<Rightarrow> bool" where
  "normal_part x \<longleftrightarrow> x \<noteq> [] \<and> x \<noteq> ''.'' \<and> x \<noteq> ''..'' \<and> CHR ''/'' \<notin> set x"

text \<open>
  The stack's shape: normal elements on top of a run of \<open>..\<close>, and no \<open>..\<close> in a rooted path.
\<close>

definition clean_stack :: "bool \<Rightarrow> string list \<Rightarrow> bool" where
  "clean_stack r st \<longleftrightarrow>
     (\<exists>ns k. st = ns @ replicate k ''..'' \<and> (\<forall>x\<in>set ns. normal_part x) \<and> (r \<longrightarrow> k = 0))"

lemma clean_stack_Nil [simp]: "clean_stack r []"
  by (auto simp: clean_stack_def)

lemma clean_step_stack:
  assumes "clean_stack r st" and "CHR ''/'' \<notin> set part"
  shows "clean_stack r (clean_step r st part)"
proof -
  obtain ns k where st: "st = ns @ replicate k ''..''"
    and ns: "\<forall>x\<in>set ns. normal_part x" and k: "r \<longrightarrow> k = 0"
    using assms(1) by (auto simp: clean_stack_def)
  show ?thesis
  proof (cases "part = [] \<or> part = ''.''")
    case True
    then show ?thesis using assms(1) by (simp add: clean_step_def)
  next
    case False
    show ?thesis
    proof (cases "part = ''..''")
      case True
      show ?thesis
      proof (cases ns)
        case Nil
        show ?thesis
        proof (cases k)
          case 0
          then have "clean_step r st part = [] @ replicate (if r then 0 else 1) ''..''"
            using Nil st True by (simp add: clean_step_def)
          then show ?thesis unfolding clean_stack_def by (metis Nil ns One_nat_def)
        next
          case (Suc j)
          then have "clean_step r st part = [] @ replicate (Suc k) ''..''"
            using Nil st True by (simp add: clean_step_def)
          then show ?thesis unfolding clean_stack_def using Suc k
            by (intro exI [of _ "[]"] exI [of _ "Suc k"]) simp
        qed
      next
        case (Cons n ms)
        then have "n \<noteq> ''..''" using ns by (simp add: normal_part_def)
        then have "clean_step r st part = ms @ replicate k ''..''"
          using Cons st True by (simp add: clean_step_def)
        then show ?thesis unfolding clean_stack_def using Cons ns k by auto
      qed
    next
      case notdd: False
      then have "clean_step r st part = (part # ns) @ replicate k ''..''"
        using False st by (simp add: clean_step_def)
      moreover have "normal_part part"
        using False notdd assms(2) by (simp add: normal_part_def)
      ultimately show ?thesis unfolding clean_stack_def using ns k
        by (intro exI [of _ "part # ns"] exI [of _ k]) simp
    qed
  qed
qed

lemma foldl_clean_stack:
  "clean_stack r st \<Longrightarrow> \<forall>x\<in>set ps. CHR ''/'' \<notin> set x
    \<Longrightarrow> clean_stack r (foldl (clean_step r) st ps)"
proof (induction ps arbitrary: st)
  case (Cons x ps)
  then have "clean_stack r (clean_step r st x)" by (simp add: clean_step_stack)
  with Cons show ?case by simp
qed simp

lemma clean_parts_shape:
  "\<exists>ns k. clean_parts p = replicate k ''..'' @ ns \<and> (\<forall>x\<in>set ns. normal_part x)
     \<and> (rooted p \<longrightarrow> k = 0)"
proof -
  have "clean_stack (rooted p) (foldl (clean_step (rooted p)) [] (split CHR ''/'' p))"
    by (rule foldl_clean_stack) (simp_all add: split_no_sep)
  then obtain ns k where "foldl (clean_step (rooted p)) [] (split CHR ''/'' p)
      = ns @ replicate k ''..''" "\<forall>x\<in>set ns. normal_part x" "rooted p \<longrightarrow> k = 0"
    by (auto simp: clean_stack_def)
  then show ?thesis
    by (intro exI [of _ "rev ns"] exI [of _ k]) (simp add: clean_parts_def)
qed

lemma clean_parts_no_slash: "x \<in> set (clean_parts p) \<Longrightarrow> CHR ''/'' \<notin> set x \<and> x \<noteq> []"
proof -
  assume x: "x \<in> set (clean_parts p)"
  obtain ns k where s: "clean_parts p = replicate k ''..'' @ ns" "\<forall>x\<in>set ns. normal_part x"
    using clean_parts_shape by blast
  from x s(1) consider "x = ''..''" | "x \<in> set ns" by (auto split: if_splits)
  then show ?thesis
  proof cases
    case 2
    with s(2) have "normal_part x" by blast
    then show ?thesis by (simp add: normal_part_def)
  qed simp
qed

text \<open>A path without \<open>..\<close> left has only normal elements.\<close>

lemma clean_parts_normal:
  "''..'' \<notin> set (clean_parts p) \<Longrightarrow> \<forall>x\<in>set (clean_parts p). normal_part x"
proof -
  assume no: "''..'' \<notin> set (clean_parts p)"
  obtain ns k where s: "clean_parts p = replicate k ''..'' @ ns" "\<forall>x\<in>set ns. normal_part x"
    using clean_parts_shape by blast
  with no have "k = 0" by (cases k) auto
  with s show ?thesis by simp
qed

text \<open>The elements of a cleaned path.\<close>

lemma split_path_clean:
  assumes "p \<noteq> []"
  shows "split CHR ''/'' (path_clean p) =
    (if rooted p then [] # (if clean_parts p = [] then [[]] else clean_parts p)
     else if clean_parts p = [] then [''.''] else clean_parts p)"
proof -
  have parts: "clean_parts p \<noteq> [] \<Longrightarrow>
      split CHR ''/'' (join CHR ''/'' (clean_parts p)) = clean_parts p"
    by (rule split_join) (auto dest: clean_parts_no_slash)
  have ne: "join CHR ''/'' (clean_parts p) = [] \<Longrightarrow> clean_parts p = []"
    using parts by (metis clean_parts_no_slash list.set_intros(1) split.simps(1))
  show ?thesis
  proof (cases "clean_parts p = []")
    case True
    then show ?thesis using assms by (simp add: path_clean_def)
  next
    case False
    then show ?thesis using assms parts ne by (auto simp: path_clean_def Let_def)
  qed
qed

subsection \<open>Stacks of normal elements\<close>

lemma clean_step_normal: "normal_part x \<Longrightarrow> clean_step r st x = x # st"
  by (simp add: clean_step_def normal_part_def)

lemma foldl_clean_normal:
  "\<forall>x\<in>set xs. normal_part x \<Longrightarrow> foldl (clean_step r) st xs = rev xs @ st"
  by (induction xs arbitrary: st) (simp_all add: clean_step_normal)

lemma clean_step_empty [simp]: "clean_step r st [] = st"
  and clean_step_dot [simp]: "clean_step r st ''.'' = st"
  by (simp_all add: clean_step_def)

text \<open>Cleaning a path whose elements are normal gives them back.\<close>

lemma rooted_Cons [simp]: "rooted (c # s) \<longleftrightarrow> c = CHR ''/''"
  by (simp add: rooted_def)

lemma not_rooted_join:
  "xs \<noteq> [] \<Longrightarrow> \<forall>x\<in>set xs. normal_part x \<Longrightarrow> \<not> rooted (join CHR ''/'' xs)"
proof -
  assume a: "xs \<noteq> []" "\<forall>x\<in>set xs. normal_part x"
  then obtain x ys where xs: "xs = x # ys" by (cases xs) auto
  then have n: "normal_part x" using a by simp
  then obtain c r where x: "x = c # r" by (cases x) (auto simp: normal_part_def)
  then have "c \<noteq> CHR ''/''" using n by (auto simp: normal_part_def)
  then show ?thesis using xs x by (cases ys) auto
qed

lemma clean_parts_rooted:
  "xs \<noteq> [] \<Longrightarrow> \<forall>x\<in>set xs. normal_part x
    \<Longrightarrow> clean_parts (CHR ''/'' # join CHR ''/'' xs) = xs"
  by (simp add: clean_parts_def split_join foldl_clean_normal normal_part_def)

lemma clean_parts_relative:
  "xs \<noteq> [] \<Longrightarrow> \<forall>x\<in>set xs. normal_part x
    \<Longrightarrow> clean_parts (join CHR ''/'' xs) = xs"
  by (simp add: clean_parts_def not_rooted_join split_join foldl_clean_normal normal_part_def)

end
