(* ===== verification/Vfs.thy ===== *)
theory Vfs
  imports S3Service GoPath
begin

text \<open>
  \<open>internal/vfs/vfs.go\<close>: the virtual file system that maps the first element of a path to a
  backend, its restriction to the backends of a user, and the per-user prefixes.
\<close>

record vfs =
  Backends :: "(string, backend) gomap"

text \<open>
  \<open>NewVFS\<close>: the backends in the order of the configuration; the first that cannot be made
  ends the loop.
\<close>

fun new_vfs_loop :: "(backendConfig \<Rightarrow> go_error + backend) \<Rightarrow> backendConfig list
    \<Rightarrow> (string, backend) gomap \<Rightarrow> go_error + (string, backend) gomap" where
  "new_vfs_loop mk [] m = Inr m"
| "new_vfs_loop mk (bc # bcs) m =
     (case mk bc of
        Inl e \<Rightarrow> Inl e
      | Inr b \<Rightarrow> new_vfs_loop mk bcs (gm_put (bcName bc) b m))"

definition NewVFS :: "(backendConfig \<Rightarrow> go_error option) \<Rightarrow> (backendConfig \<Rightarrow> client)
    \<Rightarrow> backendConfig list \<Rightarrow> go_error + vfs" where
  "NewVFS load_aws client_of configs =
     (case new_vfs_loop (NewBackend load_aws client_of) configs [] of
        Inl e \<Rightarrow> Inl e
      | Inr m \<Rightarrow> Inr \<lparr>Backends = m\<rparr>)"

fun filter_loop :: "(string, backend) gomap \<Rightarrow> string list \<Rightarrow> (string, backend) gomap
    \<Rightarrow> (string, backend) gomap" where
  "filter_loop m [] filtered = filtered"
| "filter_loop m (name # names) filtered =
     filter_loop m names
       (case map_of m name of None \<Rightarrow> filtered | Some b \<Rightarrow> gm_put name b filtered)"

definition vfs_Filter :: "string list \<Rightarrow> vfs \<Rightarrow> vfs" where
  "vfs_Filter names v =
     (if names = [] then v else \<lparr>Backends = filter_loop (Backends v) names []\<rparr>)"

text \<open>
  The prefix of one backend: the entry of its name, or that of \<open>*\<close>, or none (Go's zero value
  for a missing key).
\<close>

definition prefix_for :: "(string, string) gomap \<Rightarrow> string \<Rightarrow> string" where
  "prefix_for pfxs name =
     (case map_of pfxs name of
        Some p \<Rightarrow> p
      | None \<Rightarrow> (case map_of pfxs ''*'' of Some p \<Rightarrow> p | None \<Rightarrow> []))"

definition extend_prefix :: "string \<Rightarrow> backend \<Rightarrow> backend" where
  "extend_prefix p b =
     (if p = [] then b
      else let p = trim_char CHR ''/'' p
           in if p = [] then b else b\<lparr>bPrefix := bPrefix b @ p @ ''/''\<rparr>)"

definition WithBackendPrefixes :: "(string, string) gomap \<Rightarrow> vfs \<Rightarrow> vfs" where
  "WithBackendPrefixes pfxs v =
     (if pfxs = [] then v
      else \<lparr>Backends = map (\<lambda>(name, b). (name, extend_prefix (prefix_for pfxs name) b))
                        (gm_range (Backends v))\<rparr>)"

definition WithUserPrefix :: "string \<Rightarrow> vfs \<Rightarrow> vfs" where
  "WithUserPrefix userPrefix v =
     (if userPrefix = [] then v
      else let userPrefix = trim_char CHR ''/'' userPrefix
           in if userPrefix = [] then v else WithBackendPrefixes [(''*'', userPrefix)] v)"

text \<open>\<open>Validate\<close>: one list request for each backend, in the order of the map's range.\<close>

fun validate_loop :: "'s s3_api \<Rightarrow> (string \<times> backend) list \<Rightarrow> ('s, unit) act" where
  "validate_loop api [] = retE ()"
| "validate_loop api ((name, b) # r) = (\<lambda>s.
     case api_ListObjectsV2 api (bClient b) (bBucket b)
            \<lparr>li_Prefix = bPrefix b, li_Delimiter = [], li_MaxKeys = Some 1, li_Token = None\<rparr> s of
       (Inl e, t) \<Rightarrow> (Inl (Wrapf ''backend %q (bucket=%q): %w'' [name, bBucket b] (S3 e)), t)
     | (Inr _, t) \<Rightarrow> validate_loop api r t)"

definition Validate :: "'s s3_api \<Rightarrow> vfs \<Rightarrow> ('s, unit) act" where
  "Validate api v = validate_loop api (gm_range (Backends v))"

text \<open>\<open>Resolve\<close>: no backend for the virtual root.\<close>

definition Resolve :: "vfs \<Rightarrow> string \<Rightarrow> go_error + backend option \<times> string" where
  "Resolve v p =
     (let p = trim_char CHR ''/'' p
      in if p = [] then Inr (None, [])
         else let parts = splitn2 CHR ''/'' p
              in case map_of (Backends v) (hd parts) of
                   None \<Rightarrow> Inl ErrNotExist
                 | Some b \<Rightarrow>
                     if length parts = 1 then Inr (Some b, []) else Inr (Some b, parts ! 1))"

section \<open>Looking a backend up\<close>

definition lookup :: "vfs \<Rightarrow> string \<Rightarrow> backend option" where
  "lookup v = map_of (Backends v)"

lemma map_of_filter_loop:
  "map_of (filter_loop m names f) k = (if k \<in> set names \<and> map_of m k \<noteq> None then map_of m k
     else map_of f k)"
  by (induction m names f rule: filter_loop.induct) (auto split: option.splits)

lemma lookup_Filter:
  "lookup (vfs_Filter names v) k = (if names = [] \<or> k \<in> set names then lookup v k else None)"
  by (auto simp: lookup_def vfs_Filter_def map_of_filter_loop)

lemma map_of_map_range:
  "map_of (map (\<lambda>(k, v). (k, f k v)) (gm_range m)) k = map_option (f k) (map_of m k)"
proof -
  have "map_of (map (\<lambda>(k, v). (k, f k v)) xs) k = map_option (f k) (map_of xs k)" for xs
    by (induction xs) auto
  then show ?thesis by simp
qed

lemma extend_prefix_Nil [simp]: "extend_prefix [] b = b"
  by (simp add: extend_prefix_def)

lemma prefix_for_Nil [simp]: "prefix_for [] name = []"
  by (simp add: prefix_for_def)

lemma lookup_WithBackendPrefixes:
  "lookup (WithBackendPrefixes pfxs v) k =
     map_option (extend_prefix (prefix_for pfxs k)) (lookup v k)"
proof (cases "pfxs = []")
  case True
  then show ?thesis
    by (cases "lookup v k") (simp_all add: lookup_def WithBackendPrefixes_def)
next
  case False
  then show ?thesis
    by (simp add: lookup_def WithBackendPrefixes_def map_of_map_range)
qed

section \<open>Prefixes\<close>

definition wf_vfs :: "vfs \<Rightarrow> bool" where
  "wf_vfs v \<longleftrightarrow> (\<forall>k b. lookup v k = Some b \<longrightarrow> wf_prefix (bPrefix b))"

lemma extend_prefix_sel [simp]:
  "bName (extend_prefix p b) = bName b" "bBucket (extend_prefix p b) = bBucket b"
  "bClient (extend_prefix p b) = bClient b"
  by (simp_all add: extend_prefix_def Let_def)

lemma bPrefix_extend:
  "bPrefix (extend_prefix p b) =
     bPrefix b @ (if trim_char CHR ''/'' p = [] then [] else trim_char CHR ''/'' p @ ''/'')"
  by (auto simp: extend_prefix_def Let_def)

lemma wf_extend_prefix: "wf_prefix (bPrefix b) \<Longrightarrow> wf_prefix (bPrefix (extend_prefix p b))"
  by (auto simp: bPrefix_extend wf_prefix_def)

lemma wf_vfs_Filter: "wf_vfs v \<Longrightarrow> wf_vfs (vfs_Filter names v)"
  by (auto simp: wf_vfs_def lookup_Filter split: if_splits)

lemma wf_vfs_WithBackendPrefixes: "wf_vfs v \<Longrightarrow> wf_vfs (WithBackendPrefixes pfxs v)"
  unfolding wf_vfs_def lookup_WithBackendPrefixes by (metis map_option_eq_Some wf_extend_prefix)

lemma new_vfs_loop_Inr:
  "new_vfs_loop (NewBackend la co) bcs m = Inr m' \<Longrightarrow>
   \<forall>k b. map_of m k = Some b \<longrightarrow> wf_prefix (bPrefix b) \<and> bName b = k \<Longrightarrow>
   \<forall>k b. map_of m' k = Some b \<longrightarrow> wf_prefix (bPrefix b) \<and> bName b = k"
proof (induction bcs arbitrary: m)
  case (Cons bc bcs)
  from Cons.prems(1) obtain b where b: "NewBackend la co bc = Inr b"
    by (cases "NewBackend la co bc") simp_all
  with Cons.prems have "new_vfs_loop (NewBackend la co) bcs (gm_put (bcName bc) b m) = Inr m'"
    by simp
  moreover have "\<forall>k b'. map_of (gm_put (bcName bc) b m) k = Some b' \<longrightarrow>
      wf_prefix (bPrefix b') \<and> bName b' = k"
    using Cons.prems(2) NewBackend_Inr [OF b] by auto
  ultimately show ?case by (rule Cons.IH)
qed simp

text \<open>Every backend of a new VFS is stored under its own name, with a well-formed prefix.\<close>

lemma NewVFS_Inr:
  assumes "NewVFS la co bcs = Inr v"
  shows "wf_vfs v" and "lookup v k = Some b \<Longrightarrow> bName b = k"
  using assms new_vfs_loop_Inr [of la co bcs "[]"]
  by (auto simp: NewVFS_def wf_vfs_def lookup_def split: sum.splits)

section \<open>Resolving\<close>

lemma Resolve_root: "trim_char CHR ''/'' p = [] \<Longrightarrow> Resolve v p = Inr (None, [])"
  by (simp add: Resolve_def)

lemma Resolve_name:
  "name \<noteq> [] \<Longrightarrow> CHR ''/'' \<notin> set name \<Longrightarrow> Resolve v (''/'' @ name) =
     (case lookup v name of None \<Rightarrow> Inl ErrNotExist | Some b \<Rightarrow> Inr (Some b, []))"
proof -
  assume a: "name \<noteq> []" "CHR ''/'' \<notin> set name"
  then have "trim_char CHR ''/'' name = name"
    by (intro trim_char_id) (metis hd_in_set last_in_set)+
  with a show ?thesis
    by (simp add: Resolve_def lookup_def splitn2_plain split: option.split)
qed

lemma Resolve_key:
  assumes "name \<noteq> []" and "CHR ''/'' \<notin> set name" and "rest \<noteq> []" and "last rest \<noteq> CHR ''/''"
  shows "Resolve v (''/'' @ name @ ''/'' @ rest) =
     (case lookup v name of None \<Rightarrow> Inl ErrNotExist | Some b \<Rightarrow> Inr (Some b, rest))"
proof -
  have "hd name \<noteq> CHR ''/''" using assms(1,2) by (metis hd_in_set)
  then have "trim_char CHR ''/'' (name @ ''/'' @ rest) = name @ ''/'' @ rest"
    using assms by (intro trim_char_id) simp_all
  moreover have "splitn2 CHR ''/'' (name @ CHR ''/'' # rest) = [name, rest]"
    using assms(2) by (rule splitn2_sep)
  ultimately show ?thesis
    by (simp add: Resolve_def lookup_def split: option.split)
qed

lemma Resolve_Inr_Some:
  "Resolve v p = Inr (Some b, key) \<Longrightarrow> \<exists>name. lookup v name = Some b"
  by (auto simp: Resolve_def lookup_def Let_def split: if_splits option.splits)

end
