(* ===== verification/Permissions.thy ===== *)
theory Permissions
  imports Config GoStrings
begin

text \<open>\<open>internal/sftphandlers/permissions.go\<close>: what a user may do.\<close>

record userPermissions =
  pRead :: bool
  pWrite :: bool
  pDelete :: bool

definition AllPermissions :: userPermissions where
  "AllPermissions = \<lparr>pRead = True, pWrite = True, pDelete = True\<rparr>"

definition parse_permission :: "userPermissions \<Rightarrow> string \<Rightarrow> userPermissions" where
  "parse_permission p s =
     (let w = to_lower (trim_space s)
      in if w = ''read'' then p\<lparr>pRead := True\<rparr>
         else if w = ''write'' then p\<lparr>pWrite := True\<rparr>
         else if w = ''delete'' then p\<lparr>pDelete := True\<rparr>
         else p)"

definition ParsePermissions :: "string list \<Rightarrow> userPermissions" where
  "ParsePermissions xs =
     (let p = foldl parse_permission \<lparr>pRead = False, pWrite = False, pDelete = False\<rparr> xs
      in if \<not> pRead p \<and> \<not> pWrite p \<and> \<not> pDelete p then AllPermissions else p)"

fun permissions_loop :: "userConfig list \<Rightarrow> string \<Rightarrow> userPermissions" where
  "permissions_loop [] username = AllPermissions"
| "permissions_loop (u # us) username =
     (if uUsername u = username then ParsePermissions (uPermissions u)
      else permissions_loop us username)"

definition GetUserPermissions :: "config \<Rightarrow> string \<Rightarrow> userPermissions" where
  "GetUserPermissions cfg username = permissions_loop (cUsers cfg) username"

text \<open>The guards of the handlers: an error, or nothing.\<close>

definition requireRead :: "userPermissions \<Rightarrow> go_error + unit" where
  "requireRead p = (if \<not> pRead p then Inl PermissionDenied else Inr ())"

definition requireWrite :: "userPermissions \<Rightarrow> go_error + unit" where
  "requireWrite p = (if \<not> pWrite p then Inl PermissionDenied else Inr ())"

definition requireDelete :: "userPermissions \<Rightarrow> go_error + unit" where
  "requireDelete p = (if \<not> pDelete p then Inl PermissionDenied else Inr ())"

lemmas require_defs = requireRead_def requireWrite_def requireDelete_def

section \<open>What the configured words grant\<close>

definition grants :: "string list \<Rightarrow> string \<Rightarrow> bool" where
  "grants xs w \<longleftrightarrow> (\<exists>s\<in>set xs. to_lower (trim_space s) = w)"

lemma foldl_parse_permission:
  "pRead (foldl parse_permission p xs) \<longleftrightarrow> pRead p \<or> grants xs ''read''"
  "pWrite (foldl parse_permission p xs) \<longleftrightarrow> pWrite p \<or> grants xs ''write''"
  "pDelete (foldl parse_permission p xs) \<longleftrightarrow> pDelete p \<or> grants xs ''delete''"
  by (induction xs arbitrary: p) (auto simp: grants_def parse_permission_def Let_def)

lemma ParsePermissions_sel:
  fixes xs :: "string list"
  defines "none \<equiv> \<not> grants xs ''read'' \<and> \<not> grants xs ''write'' \<and> \<not> grants xs ''delete''"
  shows "pRead (ParsePermissions xs) \<longleftrightarrow> none \<or> grants xs ''read''"
    and "pWrite (ParsePermissions xs) \<longleftrightarrow> none \<or> grants xs ''write''"
    and "pDelete (ParsePermissions xs) \<longleftrightarrow> none \<or> grants xs ''delete''"
  by (auto simp: none_def ParsePermissions_def Let_def foldl_parse_permission AllPermissions_def)

end
