(* ===== verification/Metrics.thy ===== *)
theory Metrics
  imports GoStrings
begin

text \<open>
  The Prometheus collectors of \<open>internal/metrics/metrics.go\<close> and the two HTTP handlers. A
  collector is its value: counters and gauges are numbers (float64 in the code, exact for the
  integers they hold), a vector of them is a function of its labels, and of a histogram only
  the number of observations is kept (the durations are wall-clock times).
\<close>

record metrics =
  activeConns :: int
  totalConns :: nat
  uploadBytes :: int
  downloadBytes :: int
  s3OpsTotal :: "string \<times> string \<times> string \<Rightarrow> nat"
  s3OpDuration :: "string \<times> string \<Rightarrow> nat"
  authFailures :: nat
  backendHealthy :: "string \<Rightarrow> int option"

definition NewMetrics :: metrics where
  "NewMetrics =
     \<lparr>activeConns = 0, totalConns = 0, uploadBytes = 0, downloadBytes = 0,
      s3OpsTotal = (\<lambda>_. 0), s3OpDuration = (\<lambda>_. 0), authFailures = 0,
      backendHealthy = (\<lambda>_. None)\<rparr>"

definition ConnectionOpened :: "metrics \<Rightarrow> metrics" where
  "ConnectionOpened m = m\<lparr>activeConns := activeConns m + 1, totalConns := totalConns m + 1\<rparr>"

definition ConnectionClosed :: "metrics \<Rightarrow> metrics" where
  "ConnectionClosed m = m\<lparr>activeConns := activeConns m - 1\<rparr>"

definition AddUploadBytes :: "int \<Rightarrow> metrics \<Rightarrow> metrics" where
  "AddUploadBytes n m = (if n > 0 then m\<lparr>uploadBytes := uploadBytes m + n\<rparr> else m)"

definition AddDownloadBytes :: "int \<Rightarrow> metrics \<Rightarrow> metrics" where
  "AddDownloadBytes n m = (if n > 0 then m\<lparr>downloadBytes := downloadBytes m + n\<rparr> else m)"

definition IncAuthFailures :: "metrics \<Rightarrow> metrics" where
  "IncAuthFailures m = m\<lparr>authFailures := authFailures m + 1\<rparr>"

definition SetBackendHealthy :: "string \<Rightarrow> bool \<Rightarrow> metrics \<Rightarrow> metrics" where
  "SetBackendHealthy backend healthy m =
     m\<lparr>backendHealthy := (backendHealthy m)(backend \<mapsto> (if healthy then 1 else 0))\<rparr>"

definition ObserveS3Op :: "string \<Rightarrow> string \<Rightarrow> bool \<Rightarrow> metrics \<Rightarrow> metrics" where
  "ObserveS3Op op backend failed m =
     (let status = (if failed then ''error'' else ''success'')
      in m\<lparr>s3OpsTotal := (s3OpsTotal m)
             ((op, backend, status) := s3OpsTotal m (op, backend, status) + 1),
           s3OpDuration := (s3OpDuration m)
             ((op, backend) := s3OpDuration m (op, backend) + 1)\<rparr>)"

section \<open>The HTTP endpoints\<close>

text \<open>
  A response is its status and body. \<open>healthz\<close> takes the checker as the result of
  \<open>AllHealthy\<close>, \<open>None\<close> for a nil checker; \<open>metricsAuthHandler\<close> takes the value of the
  Authorization header (empty when absent) and the handler it protects.
\<close>

type_synonym http_reply = "nat \<times> string"

definition healthz :: "bool option \<Rightarrow> http_reply" where
  "healthz checker =
     (case checker of
        Some False \<Rightarrow> (503, ''unhealthy'')
      | _ \<Rightarrow> (200, ''ok''))"

definition metricsAuthHandler ::
    "string \<Rightarrow> (string \<Rightarrow> http_reply) \<Rightarrow> string \<Rightarrow> http_reply" where
  "metricsAuthHandler token next =
     (if token = [] then next
      else (\<lambda>authorization.
              if authorization \<noteq> ''Bearer '' @ token then (401, ''unauthorized'')
              else next authorization))"

section \<open>Every observation is counted once\<close>

text \<open>
  The invariant that ties the two collectors of an S3 operation: the histogram of an
  operation and backend has as many observations as the counters of its two statuses.
\<close>

definition ops_consistent :: "metrics \<Rightarrow> bool" where
  "ops_consistent m \<longleftrightarrow>
     (\<forall>op b. s3OpDuration m (op, b)
        = s3OpsTotal m (op, b, ''success'') + s3OpsTotal m (op, b, ''error''))"

lemma ops_consistent_New [simp]: "ops_consistent NewMetrics"
  by (simp add: ops_consistent_def NewMetrics_def)

lemma ops_consistent_Observe [simp]:
  "ops_consistent m \<Longrightarrow> ops_consistent (ObserveS3Op op b e m)"
  by (auto simp: ops_consistent_def ObserveS3Op_def Let_def)

lemma ops_consistent_bytes [simp]:
  "ops_consistent (AddUploadBytes n m) \<longleftrightarrow> ops_consistent m"
  "ops_consistent (AddDownloadBytes n m) \<longleftrightarrow> ops_consistent m"
  "ops_consistent (IncAuthFailures m) \<longleftrightarrow> ops_consistent m"
  "ops_consistent (SetBackendHealthy b h m) \<longleftrightarrow> ops_consistent m"
  "ops_consistent (ConnectionOpened m) \<longleftrightarrow> ops_consistent m"
  "ops_consistent (ConnectionClosed m) \<longleftrightarrow> ops_consistent m"
  by (simp_all add: ops_consistent_def AddUploadBytes_def AddDownloadBytes_def
      IncAuthFailures_def SetBackendHealthy_def ConnectionOpened_def ConnectionClosed_def)

text \<open>
  The counters never go down: what Prometheus requires of a counter, and what
  \<open>counters_le\<close> states of two snapshots.
\<close>

definition counters_le :: "metrics \<Rightarrow> metrics \<Rightarrow> bool" where
  "counters_le m m' \<longleftrightarrow>
     totalConns m \<le> totalConns m' \<and> uploadBytes m \<le> uploadBytes m' \<and>
     downloadBytes m \<le> downloadBytes m' \<and> authFailures m \<le> authFailures m' \<and>
     (\<forall>l. s3OpsTotal m l \<le> s3OpsTotal m' l)"

lemma counters_le_refl [simp]: "counters_le m m"
  by (simp add: counters_le_def)

lemma counters_le_trans: "counters_le a b \<Longrightarrow> counters_le b c \<Longrightarrow> counters_le a c"
  unfolding counters_le_def by (meson order_trans)

lemma counters_le_steps [simp]:
  "counters_le m (AddUploadBytes n m)" "counters_le m (AddDownloadBytes n m)"
  "counters_le m (IncAuthFailures m)" "counters_le m (SetBackendHealthy b h m)"
  "counters_le m (ConnectionOpened m)" "counters_le m (ConnectionClosed m)"
  "counters_le m (ObserveS3Op op b e m)"
  by (simp_all add: counters_le_def AddUploadBytes_def AddDownloadBytes_def ObserveS3Op_def
      IncAuthFailures_def SetBackendHealthy_def ConnectionOpened_def ConnectionClosed_def Let_def)

end
