(* ===== verification/HandlerBase.thy ===== *)
theory HandlerBase
  imports Vfs Permissions Metrics
begin

text \<open>
  The ground of \<open>internal/sftphandlers/handlers.go\<close>: the handlers' fields, the metered S3
  operations, and the way a path of a client becomes a backend and a key.
\<close>

section \<open>State\<close>

text \<open>
  \<open>hMetrics\<close> tells whether the metrics pointer is set, \<open>hRateLimiter\<close> is the pointer to the
  user's limiter. The logger and the contexts are left out: a timeout or a cancellation shows
  as an error of the call it ends.
\<close>

record handlers =
  hVfs :: vfs
  hUser :: string
  hRemote :: string
  hPerms :: userPermissions
  hRateLimiter :: "nat option"
  hMaxFileSize :: int
  hMaxReadSize :: int
  hCacheDir :: string
  hMetrics :: bool

record request =
  rMethod :: string
  rFilepath :: string
  rTarget :: string

definition NewS3Handlers :: "vfs \<Rightarrow> string \<Rightarrow> string \<Rightarrow> userPermissions \<Rightarrow> nat option \<Rightarrow> int \<Rightarrow> int
    \<Rightarrow> string \<Rightarrow> bool \<Rightarrow> handlers" where
  "NewS3Handlers v user remote perms rateLimiter maxFileSize maxReadSize cacheDir metrics =
     \<lparr>hVfs = v, hUser = user, hRemote = remote, hPerms = perms, hRateLimiter = rateLimiter,
      hMaxFileSize = maxFileSize, hMaxReadSize = maxReadSize, hCacheDir = cacheDir,
      hMetrics = metrics\<rparr>"

text \<open>What the handlers act on: the S3 world and the collectors.\<close>

record 's world =
  wStore :: 's
  wMetrics :: metrics

definition wview :: "('s \<Rightarrow> loc \<Rightarrow> string option) \<Rightarrow> 's world \<Rightarrow> loc \<Rightarrow> string option" where
  "wview view w = view (wStore w)"

section \<open>Metered operations\<close>

definition recordS3Op :: "bool \<Rightarrow> string \<Rightarrow> backend \<Rightarrow> bool \<Rightarrow> 's world \<Rightarrow> 's world" where
  "recordS3Op enabled op b failed w =
     (if enabled then w\<lparr>wMetrics := ObserveS3Op op (bName b) failed (wMetrics w)\<rparr> else w)"

definition timedS3Op :: "handlers \<Rightarrow> string \<Rightarrow> backend \<Rightarrow> ('s, 'a) act \<Rightarrow> ('s world, 'a) act" where
  "timedS3Op h op b fn w =
     (case fn (wStore w) of
        (r, s) \<Rightarrow> (r, recordS3Op (hMetrics h) op b (isl r) (w\<lparr>wStore := s\<rparr>)))"

definition h_objectExists :: "handlers \<Rightarrow> 's s3_api \<Rightarrow> backend \<Rightarrow> string \<Rightarrow> ('s world, bool) act" where
  "h_objectExists h api b key = timedS3Op h ''HeadObject'' b (ObjectExists api b key)"

definition h_prefixHasEntries :: "handlers \<Rightarrow> 's s3_api \<Rightarrow> backend \<Rightarrow> string \<Rightarrow> ('s world, bool) act" where
  "h_prefixHasEntries h api b pfx = timedS3Op h ''ListObjectsV2'' b (PrefixHasEntries api b pfx)"

definition h_deleteObject :: "handlers \<Rightarrow> 's s3_api \<Rightarrow> backend \<Rightarrow> string \<Rightarrow> ('s world, unit) act" where
  "h_deleteObject h api b key = timedS3Op h ''DeleteObject'' b (DeleteObject api b key)"

definition h_deletePrefix ::
    "handlers \<Rightarrow> nat \<Rightarrow> 's s3_api \<Rightarrow> backend \<Rightarrow> string \<Rightarrow> ('s world, unit) act" where
  "h_deletePrefix h fuel api b pfx = timedS3Op h ''DeleteObjects'' b (DeletePrefix fuel api b pfx)"

definition h_copyObject ::
    "handlers \<Rightarrow> 's s3_api \<Rightarrow> backend \<Rightarrow> string \<Rightarrow> string \<Rightarrow> ('s world, unit) act" where
  "h_copyObject h api b src dst = timedS3Op h ''CopyObject'' b (CopyObject api b src dst)"

definition nextListPage :: "handlers \<Rightarrow> 's s3_api \<Rightarrow> backend \<Rightarrow> string \<Rightarrow> string \<Rightarrow> string option
    \<Rightarrow> ('s world, list_out) act" where
  "nextListPage h api b pfx delim tok =
     timedS3Op h ''ListObjectsV2'' b (list_page api b pfx delim tok)"

lemmas metered_defs = h_objectExists_def h_prefixHasEntries_def h_deleteObject_def
  h_deletePrefix_def h_copyObject_def nextListPage_def

lemma wStore_recordS3Op [simp]: "wStore (recordS3Op e op b f w) = wStore w"
  by (simp add: recordS3Op_def)

lemma timedS3Op_run:
  "timedS3Op h op b fn w = (r, w') \<Longrightarrow> fn (wStore w) = (r, wStore w')"
  by (auto simp: timedS3Op_def split: prod.splits)

lemma within_timed:
  assumes "within (agree_off view L) fn"
  shows "within (agree_off (wview view) L) (timedS3Op h op b fn)"
proof (rule withinI)
  fix w r w' assume "timedS3Op h op b fn w = (r, w')"
  from withinD [OF assms timedS3Op_run [OF this]] show "agree_off (wview view) L w w'"
    by (simp add: agree_off_def wview_def)
qed

subsection \<open>What the metrics may do\<close>

text \<open>Every counter goes up or stays, and operations stay counted once.\<close>

definition metrics_ok :: "'s world \<Rightarrow> 's world \<Rightarrow> bool" where
  "metrics_ok w w' \<longleftrightarrow> counters_le (wMetrics w) (wMetrics w')
     \<and> (ops_consistent (wMetrics w) \<longrightarrow> ops_consistent (wMetrics w'))"

lemma reflp_metrics_ok [simp]: "reflp metrics_ok"
  by (simp add: reflp_def metrics_ok_def)

lemma transp_metrics_ok [simp]: "transp metrics_ok"
  unfolding transp_def metrics_ok_def by (blast intro: counters_le_trans)

lemma metrics_ok_timed: "within metrics_ok (timedS3Op h op b fn)"
proof (rule withinI)
  fix w r w' assume "timedS3Op h op b fn w = (r, w')"
  then show "metrics_ok w w'"
    by (auto simp: timedS3Op_def recordS3Op_def metrics_ok_def split: prod.splits)
qed

lemma metrics_ok_steps [simp]:
  "metrics_ok w w"
  "metrics_ok w x \<Longrightarrow> metrics_ok w (recordS3Op en op b f x)"
  "metrics_ok w x \<Longrightarrow> metrics_ok w (x\<lparr>wStore := s\<rparr>)"
  "metrics_ok w x \<Longrightarrow> metrics_ok w (x\<lparr>wMetrics := AddUploadBytes n (wMetrics x)\<rparr>)"
  "metrics_ok w x \<Longrightarrow> metrics_ok w (x\<lparr>wMetrics := AddDownloadBytes n (wMetrics x)\<rparr>)"
  unfolding metrics_ok_def recordS3Op_def
  by (auto intro: counters_le_trans [OF _ counters_le_steps(1)]
      counters_le_trans [OF _ counters_le_steps(2)] counters_le_trans [OF _ counters_le_steps(7)])

section \<open>Paths\<close>

definition sanitizePath :: "string \<Rightarrow> go_error + string" where
  "sanitizePath p =
     (let cleaned = path_clean p
      in if list_ex (\<lambda>part. part = ''..'') (split CHR ''/'' cleaned)
         then Inl (Errorf ''invalid path'' []) else Inr cleaned)"

definition h_resolve :: "handlers \<Rightarrow> string \<Rightarrow> go_error + backend option \<times> string" where
  "h_resolve h p =
     (case sanitizePath p of
        Inl e \<Rightarrow> Inl e
      | Inr p \<Rightarrow> (case Resolve (hVfs h) p of Inl e \<Rightarrow> Inl e | Inr bk \<Rightarrow> Inr bk))"

lemma sanitizePath_eq:
  "sanitizePath p =
     (if ''..'' \<in> set (clean_parts p) then Inl (Errorf ''invalid path'' [])
      else Inr (path_clean p))"
proof (cases "p = []")
  case True
  then show ?thesis by (simp add: sanitizePath_def path_clean_def clean_parts_def rooted_def)
next
  case False
  then show ?thesis
    by (auto simp: sanitizePath_def Let_def list_ex_iff split_path_clean)
qed

lemma path_clean_eq:
  "path_clean p = (if rooted p then CHR ''/'' # join CHR ''/'' (clean_parts p)
     else if clean_parts p = [] then ''.'' else join CHR ''/'' (clean_parts p))"
proof -
  have "join CHR ''/'' (x # xs) = [] \<Longrightarrow> x = []" for x xs
    by (cases xs) simp_all
  then have "clean_parts p \<noteq> [] \<Longrightarrow> join CHR ''/'' (clean_parts p) \<noteq> []"
    by (metis clean_parts_no_slash list.exhaust list.set_intros(1))
  moreover have "\<not> rooted []" "clean_parts [] = []" by (simp_all add: rooted_def clean_parts_def)
  ultimately show ?thesis by (cases "p = []") (auto simp: path_clean_def Let_def)
qed

text \<open>A key is the join of normal elements: it has no slash at its ends.\<close>

definition normal_key :: "string \<Rightarrow> bool" where
  "normal_key key \<longleftrightarrow> (\<exists>parts. key = join CHR ''/'' parts \<and> (\<forall>x\<in>set parts. normal_part x))"

lemma join_normal_ends:
  assumes "parts \<noteq> []" and "\<forall>x\<in>set parts. normal_part x"
  shows "join CHR ''/'' parts \<noteq> []" and "hd (join CHR ''/'' parts) \<noteq> CHR ''/''"
    and "last (join CHR ''/'' parts) \<noteq> CHR ''/''"
proof -
  have ends: "x \<noteq> [] \<and> hd x \<noteq> CHR ''/'' \<and> last x \<noteq> CHR ''/''" if "normal_part x" for x
    using that unfolding normal_part_def by (metis hd_in_set last_in_set)
  have "join CHR ''/'' parts \<noteq> [] \<and> hd (join CHR ''/'' parts) \<noteq> CHR ''/''
      \<and> last (join CHR ''/'' parts) \<noteq> CHR ''/''"
    using assms
  proof (induction parts)
    case (Cons x xs)
    then have x: "x \<noteq> [] \<and> hd x \<noteq> CHR ''/'' \<and> last x \<noteq> CHR ''/''" using ends by simp
    show ?case
    proof (cases xs)
      case Nil
      with x show ?thesis by simp
    next
      case (Cons y ys)
      with Cons.IH Cons.prems x show ?thesis by simp
    qed
  qed simp
  then show "join CHR ''/'' parts \<noteq> []" and "hd (join CHR ''/'' parts) \<noteq> CHR ''/''"
    and "last (join CHR ''/'' parts) \<noteq> CHR ''/''" by simp_all
qed

lemma normal_key_last: "normal_key key \<Longrightarrow> key \<noteq> [] \<Longrightarrow> last key \<noteq> CHR ''/''"
  unfolding normal_key_def by (metis join.simps(1) join_normal_ends(3))

text \<open>What resolving gives, for every path.\<close>

lemma h_resolve_eq:
  "h_resolve h p =
     (if ''..'' \<in> set (clean_parts p) then Inl (Errorf ''invalid path'' [])
      else case clean_parts p of
        [] \<Rightarrow>
          if rooted p then Inr (None, [])
          else (case lookup (hVfs h) ''.'' of None \<Rightarrow> Inl ErrNotExist | Some b \<Rightarrow> Inr (Some b, []))
      | name # parts \<Rightarrow>
          (case lookup (hVfs h) name of
             None \<Rightarrow> Inl ErrNotExist
           | Some b \<Rightarrow> Inr (Some b, join CHR ''/'' parts)))"
proof (cases "''..'' \<in> set (clean_parts p)")
  case True
  then show ?thesis by (simp add: h_resolve_def sanitizePath_eq)
next
  case no: False
  let ?v = "hVfs h"
  have run: "h_resolve h p = Resolve ?v (path_clean p)"
    using no by (simp add: h_resolve_def sanitizePath_eq split: sum.split)
  have slash: "Resolve ?v (CHR ''/'' # q) = Resolve ?v q" for q
    by (simp add: Resolve_def)
  have all: "\<forall>x\<in>set (clean_parts p). normal_part x" by (rule clean_parts_normal [OF no])
  show ?thesis
  proof (cases "clean_parts p")
    case Nil
    have "Resolve ?v ''/'' = Inr (None, [])" by (simp add: slash) (simp add: Resolve_root)
    moreover have "Resolve ?v ''.'' =
        (case lookup ?v ''.'' of None \<Rightarrow> Inl ErrNotExist | Some b \<Rightarrow> Inr (Some b, []))"
      using Resolve_name [of "''.''" ?v] by (simp add: slash)
    ultimately show ?thesis using Nil no by (simp add: run path_clean_eq)
  next
    case (Cons name parts)
    then have n: "normal_part name" and ps: "\<forall>x\<in>set parts. normal_part x" using all by simp_all
    then have name: "name \<noteq> []" "CHR ''/'' \<notin> set name" by (simp_all add: normal_part_def)
    have "Resolve ?v (path_clean p) = Resolve ?v (''/'' @ join CHR ''/'' (name # parts))"
      by (simp add: path_clean_eq Cons slash)
    also have "\<dots> = (case lookup ?v name of None \<Rightarrow> Inl ErrNotExist
        | Some b \<Rightarrow> Inr (Some b, join CHR ''/'' parts))"
    proof (cases parts)
      case Nil
      then show ?thesis using Resolve_name [OF name, of ?v] by (simp split: option.split)
    next
      case (Cons x xs)
      then have "parts \<noteq> []" by simp
      note e = join_normal_ends [OF this ps]
      have "join CHR ''/'' (name # parts) = name @ ''/'' @ join CHR ''/'' parts"
        using Cons by simp
      then show ?thesis using Resolve_key [OF name e(1) e(3), of ?v] by simp
    qed
    finally show ?thesis using Cons no by (simp add: run)
  qed
qed

lemma h_resolve_Some:
  "h_resolve h p = Inr (Some b, key) \<Longrightarrow> (\<exists>name. lookup (hVfs h) name = Some b) \<and> normal_key key"
proof -
  assume r: "h_resolve h p = Inr (Some b, key)"
  then have no: "''..'' \<notin> set (clean_parts p)" by (auto simp: h_resolve_eq)
  note all = clean_parts_normal [OF no]
  show ?thesis
  proof (cases "clean_parts p")
    case Nil
    with r no have "lookup (hVfs h) ''.'' = Some b \<and> key = join CHR ''/'' []"
      by (auto simp: h_resolve_eq split: if_splits option.splits)
    then show ?thesis unfolding normal_key_def by (metis empty_iff list.set(1))
  next
    case (Cons name parts)
    with r no have "lookup (hVfs h) name = Some b \<and> key = join CHR ''/'' parts"
      by (auto simp: h_resolve_eq split: if_splits option.splits)
    then show ?thesis using all Cons unfolding normal_key_def by auto
  qed
qed

lemma h_resolve_fuel: "h_resolve h p = Inl e \<Longrightarrow> e \<noteq> OutOfFuel"
  by (auto simp: h_resolve_eq split: if_splits list.splits option.splits)

text \<open>The keys a user can name are under the backend's prefix.\<close>

lemma DirPrefix_key:
  "wf_prefix (bPrefix b) \<Longrightarrow> normal_key key \<Longrightarrow> key \<noteq> [] \<Longrightarrow>
     DirPrefix b key = ObjectKey b key @ ''/''"
  using normal_key_last by (simp add: DirPrefix_plain)

end
