(* ===== verification/Ratelimit.thy ===== *)
theory Ratelimit
  imports Config
begin

text \<open>
  \<open>internal/ratelimit/ratelimit.go\<close>: the per-user connection limiter, the registry of shared
  token buckets, and the rate-limited reader and writer. The token bucket itself is
  \<open>golang.org/x/time/rate\<close>, a parameter: the record \<open>rate_lib\<close> of the calls the code makes.
\<close>

section \<open>The token bucket\<close>

text \<open>
  \<open>rate_WaitN n l\<close> blocks until \<open>n\<close> tokens are taken from the bucket \<open>l\<close>, or gives an error.
\<close>

record 'l rate_lib =
  rate_NewLimiter :: "int \<Rightarrow> int \<Rightarrow> 'l"
  rate_SetLimit :: "int \<Rightarrow> 'l \<Rightarrow> 'l"
  rate_SetBurst :: "int \<Rightarrow> 'l \<Rightarrow> 'l"
  rate_WaitN :: "int \<Rightarrow> 'l \<Rightarrow> go_error option \<times> 'l"

definition limiterBurst :: "int \<Rightarrow> int" where
  "limiterBurst bytesPerSec =
     (let burst = bytesPerSec in if burst < 64 * 1024 then 64 * 1024 else burst)"

definition NewAcceptRateLimiter :: "'l rate_lib \<Rightarrow> int \<Rightarrow> 'l option" where
  "NewAcceptRateLimiter lib perSec =
     (if perSec \<le> 0 then None else Some (rate_NewLimiter lib perSec perSec))"

definition NewUserRateLimiter :: "'l rate_lib \<Rightarrow> int \<Rightarrow> 'l option" where
  "NewUserRateLimiter lib bytesPerSec =
     (if bytesPerSec \<le> 0 then None
      else Some (rate_NewLimiter lib bytesPerSec (limiterBurst bytesPerSec)))"

definition MaxDuration :: "int \<Rightarrow> int \<Rightarrow> int" where
  "MaxDuration a b = (if a > b then a else b)"

section \<open>Connections per user\<close>

record connLimiter =
  clLimits :: "(string, int) gomap"
  clCounts :: "(string, int) gomap"

text \<open>A missing key reads as Go's zero value.\<close>

definition zget :: "(string, int) gomap \<Rightarrow> string \<Rightarrow> int" where
  "zget m k = (case map_of m k of None \<Rightarrow> 0 | Some n \<Rightarrow> n)"

fun conn_limits :: "userConfig list \<Rightarrow> (string, int) gomap \<Rightarrow> (string, int) gomap" where
  "conn_limits [] m = m"
| "conn_limits (u # us) m =
     conn_limits us
       (if uMaxConnections u > 0 then gm_put (uUsername u) (uMaxConnections u) m else m)"

definition connLimiter_Update :: "userConfig list \<Rightarrow> connLimiter \<Rightarrow> connLimiter" where
  "connLimiter_Update users l = l\<lparr>clLimits := conn_limits users []\<rparr>"

definition NewUserConnLimiter :: "userConfig list \<Rightarrow> connLimiter" where
  "NewUserConnLimiter users = connLimiter_Update users \<lparr>clLimits = [], clCounts = []\<rparr>"

definition Acquire :: "string \<Rightarrow> connLimiter \<Rightarrow> bool \<times> connLimiter" where
  "Acquire user l =
     (case map_of (clLimits l) user of
        None \<Rightarrow> (True, l)
      | Some mx \<Rightarrow>
          if zget (clCounts l) user \<ge> mx then (False, l)
          else (True, l\<lparr>clCounts := gm_put user (zget (clCounts l) user + 1) (clCounts l)\<rparr>))"

definition Release :: "string \<Rightarrow> connLimiter \<Rightarrow> connLimiter" where
  "Release user l =
     (if zget (clCounts l) user > 0
      then l\<lparr>clCounts := gm_put user (zget (clCounts l) user - 1) (clCounts l)\<rparr> else l)"

text \<open>
  What the server relies on: a limiter with a count and a cap for each user, as the locale
  its session bookkeeping is proved over.
\<close>

locale session_limiter =
  fixes acquire :: "string \<Rightarrow> 'l \<Rightarrow> bool \<times> 'l"
    and release :: "string \<Rightarrow> 'l \<Rightarrow> 'l"
    and active :: "'l \<Rightarrow> string \<Rightarrow> int"
    and cap :: "'l \<Rightarrow> string \<Rightarrow> int option"
  assumes acquire_uncapped: "cap l u = None \<Longrightarrow> acquire u l = (True, l)"
    and acquire_full: "cap l u = Some m \<Longrightarrow> m \<le> active l u \<Longrightarrow> acquire u l = (False, l)"
    and acquire_room: "cap l u = Some m \<Longrightarrow> active l u < m \<Longrightarrow>
      \<exists>l'. acquire u l = (True, l') \<and> active l' = (active l)(u := active l u + 1) \<and> cap l' = cap l"
    and release_active: "active (release u l) =
      (if 0 < active l u then (active l)(u := active l u - 1) else active l)"
    and release_cap: "cap (release u l) = cap l"

definition conn_active :: "connLimiter \<Rightarrow> string \<Rightarrow> int" where
  "conn_active l = zget (clCounts l)"

definition conn_cap :: "connLimiter \<Rightarrow> string \<Rightarrow> int option" where
  "conn_cap l = map_of (clLimits l)"

lemma zget_put: "zget (gm_put k v m) = (zget m)(k := v)"
  by (auto simp: zget_def fun_eq_iff)

interpretation conns: session_limiter Acquire Release conn_active conn_cap
  by unfold_locales
    (auto simp: Acquire_def Release_def conn_active_def conn_cap_def zget_put)

text \<open>The cap of a user is the last positive \<open>max_connections\<close> configured for the name.\<close>

lemma map_of_conn_limits:
  "map_of (conn_limits us m) k =
     (case [n \<leftarrow> map uMaxConnections (filter (\<lambda>u. uUsername u = k) us). n > 0] of
        [] \<Rightarrow> map_of m k
      | ns \<Rightarrow> Some (last ns))"
proof (induction us arbitrary: m)
  case (Cons u us)
  show ?case
    by (cases "uUsername u = k"; cases "uMaxConnections u > 0")
      (auto simp: Cons.IH split: list.split)
qed simp

lemma conn_limits_pos:
  "(\<And>k v. map_of m k = Some v \<Longrightarrow> 0 < v) \<Longrightarrow> map_of (conn_limits us m) k = Some v \<Longrightarrow> 0 < v"
proof (induction us arbitrary: m k v)
  case (Cons u us)
  let ?m = "if uMaxConnections u > 0 then gm_put (uUsername u) (uMaxConnections u) m else m"
  have m: "0 < v" if "map_of ?m k = Some v" for k v
    using that Cons.prems(1) [of k v] by (simp split: if_splits)
  have run: "map_of (conn_limits us ?m) k = Some v"
    using Cons.prems(2) by (simp only: conn_limits.simps)
  show ?case by (rule Cons.IH [OF m run])
qed simp

section \<open>The registry of rate limiters\<close>

text \<open>
  The limiters are shared by pointer: connections hold the pointer they were given, and
  \<open>SetLimit\<close> and \<open>SetBurst\<close> change the bucket behind it. \<open>rgHeap\<close> is the buckets by pointer,
  \<open>rgNext\<close> the next pointer not in use.
\<close>

record 'l rateRegistry =
  rgLimits :: "(string, int) gomap"
  rgLimiters :: "(string, nat) gomap"
  rgHeap :: "nat \<Rightarrow> 'l"
  rgNext :: nat

fun rate_limits :: "userConfig list \<Rightarrow> (string, int) gomap \<Rightarrow> (string, int) gomap" where
  "rate_limits [] m = m"
| "rate_limits (u # us) m =
     rate_limits us
       (if uRateLimitBytesPerSec u > 0
        then gm_put (uUsername u) (uRateLimitBytesPerSec u) m else m)"

text \<open>The loop that deletes the limiters of users no longer limited.\<close>

definition prune_limiters :: "(string, int) gomap \<Rightarrow> (string, nat) gomap \<Rightarrow> (string, nat) gomap" where
  "prune_limiters newLimits m =
     foldl (\<lambda>m user. if map_of newLimits user = None then gm_del user m else m) m (gm_keys m)"

text \<open>The loop that changes the limiter of a user, or makes one.\<close>

definition registry_set :: "'l rate_lib \<Rightarrow> 'l rateRegistry \<Rightarrow> string \<times> int \<Rightarrow> 'l rateRegistry" where
  "registry_set lib r ub =
     (case ub of (user, bytesPerSec) \<Rightarrow>
        case map_of (rgLimiters r) user of
          Some p \<Rightarrow>
            r\<lparr>rgHeap := (rgHeap r)(p :=
                rate_SetBurst lib (limiterBurst bytesPerSec)
                  (rate_SetLimit lib bytesPerSec (rgHeap r p)))\<rparr>
        | None \<Rightarrow>
            r\<lparr>rgHeap := (rgHeap r)(rgNext r :=
                rate_NewLimiter lib bytesPerSec (limiterBurst bytesPerSec)),
              rgLimiters := gm_put user (rgNext r) (rgLimiters r),
              rgNext := rgNext r + 1\<rparr>)"

definition registry_Update :: "'l rate_lib \<Rightarrow> userConfig list \<Rightarrow> 'l rateRegistry \<Rightarrow> 'l rateRegistry" where
  "registry_Update lib users r =
     (let newLimits = rate_limits users [];
          r = r\<lparr>rgLimiters := prune_limiters newLimits (rgLimiters r)\<rparr>;
          r = foldl (registry_set lib) r (gm_range newLimits)
      in r\<lparr>rgLimits := newLimits\<rparr>)"

definition NewUserRateRegistry :: "'l rate_lib \<Rightarrow> (nat \<Rightarrow> 'l) \<Rightarrow> userConfig list \<Rightarrow> 'l rateRegistry" where
  "NewUserRateRegistry lib heap users =
     registry_Update lib users
       \<lparr>rgLimits = [], rgLimiters = [], rgHeap = heap, rgNext = 0\<rparr>"

definition registry_Limiter :: "'l rateRegistry \<Rightarrow> string \<Rightarrow> nat option" where
  "registry_Limiter r user = map_of (rgLimiters r) user"

subsection \<open>What an update leaves\<close>

lemma map_of_prune:
  "map_of (prune_limiters new m) k = (if map_of new k = None then None else map_of m k)"
proof -
  have "map_of (foldl (\<lambda>m user. if map_of new user = None then gm_del user m else m) m ks) k
      = (if map_of new k = None \<and> k \<in> set ks then None else map_of m k)" for ks
    by (induction ks arbitrary: m) auto
  then show ?thesis by (auto simp: prune_limiters_def)
qed

text \<open>Pointers in use are below \<open>rgNext\<close>, and no two users share one.\<close>

definition wf_registry :: "'l rateRegistry \<Rightarrow> bool" where
  "wf_registry r \<longleftrightarrow>
     (\<forall>u p. map_of (rgLimiters r) u = Some p \<longrightarrow> p < rgNext r) \<and>
     (\<forall>u v p. map_of (rgLimiters r) u = Some p \<longrightarrow> map_of (rgLimiters r) v = Some p \<longrightarrow> u = v)"

lemma limiters_set:
  "map_of (rgLimiters (registry_set lib r (u, n))) =
     (if map_of (rgLimiters r) u = None then (map_of (rgLimiters r))(u \<mapsto> rgNext r)
      else map_of (rgLimiters r))"
  by (simp add: registry_set_def split: option.split)

lemma wf_registry_set: "wf_registry r \<Longrightarrow> wf_registry (registry_set lib r (u, n))"
proof -
  assume r: "wf_registry r"
  show ?thesis
  proof (cases "map_of (rgLimiters r) u")
    case None
    then have "rgNext (registry_set lib r (u, n)) = rgNext r + 1" by (simp add: registry_set_def)
    moreover have "map_of (rgLimiters r) v \<noteq> Some (rgNext r)" for v
      using r unfolding wf_registry_def by (metis less_irrefl)
    ultimately show ?thesis using r None
      unfolding wf_registry_def limiters_set by (auto simp: less_SucI)
  next
    case (Some p)
    then show ?thesis using r by (simp add: wf_registry_def registry_set_def)
  qed
qed

lemma wf_registry_foldl: "wf_registry r \<Longrightarrow> wf_registry (foldl (registry_set lib) r xs)"
  by (induction xs arbitrary: r) (auto intro: wf_registry_set)

lemma wf_registry_Update: "wf_registry r \<Longrightarrow> wf_registry (registry_Update lib users r)"
proof -
  assume r: "wf_registry r"
  then have "wf_registry (r\<lparr>rgLimiters := prune_limiters new (rgLimiters r)\<rparr>)" for new
    unfolding wf_registry_def by (auto simp: map_of_prune split: if_splits)
  then have "wf_registry (foldl (registry_set lib)
      (r\<lparr>rgLimiters := prune_limiters (rate_limits users []) (rgLimiters r)\<rparr>)
      (gm_range (rate_limits users [])))"
    by (rule wf_registry_foldl)
  then show ?thesis by (simp add: registry_Update_def Let_def wf_registry_def)
qed

lemma limiters_foldl_keep:
  "map_of (rgLimiters r) k = Some p \<Longrightarrow>
     map_of (rgLimiters (foldl (registry_set lib) r xs)) k = Some p"
proof (induction xs arbitrary: r)
  case (Cons x xs)
  obtain u n where x: "x = (u, n)" by (cases x)
  have "map_of (rgLimiters (registry_set lib r x)) k = Some p"
    using Cons.prems by (auto simp: x limiters_set)
  then show ?case by (simp add: Cons.IH)
qed simp

lemma limiters_foldl_dom:
  "map_of (rgLimiters (foldl (registry_set lib) r xs)) k \<noteq> None \<longleftrightarrow>
     map_of (rgLimiters r) k \<noteq> None \<or> k \<in> fst ` set xs"
proof (induction xs arbitrary: r)
  case (Cons x xs)
  obtain u n where x: "x = (u, n)" by (cases x)
  have step: "map_of (rgLimiters (registry_set lib r x)) k \<noteq> None \<longleftrightarrow>
      map_of (rgLimiters r) k \<noteq> None \<or> k = u"
    by (simp add: x limiters_set)
  have "k \<in> fst ` set (x # xs) \<longleftrightarrow> k = u \<or> k \<in> fst ` set xs"
    by (simp add: x)
  with step Cons.IH [of "registry_set lib r x"] show ?case
    unfolding foldl_Cons by blast
qed simp

section \<open>Rate-limited reading and writing\<close>

text \<open>
  A \<open>ReadAt\<close> gives the bytes read and the error; a \<open>WriteAt\<close> the number of bytes written and
  the error. \<open>lim\<close> is the \<open>WaitN\<close> of the limiter, \<open>None\<close> for a nil one, on the state \<open>'w\<close>
  that the limiter and the wrapped reader or writer share.
\<close>

type_synonym 'w reader_at = "int \<Rightarrow> int \<Rightarrow> 'w \<Rightarrow> (string \<times> go_error option) \<times> 'w"
type_synonym 'w writer_at = "string \<Rightarrow> int \<Rightarrow> 'w \<Rightarrow> (int \<times> go_error option) \<times> 'w"

definition limited_ReadAt ::
    "(int \<Rightarrow> 'w \<Rightarrow> go_error option \<times> 'w) option \<Rightarrow> 'w reader_at \<Rightarrow> 'w reader_at" where
  "limited_ReadAt lim rd len off w =
     (case lim of
        None \<Rightarrow> rd len off w
      | Some waitN \<Rightarrow>
          (case waitN len w of
             (Some e, w') \<Rightarrow> (([], Some (Wrapf ''rate limit: %w'' [] e)), w')
           | (None, w') \<Rightarrow> rd len off w'))"

definition limited_WriteAt ::
    "(int \<Rightarrow> 'w \<Rightarrow> go_error option \<times> 'w) option \<Rightarrow> 'w writer_at \<Rightarrow> 'w writer_at" where
  "limited_WriteAt lim wr p off w =
     (case lim of
        None \<Rightarrow> wr p off w
      | Some waitN \<Rightarrow>
          (case waitN (int (length p)) w of
             (Some e, w') \<Rightarrow> ((0, Some (Wrapf ''rate limit: %w'' [] e)), w')
           | (None, w') \<Rightarrow> wr p off w'))"

subsection \<open>What methods the wrappers have\<close>

text \<open>
  The method set of a Go type: an interface has the methods it lists, a struct the methods
  declared on it and those promoted from the types of its embedded fields. An embedded interface
  promotes the interface's methods only, whatever value it holds.
\<close>

datatype go_type = Interface "string list" | Struct "string list" "go_type list"

primrec method_set :: "go_type \<Rightarrow> string list" where
  "method_set (Interface ms) = ms"
| "method_set (Struct ms embedded) = ms @ concat (map method_set embedded)"

definition implements :: "string list \<Rightarrow> go_type \<Rightarrow> bool" where
  "implements ms t \<longleftrightarrow> list_all (\<lambda>m. m \<in> set (method_set t)) ms"

definition io_WriterAt :: go_type where
  "io_WriterAt = Interface [''WriteAt'']"

definition type_RateLimitedWriter :: go_type where
  "type_RateLimitedWriter = Struct [''WriteAt''] [io_WriterAt]"

end
