(* ===== verification/Commands.thy ===== *)
theory Commands
  imports HandlerBase Ratelimit
begin

text \<open>
  The commands of \<open>internal/sftphandlers/handlers.go\<close>: \<open>Filecmd\<close> with remove, mkdir, rename
  and copy, within a backend and across backends. \<open>fuel\<close> bounds the pages of a listing.
\<close>

section \<open>Copies\<close>

text \<open>
  The loop over the pages of a listing, with one copy for each object:
  \<open>paginator.HasMorePages\<close> around \<open>range page.Contents\<close>.
\<close>

definition copy_tree :: "handlers \<Rightarrow> nat \<Rightarrow> 's s3_api \<Rightarrow> backend \<Rightarrow> string
    \<Rightarrow> (string \<Rightarrow> string \<Rightarrow> ('s world, unit) act) \<Rightarrow> string \<Rightarrow> ('s world, unit) act" where
  "copy_tree h fuel api b oldDirPrefix copy newDirPrefix =
     page_loop fuel (nextListPage h api b oldDirPrefix [])
       (\<lambda>page _. forE (\<lambda>ob.
          let srcKey = lo_Key ob;
              suf = trim_prefix srcKey oldDirPrefix
          in copy srcKey (newDirPrefix @ suf)) (lp_Contents page))
       None ()"

definition sameBackendCopy :: "handlers \<Rightarrow> nat \<Rightarrow> 's s3_api \<Rightarrow> backend \<Rightarrow> string \<Rightarrow> string
    \<Rightarrow> ('s world, unit) act" where
  "sameBackendCopy h fuel api b oldKey newKey =
     (let oldObjKey = ObjectKey b oldKey; newObjKey = ObjectKey b newKey in
      bindE (h_objectExists h api b oldObjKey) (\<lambda>isFile.
      if isFile then h_copyObject h api b oldObjKey newObjKey
      else let oldDirPrefix = DirPrefix b oldKey in
        bindE (h_prefixHasEntries h api b oldDirPrefix) (\<lambda>hasChildren.
        if \<not> hasChildren then
          bindE (h_objectExists h api b oldDirPrefix) (\<lambda>exists.
          if \<not> exists then failE ErrNotExist
          else h_copyObject h api b oldDirPrefix (DirPrefix b newKey))
        else copy_tree h fuel api b oldDirPrefix (h_copyObject h api b) (DirPrefix b newKey))))"

text \<open>
  One object across backends, streamed through a pipe. The context of the request is
  cancelled before the body is read. The upload takes the body from the pipe; where it stops
  before it has read all bytes, the copying side sees the upload's error, or a closed pipe
  when there is none. The two sides run at once; their effects on the metrics commute.
\<close>

definition streamCopyObject :: "handlers \<Rightarrow> 's s3_api \<Rightarrow> backend \<Rightarrow> string \<Rightarrow> backend \<Rightarrow> string
    \<Rightarrow> ('s world, unit) act" where
  "streamCopyObject h api srcB srcKey dstB dstKey w =
     (case api_GetObject api (bClient srcB) (bBucket srcB) srcKey None (wStore w) of
        (Inl e, s) \<Rightarrow> (Inl (S3 e), w\<lparr>wStore := s\<rparr>)
      | (Inr out, s) \<Rightarrow>
          let sz = aws_ToInt64 (go_ContentLength out);
              body = go_Body out True
          in case api_Upload api (bClient dstB) (bBucket dstB) dstKey body s of
            ((up, drained), s) \<Rightarrow>
              let w = recordS3Op (hMetrics h) ''PutObject'' dstB (isl up) (w\<lparr>wStore := s\<rparr>);
                  w = (if hMetrics h \<and> \<not> isl up
                       then w\<lparr>wMetrics := AddUploadBytes sz (wMetrics w)\<rparr> else w);
                  copyErr = (if drained \<or> fst body = [] then snd body
                             else case up of Inl e \<Rightarrow> Some e | Inr _ \<Rightarrow> Some ErrClosedPipe);
                  w = recordS3Op (hMetrics h) ''GetObject'' srcB (copyErr \<noteq> None) w;
                  w = (if hMetrics h \<and> copyErr = None
                       then w\<lparr>wMetrics := AddDownloadBytes (int (length (fst body))) (wMetrics w)\<rparr>
                       else w)
              in case copyErr of
                Some e \<Rightarrow> (Inl e, w)
              | None \<Rightarrow> (case up of Inl e \<Rightarrow> (Inl e, w) | Inr _ \<Rightarrow> (Inr (), w)))"

definition crossBackendCopy :: "handlers \<Rightarrow> nat \<Rightarrow> 's s3_api \<Rightarrow> backend \<Rightarrow> string \<Rightarrow> backend \<Rightarrow> string
    \<Rightarrow> ('s world, unit) act" where
  "crossBackendCopy h fuel api srcB srcKey dstB dstKey =
     (let srcObjKey = ObjectKey srcB srcKey; dstObjKey = ObjectKey dstB dstKey in
      bindE (h_objectExists h api srcB srcObjKey) (\<lambda>isFile.
      if isFile then streamCopyObject h api srcB srcObjKey dstB dstObjKey
      else let srcDirPrefix = DirPrefix srcB srcKey in
        bindE (h_prefixHasEntries h api srcB srcDirPrefix) (\<lambda>hasChildren.
        if \<not> hasChildren then
          bindE (h_objectExists h api srcB srcDirPrefix) (\<lambda>exists.
          if \<not> exists then failE ErrNotExist
          else streamCopyObject h api srcB srcDirPrefix dstB (DirPrefix dstB dstKey))
        else copy_tree h fuel api srcB srcDirPrefix
               (\<lambda>sk. streamCopyObject h api srcB sk dstB) (DirPrefix dstB dstKey))))"

definition handleCopy :: "handlers \<Rightarrow> nat \<Rightarrow> 's s3_api \<Rightarrow> string \<Rightarrow> string \<Rightarrow> ('s world, unit) act" where
  "handleCopy h fuel api srcPath dstPath =
     bindE (liftE (h_resolve h srcPath)) (\<lambda>(srcBackend, srcKey).
     bindE (liftE (h_resolve h dstPath)) (\<lambda>(dstBackend, dstKey).
       case (srcBackend, dstBackend) of
         (Some sb, Some db) \<Rightarrow>
           if bName sb \<noteq> bName db then crossBackendCopy h fuel api sb srcKey db dstKey
           else sameBackendCopy h fuel api sb srcKey dstKey
       | _ \<Rightarrow> failE (Errorf ''cannot copy root'' [])))"

section \<open>Renames\<close>

text \<open>The second half of both renames: the source goes.\<close>

definition remove_source :: "handlers \<Rightarrow> nat \<Rightarrow> 's s3_api \<Rightarrow> backend \<Rightarrow> string \<Rightarrow> ('s world, unit) act" where
  "remove_source h fuel api b oldKey =
     (let oldObjKey = ObjectKey b oldKey in
      bindE (h_objectExists h api b oldObjKey) (\<lambda>isFile.
      if isFile then h_deleteObject h api b oldObjKey
      else h_deletePrefix h fuel api b (DirPrefix b oldKey)))"

definition sameBackendRename :: "handlers \<Rightarrow> nat \<Rightarrow> 's s3_api \<Rightarrow> backend \<Rightarrow> string \<Rightarrow> string
    \<Rightarrow> ('s world, unit) act" where
  "sameBackendRename h fuel api b oldKey newKey =
     thenE (sameBackendCopy h fuel api b oldKey newKey) (remove_source h fuel api b oldKey)"

definition crossBackendRename :: "handlers \<Rightarrow> nat \<Rightarrow> 's s3_api \<Rightarrow> backend \<Rightarrow> string \<Rightarrow> backend \<Rightarrow> string
    \<Rightarrow> ('s world, unit) act" where
  "crossBackendRename h fuel api srcB srcKey dstB dstKey =
     thenE (crossBackendCopy h fuel api srcB srcKey dstB dstKey) (remove_source h fuel api srcB srcKey)"

definition handleRename :: "handlers \<Rightarrow> nat \<Rightarrow> 's s3_api \<Rightarrow> string \<Rightarrow> string \<Rightarrow> ('s world, unit) act" where
  "handleRename h fuel api oldPath newPath =
     bindE (liftE (h_resolve h oldPath)) (\<lambda>(oldBackend, oldKey).
     bindE (liftE (h_resolve h newPath)) (\<lambda>(newBackend, newKey).
       case (oldBackend, newBackend) of
         (Some ob, Some nb) \<Rightarrow>
           thenE (liftE (requireDelete (hPerms h)))
           (thenE (liftE (requireWrite (hPerms h)))
             (let crossBackend = bName ob \<noteq> bName nb in
              thenE (if crossBackend then liftE (requireRead (hPerms h)) else retE ())
                (if crossBackend then crossBackendRename h fuel api ob oldKey nb newKey
                 else sameBackendRename h fuel api ob oldKey newKey)))
       | _ \<Rightarrow> failE (Errorf ''cannot rename root'' [])))"

section \<open>The dispatcher\<close>

definition cmd_remove :: "handlers \<Rightarrow> nat \<Rightarrow> 's s3_api \<Rightarrow> string \<Rightarrow> ('s world, unit) act" where
  "cmd_remove h fuel api p =
     thenE (liftE (requireDelete (hPerms h)))
     (bindE (liftE (h_resolve h p)) (\<lambda>(bo, key).
        case bo of
          None \<Rightarrow> failE (Errorf ''cannot remove root'' [])
        | Some b \<Rightarrow>
            if key = [] then failE (Errorf ''cannot remove root'' [])
            else let objKey = ObjectKey b key in
              bindE (h_objectExists h api b objKey) (\<lambda>exists.
              bindE (h_prefixHasEntries h api b (DirPrefix b key)) (\<lambda>hasChildren.
              if \<not> exists \<and> \<not> hasChildren then failE ErrNotExist
              else thenE (if exists then h_deleteObject h api b objKey else retE ())
                (if hasChildren then h_deletePrefix h fuel api b (DirPrefix b key) else retE ())))))"

definition cmd_mkdir :: "handlers \<Rightarrow> 's s3_api \<Rightarrow> string \<Rightarrow> ('s world, unit) act" where
  "cmd_mkdir h api p =
     thenE (liftE (requireWrite (hPerms h)))
     (bindE (liftE (h_resolve h p)) (\<lambda>(bo, key).
        case bo of
          None \<Rightarrow> failE (Errorf ''cannot create top-level folders'' [])
        | Some b \<Rightarrow>
            if key = [] then retE ()
            else timedS3Op h ''PutObject'' b
              (s3call (api_PutObject api (bClient b) (bBucket b) (DirPrefix b key) []))))"

definition Filecmd :: "handlers \<Rightarrow> nat \<Rightarrow> 's s3_api \<Rightarrow> request \<Rightarrow> ('s world, unit) act" where
  "Filecmd h fuel api r =
     (if rMethod r = ''Setstat'' then retE ()
      else if rMethod r = ''Rename'' then handleRename h fuel api (rFilepath r) (rTarget r)
      else if rMethod r = ''Copy'' then
        thenE (liftE (requireRead (hPerms h)))
        (thenE (liftE (requireWrite (hPerms h)))
          (handleCopy h fuel api (rFilepath r) (rTarget r)))
      else if rMethod r = ''Rmdir'' \<or> rMethod r = ''Remove'' then cmd_remove h fuel api (rFilepath r)
      else if rMethod r = ''Mkdir'' then cmd_mkdir h api (rFilepath r)
      else failE OpUnsupported)"

lemmas command_defs = sameBackendCopy_def crossBackendCopy_def handleCopy_def remove_source_def
  sameBackendRename_def crossBackendRename_def handleRename_def cmd_remove_def cmd_mkdir_def
  copy_tree_def

section \<open>Every command keeps the metrics in order\<close>

lemma metrics_ok_stream: "within metrics_ok (streamCopyObject h api sb sk db dk)"
  by (rule withinI) (auto simp: streamCopyObject_def Let_def
      split: prod.splits sum.splits option.splits)

text \<open>
  The rule for any relation the commands keep: it is enough that the calls they may make keep
  it, under the permissions and at the keys they make them.
\<close>

definition mounts :: "handlers \<Rightarrow> backend set" where
  "mounts h = {b. \<exists>name. lookup (hVfs h) name = Some b}"

lemma within_require:
  assumes "reflp R" and "transp R"
  shows "(pRead p \<Longrightarrow> within R m) \<Longrightarrow> within R (thenE (liftE (requireRead p)) m)"
    and "(pWrite p \<Longrightarrow> within R m) \<Longrightarrow> within R (thenE (liftE (requireWrite p)) m)"
    and "(pDelete p \<Longrightarrow> within R m) \<Longrightarrow> within R (thenE (liftE (requireDelete p)) m)"
  using assms by (auto intro!: within_bindE' within_liftE simp: require_defs act_simps split: if_splits)

lemma within_resolve:
  assumes "reflp R" and "transp R"
    and "\<And>bo key. h_resolve h p = Inr (bo, key) \<Longrightarrow> within R (f (bo, key))"
  shows "within R (bindE (liftE (h_resolve h p)) f)"
  using assms by (auto intro!: within_bindE' within_liftE simp: act_simps)

lemma within_Filecmd:
  fixes R :: "'s world \<Rightarrow> 's world \<Rightarrow> bool" and api :: "'s s3_api"
  assumes R: "reflp R" "transp R"
    and probe: "\<And>b k. b \<in> mounts h \<Longrightarrow> within R (h_objectExists h api b k)"
      "\<And>b k. b \<in> mounts h \<Longrightarrow> within R (h_prefixHasEntries h api b k)"
      "\<And>b p d tok. b \<in> mounts h \<Longrightarrow> within R (nextListPage h api b p d tok)"
    and copy: "\<And>b key src suf. b \<in> mounts h \<Longrightarrow> pWrite (hPerms h) \<Longrightarrow>
        within R (h_copyObject h api b src (ObjectKey b key)) \<and>
        within R (h_copyObject h api b src (DirPrefix b key @ suf))"
    and stream: "\<And>sb db src key suf. sb \<in> mounts h \<Longrightarrow> db \<in> mounts h \<Longrightarrow>
        pRead (hPerms h) \<Longrightarrow> pWrite (hPerms h) \<Longrightarrow>
        within R (streamCopyObject h api sb src db (ObjectKey db key)) \<and>
        within R (streamCopyObject h api sb src db (DirPrefix db key @ suf))"
    and delete: "\<And>b key. b \<in> mounts h \<Longrightarrow> pDelete (hPerms h) \<Longrightarrow>
        within R (h_deleteObject h api b (ObjectKey b key)) \<and>
        within R (h_deletePrefix h fuel api b (DirPrefix b key))"
    and put: "\<And>b key. b \<in> mounts h \<Longrightarrow> pWrite (hPerms h) \<Longrightarrow>
        within R (timedS3Op h ''PutObject'' b
          (s3call (api_PutObject api (bClient b) (bBucket b) (DirPrefix b key) [])))"
  shows "within R (Filecmd h fuel api r)"
proof -
  note [intro!] = within_bindE [OF R(2)] within_retE [OF R(1)] within_failE [OF R(1)]
    within_liftE [OF R(1)] within_require [OF R] within_resolve [OF R]
  have mnt: "b \<in> mounts h" if "h_resolve h p = Inr (Some b, key)" for p b key
    using h_resolve_Some [OF that] by (auto simp: mounts_def)
  have tree: "within R (copy_tree h fuel api b p cp q)"
    if "b \<in> mounts h" and "\<And>sk suf. within R (cp sk (q @ suf))" for b p cp q
    unfolding copy_tree_def Let_def
    by (intro within_page_loop R probe(3) within_forE that)
  have same: "within R (sameBackendCopy h fuel api b o1 n1)"
    if b: "b \<in> mounts h" and w: "pWrite (hPerms h)" for b o1 n1
    unfolding sameBackendCopy_def Let_def
    using copy [OF b w, of _ n1] copy [OF b w, of _ n1 "[]"] probe [OF b] tree [OF b] by auto
  have cross: "within R (crossBackendCopy h fuel api sb o1 db n1)"
    if b: "sb \<in> mounts h" "db \<in> mounts h" and w: "pRead (hPerms h)" "pWrite (hPerms h)"
    for sb db o1 n1
    unfolding crossBackendCopy_def Let_def
    using stream [OF b w, of _ n1] stream [OF b w, of _ n1 "[]"] probe [OF b(1)] tree [OF b(1)] by auto
  have rem: "within R (remove_source h fuel api b o1)"
    if b: "b \<in> mounts h" and w: "pDelete (hPerms h)" for b o1
    unfolding remove_source_def Let_def using delete [OF b w] probe [OF b] by auto
  have "within R (handleCopy h fuel api p q)" if "pRead (hPerms h)" "pWrite (hPerms h)" for p q
    unfolding handleCopy_def
    by (auto split: option.split intro!: same cross that mnt)
  moreover have "within R (handleRename h fuel api p q)" for p q
    unfolding handleRename_def sameBackendRename_def crossBackendRename_def Let_def
    by (auto split: option.split intro!: same cross rem mnt)
  moreover have "within R (cmd_remove h fuel api p)" for p
    unfolding cmd_remove_def Let_def
    by (auto split: option.split dest!: mnt intro!: probe delete [THEN conjunct1] delete [THEN conjunct2])
  moreover have "within R (cmd_mkdir h api p)" for p
    unfolding cmd_mkdir_def
    by (auto split: option.split dest!: mnt intro!: put)
  ultimately show ?thesis unfolding Filecmd_def by auto
qed

end
