(* ===== verification/CommandSpec.thy ===== *)
theory CommandSpec
  imports Commands
begin

text \<open>
  What the commands do to the objects of the store, under the contract of the S3 service:
  copying a tree, renaming, removing, and how much fuel the listings need.
\<close>

section \<open>Copying a tree\<close>

text \<open>
  \<open>copied v sb p db q K\<close>: the objects \<open>v\<close> after those of \<open>sb\<close> at the keys \<open>K\<close> under \<open>p\<close> have
  been copied to \<open>db\<close> under \<open>q\<close>.
\<close>

definition copied :: "(loc \<Rightarrow> string option) \<Rightarrow> backend \<Rightarrow> string \<Rightarrow> backend \<Rightarrow> string \<Rightarrow> string set
    \<Rightarrow> loc \<Rightarrow> string option" where
  "copied v sb p db q K = (\<lambda>(c, bk, k).
     if c = bClient db \<and> bk = bBucket db \<and> prefix q k \<and> p @ drop (length q) k \<in> K
     then v (loc_of sb (p @ drop (length q) k)) else v (c, bk, k))"

definition disjoint_trees :: "backend \<Rightarrow> string \<Rightarrow> backend \<Rightarrow> string \<Rightarrow> bool" where
  "disjoint_trees sb p db q \<longleftrightarrow> locs sb (under p) \<inter> locs db (under q) = {}"

lemma copied_empty [simp]: "copied v sb p db q {} = v"
  by (auto simp: copied_def)

lemma copied_at [simp]:
  "copied v sb p db q K (loc_of db (q @ suf)) =
     (if p @ suf \<in> K then v (loc_of sb (p @ suf)) else v (loc_of db (q @ suf)))"
  by (simp add: copied_def loc_of_def)

lemma copied_off: "l \<notin> locs db (under q) \<Longrightarrow> copied v sb p db q K l = v l"
  by (auto simp: copied_def locs_def split: prod.splits)

lemma copied_source:
  "disjoint_trees sb p db q \<Longrightarrow> copied v sb p db q K (loc_of sb (p @ suf)) = v (loc_of sb (p @ suf))"
proof (rule copied_off)
  assume "disjoint_trees sb p db q"
  moreover have "loc_of sb (p @ suf) \<in> locs sb (under p)" by simp
  ultimately show "loc_of sb (p @ suf) \<notin> locs db (under q)"
    unfolding disjoint_trees_def by blast
qed

lemma copied_insert:
  assumes "v (loc_of sb (p @ suf)) = Some d"
  shows "(copied v sb p db q K)(loc_of db (q @ suf) \<mapsto> d) = copied v sb p db q (insert (p @ suf) K)"
proof
  fix l
  show "((copied v sb p db q K)(loc_of db (q @ suf) \<mapsto> d)) l
      = copied v sb p db q (insert (p @ suf) K) l"
  proof (cases "l \<in> locs db (under q)")
    case True
    then obtain s where l: "l = loc_of db (q @ s)"
      by (auto simp: locs_def loc_of_def prefix_def)
    show ?thesis using assms by (cases "s = suf") (simp_all add: l)
  next
    case False
    then have "l \<noteq> loc_of db (q @ suf)" by auto
    with False show ?thesis by (simp add: copied_off)
  qed
qed

text \<open>
  What the two ways of copying one object have in common: on success the object is copied,
  on an error it may have been.
\<close>

definition copier :: "('w \<Rightarrow> loc \<Rightarrow> string option) \<Rightarrow> (string \<Rightarrow> string \<Rightarrow> ('w, unit) act)
    \<Rightarrow> backend \<Rightarrow> backend \<Rightarrow> bool" where
  "copier V copy sb db \<longleftrightarrow>
     (\<forall>sk dk w r w'. copy sk dk w = (r, w') \<longrightarrow>
        (case r of
           Inr _ \<Rightarrow> \<exists>d. V w (loc_of sb sk) = Some d \<and> V w' = (V w)(loc_of db dk \<mapsto> d)
         | Inl e \<Rightarrow> e \<noteq> OutOfFuel \<and> (V w' = V w \<or>
             (\<exists>d. V w (loc_of sb sk) = Some d \<and> V w' = (V w)(loc_of db dk \<mapsto> d)))))"

lemma copier_Inr:
  "copier V copy sb db \<Longrightarrow> copy sk dk w = (Inr u, w') \<Longrightarrow>
     \<exists>d. V w (loc_of sb sk) = Some d \<and> V w' = (V w)(loc_of db dk \<mapsto> d)"
  unfolding copier_def by fastforce

lemma copier_Inl:
  "copier V copy sb db \<Longrightarrow> copy sk dk w = (Inl e, w') \<Longrightarrow>
     e \<noteq> OutOfFuel \<and> (V w' = V w \<or>
       (\<exists>d. V w (loc_of sb sk) = Some d \<and> V w' = (V w)(loc_of db dk \<mapsto> d)))"
  unfolding copier_def by fastforce

lemma within_copier:
  assumes "copier V copy sb db" and "loc_of db dk \<in> L"
  shows "within (agree_off V L) (copy sk dk)"
proof (rule withinI)
  fix w r w' assume "copy sk dk w = (r, w')"
  with assms(1) show "agree_off V L w w'"
    using assms(2) unfolding copier_def
    by (cases r) (fastforce simp: agree_off_def)+
qed

text \<open>The inner loop: one page of objects.\<close>

lemma copy_page:
  assumes c: "copier V copy sb db" and dis: "disjoint_trees sb p db q"
  shows "\<forall>ob\<in>set obs. prefix p (lo_Key ob) \<Longrightarrow> V w = copied v sb p db q K \<Longrightarrow>
    forE (\<lambda>ob. copy (lo_Key ob) (q @ trim_prefix (lo_Key ob) p)) obs w = (Inr u, w') \<Longrightarrow>
    V w' = copied v sb p db q (K \<union> lo_Key ` set obs)"
proof (induction obs arbitrary: w K)
  case Nil
  then show ?case by (simp add: retE_eq)
next
  case (Cons ob obs)
  from Cons.prems(1) obtain suf where k: "lo_Key ob = p @ suf" by (auto simp: prefix_def)
  from Cons.prems(3) obtain u1 w1 where one: "copy (lo_Key ob) (q @ suf) w = (Inr u1, w1)"
    and rest: "forE (\<lambda>ob. copy (lo_Key ob) (q @ trim_prefix (lo_Key ob) p)) obs w1 = (Inr u, w')"
    by (auto simp: act_simps k)
  from copier_Inr [OF c one] obtain d where d: "V w (loc_of sb (p @ suf)) = Some d"
    and w1: "V w1 = (V w)(loc_of db (q @ suf) \<mapsto> d)" by (auto simp: k)
  have "v (loc_of sb (p @ suf)) = Some d"
    using d unfolding Cons.prems(2) copied_source [OF dis] .
  then have "V w1 = copied v sb p db q (insert (p @ suf) K)"
    unfolding w1 Cons.prems(2) by (rule copied_insert)
  from Cons.IH [OF _ this rest] Cons.prems(1) show ?case by (simp add: k)
qed

context s3_service
begin

subsection \<open>The metered calls\<close>

lemma w_exists_Inr:
  "mounted_b b \<Longrightarrow> h_objectExists h api b k w = (Inr x, w') \<Longrightarrow>
     wview view w' = wview view w \<and> (x \<longleftrightarrow> wview view w (loc_of b k) \<noteq> None)"
  unfolding h_objectExists_def wview_def by (auto dest!: timedS3Op_run dest: ObjectExists_Inr)

lemma w_exists_Inl:
  "mounted_b b \<Longrightarrow> h_objectExists h api b k w = (Inl e, w') \<Longrightarrow>
     wview view w' = wview view w \<and> e \<noteq> OutOfFuel"
  unfolding h_objectExists_def wview_def by (auto dest!: timedS3Op_run dest: ObjectExists_Inl)

lemma w_entries_Inr:
  "mounted_b b \<Longrightarrow> h_prefixHasEntries h api b p w = (Inr x, w') \<Longrightarrow>
     wview view w' = wview view w \<and> (x \<longleftrightarrow> keys_of (wview view w) b \<inter> under p \<noteq> {})"
  unfolding h_prefixHasEntries_def wview_def by (drule timedS3Op_run) (rule PrefixHasEntries_Inr)

lemma w_entries_Inl:
  "mounted_b b \<Longrightarrow> h_prefixHasEntries h api b p w = (Inl e, w') \<Longrightarrow>
     wview view w' = wview view w \<and> e \<noteq> OutOfFuel"
  unfolding h_prefixHasEntries_def wview_def by (drule timedS3Op_run) (rule PrefixHasEntries_Inl)

lemma w_delete_Inr:
  "mounted_b b \<Longrightarrow> h_deleteObject h api b k w = (Inr u, w') \<Longrightarrow>
     wview view w' = (wview view w)(loc_of b k := None)"
  unfolding h_deleteObject_def wview_def by (drule timedS3Op_run) (rule DeleteObject_Inr)

lemma w_deletePrefix_Inr:
  "mounted_b b \<Longrightarrow> remembers api N \<Longrightarrow> h_deletePrefix h n api b p w = (Inr u, w') \<Longrightarrow>
     cleared (locs b (under p)) (N (wStore w')) (wview view w) (wview view w')"
  unfolding h_deletePrefix_def wview_def by (drule timedS3Op_run) (rule DeletePrefix_Inr)

lemma w_list_Inr:
  assumes "mounted_b b" and "nextListPage h api b p d tok w = (Inr page, w')"
  shows "wview view w' = wview view w"
    and "page_ok pending tok (items p d (keys_of (wview view w) b)) page"
    and "\<forall>ob\<in>set (lp_Contents page). \<exists>x. wview view w (loc_of b (lo_Key ob)) = Some x
      \<and> lo_Size ob = Some (int (length x))"
proof -
  from assms(2) have "list_page api b p d tok (wStore w) = (Inr page, wStore w')"
    unfolding nextListPage_def by (rule timedS3Op_run)
  from list_page_Inr [OF assms(1) this] show "wview view w' = wview view w"
    and "page_ok pending tok (items p d (keys_of (wview view w) b)) page"
    and "\<forall>ob\<in>set (lp_Contents page). \<exists>x. wview view w (loc_of b (lo_Key ob)) = Some x
      \<and> lo_Size ob = Some (int (length x))"
    by (simp_all add: wview_def)
qed

lemma w_list_fuel: "nextListPage h api b p d tok w = (Inl e, w') \<Longrightarrow> e \<noteq> OutOfFuel"
  unfolding nextListPage_def by (drule timedS3Op_run) (rule list_page_fuel)

lemma copier_copyObject:
  "mounted_b b \<Longrightarrow> copier (wview view) (h_copyObject h api b) b b"
  unfolding copier_def h_copyObject_def wview_def
  by (auto split: sum.split dest!: timedS3Op_run dest: CopyObject_Inr CopyObject_Inl)

lemma stream_run:
  assumes "streamCopyObject h api sb sk db dk w = (r, w')"
  obtains e s where "api_GetObject api (bClient sb) (bBucket sb) sk None (wStore w) = (Inl e, s)"
      "r = Inl (S3 e)" "wStore w' = s"
  | out s up drained where
      "api_GetObject api (bClient sb) (bBucket sb) sk None (wStore w) = (Inr out, s)"
      "api_Upload api (bClient db) (bBucket db) dk (go_Body out True) s = ((up, drained), wStore w')"
      "\<And>u. r = Inr u \<Longrightarrow> snd (go_Body out True) = None \<or> \<not> isl up" "\<And>u. r = Inr u \<Longrightarrow> \<not> isl up"
      "\<And>e. r = Inl e \<Longrightarrow> snd (go_Body out True) = Some e \<or> up = Inl e \<or> e = ErrClosedPipe \<and> \<not> drained"
proof -
  obtain g s where get: "api_GetObject api (bClient sb) (bBucket sb) sk None (wStore w) = (g, s)"
    by fastforce
  show ?thesis
  proof (cases g)
    case (Inl e)
    then show ?thesis using assms get that(1) [of e s] by (auto simp: streamCopyObject_def)
  next
    case (Inr out)
    obtain up dr s2 where "api_Upload api (bClient db) (bBucket db) dk (go_Body out True) s = ((up, dr), s2)"
      by (metis prod.collapse)
    then show ?thesis
      using assms get that(2) [of out s up dr] Inr
      by (cases up) (auto simp: streamCopyObject_def Let_def split: option.splits if_splits)
  qed
qed

lemma copier_stream:
  assumes sb: "mounted_b sb" and db: "mounted_b db"
  shows "copier (wview view) (\<lambda>sk. streamCopyObject h api sb sk db) sb db"
  unfolding copier_def
proof (intro allI impI)
  fix sk dk w r w' assume run: "streamCopyObject h api sb sk db dk w = (r, w')"
  show "case r of
      Inr _ \<Rightarrow> \<exists>d. wview view w (loc_of sb sk) = Some d
        \<and> wview view w' = (wview view w)(loc_of db dk \<mapsto> d)
    | Inl e \<Rightarrow> e \<noteq> OutOfFuel \<and> (wview view w' = wview view w \<or>
        (\<exists>d. wview view w (loc_of sb sk) = Some d
          \<and> wview view w' = (wview view w)(loc_of db dk \<mapsto> d)))"
    using run
  proof (cases rule: stream_run)
    case (1 e s)
    then show ?thesis using get_frame [OF sb 1(1)] by (simp add: wview_def)
  next
    case (2 out s up drained)
    obtain d' de where b: "go_Body out True = (d', de)" by (metis prod.collapse)
    from get_ok [OF sb 2(1)] obtain d where d: "view (wStore w) (loc_of sb sk) = Some d"
      and rd: "reads d (go_Body out True)" by (fastforce simp: loc_of_def)
    from rd b have d': "de = None \<Longrightarrow> d' = d" by (simp add: reads_def)
    have vs: "view s = view (wStore w)" by (rule get_frame [OF sb 2(1)])
    have mark: "de \<noteq> Some OutOfFuel" using get_marks [OF 2(1), of True] b by simp
    note up = 2(2) [unfolded b]
    show ?thesis
    proof (cases up)
      case (Inl ue)
      from upload_err [OF db up [unfolded Inl]] d' vs
      have "view (wStore w') = view (wStore w)
          \<or> view (wStore w') = (view (wStore w))(loc_of db dk \<mapsto> d)"
        by (auto simp: loc_of_def)
      moreover obtain e where r: "r = Inl e" "e \<noteq> OutOfFuel"
        using 2(4,5) mark upload_marks [OF up [unfolded Inl] mark] b Inl by (cases r) auto
      ultimately show ?thesis unfolding r(1) sum.case wview_def using r(2) d by blast
    next
      case (Inr u)
      from upload_ok [OF db up [unfolded Inr]] d' vs
      have "view (wStore w') = (view (wStore w))(loc_of db dk \<mapsto> d)"
        by (auto simp: loc_of_def)
      then show ?thesis using d 2(5) mark b Inr by (auto simp: wview_def split: sum.split)
    qed
  qed
qed

subsection \<open>Copies of trees\<close>

lemma copied_keys:
  assumes "disjoint_trees sb p db q"
  shows "keys_of (copied v sb p db q K) sb \<inter> under p = keys_of v sb \<inter> under p"
  using copied_source [OF assms] by (auto simp: keys_of_def prefix_def)

lemma got_under:
  assumes "got page \<subseteq> items p [] K"
  shows "\<forall>ob\<in>set (lp_Contents page). prefix p (lo_Key ob)"
proof
  fix ob assume "ob \<in> set (lp_Contents page)"
  then have "Obj (lo_Key ob) \<in> items p [] K" using assms by (auto simp: got_def)
  then show "prefix p (lo_Key ob)" unfolding items_plain by auto
qed

lemma items_copied:
  "disjoint_trees sb p db q \<Longrightarrow>
     items p [] (keys_of (copied v sb p db q K) sb) = items p [] (keys_of v sb)"
  by (simp only: items_plain copied_keys)

lemma copy_tree_Inr:
  assumes sb: "mounted_b sb" and c: "copier (wview view) copy sb db"
    and dis: "disjoint_trees sb p db q"
    and run: "copy_tree h n api sb p copy q w = (Inr u, w')"
  shows "wview view w' = copied (wview view w) sb p db q (keys_of (wview view w) sb \<inter> under p)"
proof -
  let ?v = "wview view w"
  let ?I = "items p [] (keys_of ?v sb)"
  let ?Inv = "\<lambda>(_::unit) D x. \<exists>K. D = Obj ` K \<and> wview view x = copied ?v sb p db q K"
  let ?body = "\<lambda>page (_::unit). forE (\<lambda>ob. let srcKey = lo_Key ob; suf = trim_prefix srcKey p
      in copy srcKey (q @ suf)) (lp_Contents page)"
  have "?Inv u ?I w'"
  proof (rule page_loop_inv [where Inv = ?Inv and I = ?I and Pg = "\<lambda>_ _. True"
        and pending = pending and D = "{}", OF _ _ run [unfolded copy_tree_def]])
    fix tok acc D x page x'
    assume i: "?Inv acc D x" and nx: "nextListPage h api sb p [] tok x = (Inr page, x')"
    then obtain K where K: "D = Obj ` K" "wview view x = copied ?v sb p db q K" by blast
    have "page_ok pending tok ?I page"
      using w_list_Inr(2) [OF sb nx] unfolding K(2) items_copied [OF dis] .
    then show "page_ok pending tok ?I page \<and> ?Inv acc D x' \<and> True"
      using i w_list_Inr(1) [OF sb nx] by simp
  next
    fix page acc D x acc' x'
    assume "?Inv acc D x" and g: "got page \<subseteq> ?I" and bd: "?body page acc x = (Inr acc', x')"
    then obtain K where K: "D = Obj ` K" "wview view x = copied ?v sb p db q K" by blast
    have gp: "got page = Obj ` lo_Key ` set (lp_Contents page)" by (rule got_plain [OF g])
    from copy_page [OF c dis got_under [OF g] K(2)] bd
    have "wview view x' = copied ?v sb p db q (K \<union> lo_Key ` set (lp_Contents page))"
      by (simp add: Let_def)
    then show "?Inv acc' (D \<union> got page) x'" unfolding K(1) gp image_Un [symmetric] by blast
  next
    show "?Inv () {} w" by (intro exI [of _ "{}"]) simp
  qed (simp add: pending_all)
  then show ?thesis unfolding items_plain by (auto simp: inj_image_eq_iff inj_def)
qed

lemma copy_tree_fuel:
  assumes sb: "mounted_b sb" and c: "copier (wview view) copy sb db"
    and dis: "disjoint_trees sb p db q"
    and n: "card (keys_of (wview view w) sb \<inter> under p) < n"
  shows "copy_tree h n api sb p copy q w \<noteq> (Inl OutOfFuel, w')"
proof -
  let ?v = "wview view w"
  let ?I = "items p [] (keys_of ?v sb)"
  let ?Inv = "\<lambda>(_::unit) D x. \<exists>K. wview view x = copied ?v sb p db q K"
  let ?body = "\<lambda>page (_::unit). forE (\<lambda>ob. let srcKey = lo_Key ob; suf = trim_prefix srcKey p
      in copy srcKey (q @ suf)) (lp_Contents page)"
  have fin: "finite ?I" unfolding items_plain using finite_keys_of [of "wStore w" sb]
    by (simp add: wview_def)
  have cd: "card (pending None ?I) < n"
    using n by (simp add: pending_all items_plain card_image inj_on_def)
  show ?thesis unfolding copy_tree_def
  proof (rule page_loop_fuel [where Inv = ?Inv and I = ?I and Pg = "\<lambda>_ _. True"
        and pending = pending and D = "{}", OF _ _ _ _ fin _ _ cd])
    fix tok acc D x page x'
    assume i: "?Inv acc D x" and nx: "nextListPage h api sb p [] tok x = (Inr page, x')"
    then obtain K where K: "wview view x = copied ?v sb p db q K" by blast
    have "page_ok pending tok ?I page"
      using w_list_Inr(2) [OF sb nx] unfolding K items_copied [OF dis] .
    then show "page_ok pending tok ?I page \<and> ?Inv acc D x' \<and> True"
      using i w_list_Inr(1) [OF sb nx] by simp
  next
    fix page acc D x acc' x'
    assume "?Inv acc D x" and g: "got page \<subseteq> ?I" and bd: "?body page acc x = (Inr acc', x')"
    then obtain K where K: "wview view x = copied ?v sb p db q K" by blast
    from copy_page [OF c dis got_under [OF g] K] bd
    show "?Inv acc' (D \<union> got page) x'" by (auto simp: Let_def)
  next
    fix tok x e x' assume "nextListPage h api sb p [] tok x = (Inl e, x')"
    then show "e \<noteq> OutOfFuel" by (rule w_list_fuel)
  next
    have "forE (\<lambda>ob. let srcKey = lo_Key ob; suf = trim_prefix srcKey p in copy srcKey (q @ suf)) obs x
        = (Inl e, x') \<Longrightarrow> e \<noteq> OutOfFuel" for obs x e x'
      by (induction obs arbitrary: x) (auto simp: act_simps Let_def dest: copier_Inl [OF c])
    then show "?body page acc x = (Inl e, x') \<Longrightarrow> e \<noteq> OutOfFuel" for page acc x e x' .
  next
    show "?Inv () {} w" by (intro exI [of _ "{}"]) simp
  qed (simp add: pending_all)
qed

end

end
