(* ===== verification/RenameSpec.thy ===== *)
theory RenameSpec
  imports CommandSpec
begin

text \<open>
  Copy and rename as a whole. The two copies and the two renames of the code are one algorithm
  over the way a single object is copied; their effect is stated once for both.
\<close>

section \<open>The common algorithm\<close>

definition gen_copy :: "(string \<Rightarrow> string \<Rightarrow> ('s world, unit) act) \<Rightarrow> handlers \<Rightarrow> nat \<Rightarrow> 's s3_api
    \<Rightarrow> backend \<Rightarrow> string \<Rightarrow> backend \<Rightarrow> string \<Rightarrow> ('s world, unit) act" where
  "gen_copy copy h fuel api sb srcKey db dstKey =
     bindE (h_objectExists h api sb (ObjectKey sb srcKey)) (\<lambda>isFile.
     if isFile then copy (ObjectKey sb srcKey) (ObjectKey db dstKey)
     else bindE (h_prefixHasEntries h api sb (DirPrefix sb srcKey)) (\<lambda>hasChildren.
       if \<not> hasChildren then
         bindE (h_objectExists h api sb (DirPrefix sb srcKey)) (\<lambda>exists.
         if \<not> exists then failE ErrNotExist
         else copy (DirPrefix sb srcKey) (DirPrefix db dstKey))
       else copy_tree h fuel api sb (DirPrefix sb srcKey) copy (DirPrefix db dstKey)))"

lemma sameBackendCopy_gen:
  "sameBackendCopy h fuel api b o1 n1 = gen_copy (h_copyObject h api b) h fuel api b o1 b n1"
  unfolding sameBackendCopy_def gen_copy_def Let_def by (rule refl)

lemma crossBackendCopy_gen:
  "crossBackendCopy h fuel api sb o1 db n1 =
     gen_copy (\<lambda>sk. streamCopyObject h api sb sk db) h fuel api sb o1 db n1"
  unfolding crossBackendCopy_def gen_copy_def Let_def by (rule refl)

definition gen_rename :: "(string \<Rightarrow> string \<Rightarrow> ('s world, unit) act) \<Rightarrow> handlers \<Rightarrow> nat \<Rightarrow> 's s3_api
    \<Rightarrow> backend \<Rightarrow> string \<Rightarrow> backend \<Rightarrow> string \<Rightarrow> ('s world, unit) act" where
  "gen_rename copy h fuel api sb srcKey db dstKey =
     thenE (gen_copy copy h fuel api sb srcKey db dstKey) (remove_source h fuel api sb srcKey)"

lemma sameBackendRename_gen:
  "sameBackendRename h fuel api b o1 n1 = gen_rename (h_copyObject h api b) h fuel api b o1 b n1"
  by (simp add: sameBackendRename_def gen_rename_def sameBackendCopy_gen)

lemma crossBackendRename_gen:
  "crossBackendRename h fuel api sb o1 db n1 =
     gen_rename (\<lambda>sk. streamCopyObject h api sb sk db) h fuel api sb o1 db n1"
  by (simp add: crossBackendRename_def gen_rename_def crossBackendCopy_gen)

section \<open>The specification\<close>

text \<open>
  The objects after a copy and after a rename, as a function of those before. An object at
  the source's key is copied alone; else the tree under the source's directory prefix is.
\<close>

definition tree_keys :: "(loc \<Rightarrow> string option) \<Rightarrow> backend \<Rightarrow> string \<Rightarrow> string set" where
  "tree_keys v b key = keys_of v b \<inter> under (DirPrefix b key)"

definition copy_result :: "(loc \<Rightarrow> string option) \<Rightarrow> backend \<Rightarrow> string \<Rightarrow> backend \<Rightarrow> string
    \<Rightarrow> loc \<Rightarrow> string option" where
  "copy_result v sb srcKey db dstKey =
     (case v (loc_of sb (ObjectKey sb srcKey)) of
        Some d \<Rightarrow> v(loc_of db (ObjectKey db dstKey) \<mapsto> d)
      | None \<Rightarrow> copied v sb (DirPrefix sb srcKey) db (DirPrefix db dstKey) (tree_keys v sb srcKey))"

definition rename_result :: "(loc \<Rightarrow> string option) \<Rightarrow> backend \<Rightarrow> string \<Rightarrow> backend \<Rightarrow> string
    \<Rightarrow> loc \<Rightarrow> string option" where
  "rename_result v sb srcKey db dstKey =
     (case v (loc_of sb (ObjectKey sb srcKey)) of
        Some d \<Rightarrow> (v(loc_of db (ObjectKey db dstKey) \<mapsto> d))(loc_of sb (ObjectKey sb srcKey) := None)
      | None \<Rightarrow> copy_result v sb srcKey db dstKey |` (- locs sb (under (DirPrefix sb srcKey))))"

text \<open>
  The source names something, and when it names a directory the two trees do not meet: the
  destination is neither in the source directory nor an ancestor of it.
\<close>

definition separate :: "(loc \<Rightarrow> string option) \<Rightarrow> backend \<Rightarrow> string \<Rightarrow> backend \<Rightarrow> string \<Rightarrow> bool" where
  "separate v sb srcKey db dstKey \<longleftrightarrow>
     (v (loc_of sb (ObjectKey sb srcKey)) = None \<longrightarrow>
        disjoint_trees sb (DirPrefix sb srcKey) db (DirPrefix db dstKey))"

definition present :: "(loc \<Rightarrow> string option) \<Rightarrow> backend \<Rightarrow> string \<Rightarrow> bool" where
  "present v b key \<longleftrightarrow> v (loc_of b (ObjectKey b key)) \<noteq> None \<or> tree_keys v b key \<noteq> {}"

lemma agree_offD: "agree_off V L s t \<Longrightarrow> l \<notin> L \<Longrightarrow> V t l = V s l"
  unfolding agree_off_def by blast

lemma agree_off_from: "agree_off V L s' t \<Longrightarrow> V s' = V s \<Longrightarrow> agree_off V L s t"
  unfolding agree_off_def by simp

lemma prefix_ObjectKey_DirPrefix: "prefix (ObjectKey b key) (DirPrefix b key)"
  unfolding DirPrefix_def
  by (cases "ObjectKey b key" rule: rev_cases)
    (auto simp: trim_suffix_single ObjectKey_def butlast_append)

lemma disjoint_object:
  assumes "disjoint_trees sb (DirPrefix sb srcKey) db q"
  shows "loc_of sb (ObjectKey sb srcKey) \<notin> locs db (under q)"
proof
  assume "loc_of sb (ObjectKey sb srcKey) \<in> locs db (under q)"
  then have "bClient sb = bClient db" "bBucket sb = bBucket db" "prefix q (ObjectKey sb srcKey)"
    by (auto simp: locs_def loc_of_def)
  then have "loc_of sb (DirPrefix sb srcKey) \<in> locs db (under q)"
    using prefix_order.trans [OF _ prefix_ObjectKey_DirPrefix]
    by (auto simp: locs_def loc_of_def)
  moreover have "loc_of sb (DirPrefix sb srcKey) \<in> locs sb (under (DirPrefix sb srcKey))" by simp
  ultimately show False using assms unfolding disjoint_trees_def by blast
qed

text \<open>
  Where an object of the source is to be found: at its place, or at its place under the
  destination.
\<close>

definition kept :: "(loc \<Rightarrow> string option) \<Rightarrow> (loc \<Rightarrow> string option) \<Rightarrow> backend \<Rightarrow> string \<Rightarrow> backend
    \<Rightarrow> string \<Rightarrow> bool" where
  "kept v v' sb srcKey db dstKey \<longleftrightarrow>
     (case v (loc_of sb (ObjectKey sb srcKey)) of
        Some d \<Rightarrow> v' (loc_of sb (ObjectKey sb srcKey)) = Some d
          \<or> v' (loc_of db (ObjectKey db dstKey)) = Some d
      | None \<Rightarrow> \<forall>k\<in>tree_keys v sb srcKey.
          v' (loc_of sb k) = v (loc_of sb k)
          \<or> v' (loc_of db (DirPrefix db dstKey @ drop (length (DirPrefix sb srcKey)) k)) = v (loc_of sb k))"

text \<open>
  The objects \<open>v'\<close> after a rename: as the specification says, apart from objects of the source's
  tree at the places \<open>N\<close>, which may have stayed.
\<close>

definition renamed :: "(loc \<Rightarrow> string option) \<Rightarrow> (loc \<Rightarrow> string option) \<Rightarrow> loc set \<Rightarrow> backend \<Rightarrow> string
    \<Rightarrow> backend \<Rightarrow> string \<Rightarrow> bool" where
  "renamed v v' N sb srcKey db dstKey \<longleftrightarrow>
     (\<forall>l. v' l = rename_result v sb srcKey db dstKey l
        \<or> v (loc_of sb (ObjectKey sb srcKey)) = None \<and> l \<in> N
          \<and> l \<in> locs sb (under (DirPrefix sb srcKey)) \<and> v' l = v l)"

lemma renamed_none: "renamed v v' {} sb k1 db k2 \<longleftrightarrow> v' = rename_result v sb k1 db k2"
  by (simp add: renamed_def fun_eq_iff)

context s3_service
begin

lemma gen_copy_Inr:
  assumes sb: "mounted_b sb" and c: "copier (wview view) copy sb db"
    and sep: "separate (wview view w) sb srcKey db dstKey"
    and run: "gen_copy copy h n api sb srcKey db dstKey w = (Inr u, w')"
  shows "wview view w' = copy_result (wview view w) sb srcKey db dstKey
    \<and> present (wview view w) sb srcKey"
proof -
  let ?v = "wview view w" and ?p = "DirPrefix sb srcKey" and ?q = "DirPrefix db dstKey"
  from run obtain f w1 where
    e1: "h_objectExists h api sb (ObjectKey sb srcKey) w = (Inr f, w1)"
    and r1: "(if f then copy (ObjectKey sb srcKey) (ObjectKey db dstKey)
      else bindE (h_prefixHasEntries h api sb ?p) (\<lambda>hasChildren.
       if \<not> hasChildren then
         bindE (h_objectExists h api sb ?p) (\<lambda>exists.
         if \<not> exists then failE ErrNotExist else copy ?p ?q)
       else copy_tree h n api sb ?p copy ?q)) w1 = (Inr u, w')"
    by (auto simp: gen_copy_def bindE_Inr)
  from w_exists_Inr [OF sb e1] have v1: "wview view w1 = ?v"
    and f: "f \<longleftrightarrow> ?v (loc_of sb (ObjectKey sb srcKey)) \<noteq> None" by simp_all
  show ?thesis
  proof (cases f)
    case True
    with r1 copier_Inr [OF c] v1 f show ?thesis
      by (fastforce simp: copy_result_def present_def)
  next
    case False
    with r1 obtain ch w2 where e2: "h_prefixHasEntries h api sb ?p w1 = (Inr ch, w2)"
      and r2: "(if \<not> ch then bindE (h_objectExists h api sb ?p) (\<lambda>exists.
         if \<not> exists then failE ErrNotExist else copy ?p ?q)
       else copy_tree h n api sb ?p copy ?q) w2 = (Inr u, w')"
      by (auto simp: bindE_Inr)
    from w_entries_Inr [OF sb e2] have v2: "wview view w2 = ?v"
      and ch: "ch \<longleftrightarrow> tree_keys ?v sb srcKey \<noteq> {}" by (simp_all add: v1 tree_keys_def)
    have dis: "disjoint_trees sb ?p db ?q" using sep False f by (simp add: separate_def)
    have ch1: "ch"
    proof (rule ccontr)
      assume no: "\<not> ch"
      with r2 obtain w3 where e3: "h_objectExists h api sb ?p w2 = (Inr True, w3)"
        by (auto simp: bindE_Inr failE_eq split: if_splits)
      from w_exists_Inr [OF sb e3] have "?p \<in> tree_keys ?v sb srcKey"
        by (simp add: v2 tree_keys_def keys_of_def)
      with no ch show False by blast
    qed
    with r2 have "copy_tree h n api sb ?p copy ?q w2 = (Inr u, w')" by simp
    from copy_tree_Inr [OF sb c dis this] show ?thesis
      using False f ch ch1 by (auto simp: v2 copy_result_def present_def tree_keys_def)
  qed
qed

lemma remove_source_Inr:
  assumes b: "mounted_b b" and mem: "remembers api N"
    and run: "remove_source h n api b key w = (Inr u, w')"
  shows "if wview view w (loc_of b (ObjectKey b key)) \<noteq> None
    then wview view w' = (wview view w)(loc_of b (ObjectKey b key) := None)
    else cleared (locs b (under (DirPrefix b key))) (N (wStore w')) (wview view w) (wview view w')"
proof -
  from run obtain f w1 where e1: "h_objectExists h api b (ObjectKey b key) w = (Inr f, w1)"
    and r1: "(if f then h_deleteObject h api b (ObjectKey b key)
      else h_deletePrefix h n api b (DirPrefix b key)) w1 = (Inr u, w')"
    by (auto simp: remove_source_def Let_def bindE_Inr)
  from w_exists_Inr [OF b e1] have v1: "wview view w1 = wview view w"
    and f: "f \<longleftrightarrow> wview view w (loc_of b (ObjectKey b key)) \<noteq> None" by simp_all
  show ?thesis
    using r1 f w_delete_Inr [OF b, of h "ObjectKey b key" w1 u w']
      w_deletePrefix_Inr [OF b mem, of h n "DirPrefix b key" w1 u w']
    unfolding v1 by (cases f) simp_all
qed

lemma gen_rename_Inr:
  assumes sb: "mounted_b sb" and c: "copier (wview view) copy sb db" and mem: "remembers api N"
    and sep: "separate (wview view w) sb srcKey db dstKey"
    and run: "gen_rename copy h n api sb srcKey db dstKey w = (Inr u, w')"
  shows "renamed (wview view w) (wview view w') (N (wStore w')) sb srcKey db dstKey
    \<and> present (wview view w) sb srcKey"
proof -
  let ?v = "wview view w" and ?v' = "wview view w'" and ?N = "N (wStore w')"
  let ?obj = "loc_of sb (ObjectKey sb srcKey)" and ?L = "locs sb (under (DirPrefix sb srcKey))"
  from run obtain u1 w1 where r1: "gen_copy copy h n api sb srcKey db dstKey w = (Inr u1, w1)"
    and r2: "remove_source h n api sb srcKey w1 = (Inr u, w')"
    by (auto simp: gen_rename_def bindE_Inr)
  from gen_copy_Inr [OF sb c sep r1] have v1: "wview view w1 = copy_result ?v sb srcKey db dstKey"
    and pr: "present ?v sb srcKey" by simp_all
  have obj: "copy_result ?v sb srcKey db dstKey ?obj = None \<longleftrightarrow> ?v ?obj = None"
    using sep disjoint_object [of sb srcKey db "DirPrefix db dstKey"]
    by (auto simp: copy_result_def separate_def copied_off split: option.split)
  show ?thesis
  proof (cases "?v ?obj")
    case (Some d)
    with remove_source_Inr [OF sb mem r2] obj pr show ?thesis
      unfolding v1 by (simp add: renamed_def rename_result_def copy_result_def)
  next
    case None
    have src: "copy_result ?v sb srcKey db dstKey l = ?v l" if "l \<in> ?L" for l
    proof -
      have "l \<notin> locs db (under (DirPrefix db dstKey))"
        using sep None that unfolding separate_def disjoint_trees_def by blast
      then show ?thesis using None by (simp add: copy_result_def copied_off)
    qed
    have "cleared ?L ?N (copy_result ?v sb srcKey db dstKey) ?v'"
      using remove_source_Inr [OF sb mem r2] obj None unfolding v1 by simp
    then have "renamed ?v ?v' ?N sb srcKey db dstKey"
      unfolding renamed_def cleared_def rename_result_def None option.case
      using src None by (metis ComplI Compl_iff restrict_in restrict_out)
    with pr show ?thesis by simp
  qed
qed

subsection \<open>Failures lose nothing\<close>

lemma within_w_exists: "mounted_b b \<Longrightarrow> within (agree_off (wview view) L) (h_objectExists h api b k)"
  unfolding h_objectExists_def by (intro within_timed within_ObjectExists)

lemma within_w_entries: "mounted_b b \<Longrightarrow> within (agree_off (wview view) L) (h_prefixHasEntries h api b p)"
  unfolding h_prefixHasEntries_def by (intro within_timed within_PrefixHasEntries)

lemma within_w_list: "mounted_b b \<Longrightarrow> within (agree_off (wview view) L) (nextListPage h api b p d tok)"
  unfolding nextListPage_def by (intro within_timed within_list_page)

lemma within_w_delete:
  "mounted_b b \<Longrightarrow> within (agree_off (wview view) (locs b {k})) (h_deleteObject h api b k)"
  unfolding h_deleteObject_def by (intro within_timed within_DeleteObject) simp_all

lemma within_w_deletePrefix:
  "mounted_b b \<Longrightarrow> within (agree_off (wview view) (locs b (under p))) (h_deletePrefix h n api b p)"
  unfolding h_deletePrefix_def by (intro within_timed within_DeletePrefix)

text \<open>A copy of a tree writes under the destination only, a copy of an object at its key.\<close>

lemma gen_copy_frame:
  assumes sb: "mounted_b sb" and c: "copier (wview view) copy sb db"
    and run: "gen_copy copy h n api sb srcKey db dstKey w = (r, w')"
  shows "agree_off (wview view)
    (if wview view w (loc_of sb (ObjectKey sb srcKey)) = None
     then locs db (under (DirPrefix db dstKey)) else locs db {ObjectKey db dstKey}) w w'"
proof -
  let ?p = "DirPrefix sb srcKey" and ?q = "DirPrefix db dstKey"
  let ?L = "locs db (under ?q)"
  obtain f w1 where e1: "h_objectExists h api sb (ObjectKey sb srcKey) w = (f, w1)" by fastforce
  show ?thesis
  proof (cases f)
    case (Inl e)
    with run e1 w_exists_Inl [OF sb] show ?thesis
      by (auto simp: gen_copy_def intro: agree_off_same)
  next
    case (Inr x)
    from w_exists_Inr [OF sb e1 [unfolded Inr]] have v1: "wview view w1 = wview view w"
      and x: "x \<longleftrightarrow> wview view w (loc_of sb (ObjectKey sb srcKey)) \<noteq> None" by simp_all
    show ?thesis
    proof (cases x)
      case True
      with run e1 Inr have "copy (ObjectKey sb srcKey) (ObjectKey db dstKey) w1 = (r, w')"
        by (simp add: gen_copy_def)
      from withinD [OF within_copier [OF c, of _ "locs db {ObjectKey db dstKey}"] this]
      have "agree_off (wview view) (locs db {ObjectKey db dstKey}) w w'"
        using v1 by (simp add: agree_off_from)
      then show ?thesis using x True by auto
    next
      case False
      note intr = within_bindE [OF transp_agree_off] within_failE [OF reflp_agree_off]
        within_w_entries [OF sb] within_w_exists [OF sb] within_copier [OF c]
      have "within (agree_off (wview view) ?L) (copy_tree h n api sb ?p copy ?q)"
        unfolding copy_tree_def Let_def
        by (intro within_page_loop within_forE reflp_agree_off transp_agree_off within_w_list [OF sb]
            within_copier [OF c]) simp
      then have "within (agree_off (wview view) ?L)
          (bindE (h_prefixHasEntries h api sb ?p) (\<lambda>hasChildren.
           if \<not> hasChildren then bindE (h_objectExists h api sb ?p) (\<lambda>exists.
             if \<not> exists then failE ErrNotExist else copy ?p ?q)
           else copy_tree h n api sb ?p copy ?q))"
        by (auto intro!: intr)
      moreover have "bindE (h_prefixHasEntries h api sb ?p) (\<lambda>hasChildren.
           if \<not> hasChildren then bindE (h_objectExists h api sb ?p) (\<lambda>exists.
             if \<not> exists then failE ErrNotExist else copy ?p ?q)
           else copy_tree h n api sb ?p copy ?q) w1 = (r, w')"
        using run e1 Inr False by (simp add: gen_copy_def)
      ultimately have "agree_off (wview view) ?L w1 w'" by (rule withinD)
      from agree_off_from [OF this v1] show ?thesis using x False by simp
    qed
  qed
qed

text \<open>
  Removing the source touches the object at its key, or the tree when there is no object.
\<close>

lemma remove_source_frame:
  assumes b: "mounted_b b" and run: "remove_source h n api b key w = (r, w')"
  shows "agree_off (wview view)
    (if wview view w (loc_of b (ObjectKey b key)) = None
     then locs b (under (DirPrefix b key)) else locs b {ObjectKey b key}) w w'"
proof -
  obtain f w1 where e1: "h_objectExists h api b (ObjectKey b key) w = (f, w1)" by fastforce
  show ?thesis
  proof (cases f)
    case (Inl e)
    with run e1 w_exists_Inl [OF b] show ?thesis
      by (auto simp: remove_source_def Let_def intro: agree_off_same)
  next
    case (Inr x)
    from w_exists_Inr [OF b e1 [unfolded Inr]] have v1: "wview view w1 = wview view w"
      and x: "x \<longleftrightarrow> wview view w (loc_of b (ObjectKey b key)) \<noteq> None" by simp_all
    show ?thesis
    proof (cases x)
      case True
      with run e1 Inr have "h_deleteObject h api b (ObjectKey b key) w1 = (r, w')"
        by (simp add: remove_source_def Let_def)
      from agree_off_from [OF withinD [OF within_w_delete [OF b] this] v1] x True
      show ?thesis by auto
    next
      case False
      with run e1 Inr have "h_deletePrefix h n api b (DirPrefix b key) w1 = (r, w')"
        by (simp add: remove_source_def Let_def)
      from agree_off_from [OF withinD [OF within_w_deletePrefix [OF b] this] v1] x False
      show ?thesis by simp
    qed
  qed
qed

lemma gen_rename_kept:
  assumes sb: "mounted_b sb" and c: "copier (wview view) copy sb db"
    and sep: "separate (wview view w) sb srcKey db dstKey"
    and ne: "loc_of sb (ObjectKey sb srcKey) \<noteq> loc_of db (ObjectKey db dstKey)"
    and run: "gen_rename copy h n api sb srcKey db dstKey w = (r, w')"
  shows "kept (wview view w) (wview view w') sb srcKey db dstKey"
proof -
  let ?v = "wview view w" and ?v' = "wview view w'"
  let ?p = "DirPrefix sb srcKey" and ?q = "DirPrefix db dstKey"
  let ?obj = "loc_of sb (ObjectKey sb srcKey)" and ?new = "loc_of db (ObjectKey db dstKey)"
  obtain r1 w1 where r1: "gen_copy copy h n api sb srcKey db dstKey w = (r1, w1)" by fastforce
  note fr = gen_copy_frame [OF sb c r1]
  have same: "?v' = wview view w1" if "r1 = Inl e" for e
    using run r1 that by (auto simp: gen_rename_def)
  have rest: "remove_source h n api sb srcKey w1 = (r, w')" if "r1 = Inr u" for u
    using run r1 that by (auto simp: gen_rename_def)
  show ?thesis
  proof (cases "?v ?obj")
    case (Some d)
    have v1: "wview view w1 ?obj = Some d"
      using agree_offD [OF fr, of ?obj] Some ne by (simp add: locs_single)
    show ?thesis
    proof (cases r1)
      case (Inl e)
      then show ?thesis using v1 same Some by (simp add: kept_def)
    next
      case (Inr u)
      from gen_copy_Inr [OF sb c sep r1 [unfolded Inr]] Some have "wview view w1 ?new = Some d"
        by (simp add: copy_result_def)
      moreover have "agree_off (wview view) (locs sb {ObjectKey sb srcKey}) w1 w'"
        using remove_source_frame [OF sb rest [OF Inr]] v1 by simp
      ultimately have "?v' ?new = Some d"
        using ne by (metis agree_offD locs_single singletonD)
      then show ?thesis using Some by (simp add: kept_def)
    qed
  next
    case None
    then have dis: "disjoint_trees sb ?p db ?q" using sep by (simp add: separate_def)
    have src: "wview view w1 l = ?v l" if "l \<in> locs sb (under ?p)" for l
    proof -
      have "l \<notin> locs db (under ?q)" using that dis unfolding disjoint_trees_def by blast
      then show ?thesis using agree_offD [OF fr, of l] None by simp
    qed
    show ?thesis
    proof (cases r1)
      case (Inl e)
      then show ?thesis using src same None by (auto simp: kept_def tree_keys_def)
    next
      case (Inr u)
      from gen_copy_Inr [OF sb c sep r1 [unfolded Inr]] None
      have v1: "wview view w1 = copied ?v sb ?p db ?q (tree_keys ?v sb srcKey)"
        by (simp add: copy_result_def)
      have "wview view w1 ?obj = None"
        using v1 disjoint_object [OF dis] None by (simp add: copied_off)
      then have fr2: "agree_off (wview view) (locs sb (under ?p)) w1 w'"
        using remove_source_frame [OF sb rest [OF Inr]] by simp
      have "?v' (loc_of db (?q @ drop (length ?p) k)) = ?v (loc_of sb k)"
        if k: "k \<in> tree_keys ?v sb srcKey" for k
      proof -
        from k obtain suf where s: "k = ?p @ suf" by (auto simp: tree_keys_def prefix_def)
        have "loc_of db (?q @ suf) \<in> locs db (under ?q)" by simp
        then have "loc_of db (?q @ suf) \<notin> locs sb (under ?p)"
          using dis unfolding disjoint_trees_def by blast
        then have "?v' (loc_of db (?q @ suf)) = wview view w1 (loc_of db (?q @ suf))"
          by (rule agree_offD [OF fr2])
        with k show ?thesis by (simp add: v1 s)
      qed
      then show ?thesis using None by (simp add: kept_def)
    qed
  qed
qed

subsection \<open>Enough fuel\<close>

lemma gen_copy_fuel:
  assumes sb: "mounted_b sb" and c: "copier (wview view) copy sb db"
    and sep: "separate (wview view w) sb srcKey db dstKey"
    and n: "card (tree_keys (wview view w) sb srcKey) < n"
  shows "gen_copy copy h n api sb srcKey db dstKey w \<noteq> (Inl OutOfFuel, w')"
proof
  let ?p = "DirPrefix sb srcKey" and ?q = "DirPrefix db dstKey"
  assume run: "gen_copy copy h n api sb srcKey db dstKey w = (Inl OutOfFuel, w')"
  then obtain f w1 where e1: "h_objectExists h api sb (ObjectKey sb srcKey) w = (Inr f, w1)"
    and r1: "(if f then copy (ObjectKey sb srcKey) (ObjectKey db dstKey)
      else bindE (h_prefixHasEntries h api sb ?p) (\<lambda>hasChildren.
       if \<not> hasChildren then
         bindE (h_objectExists h api sb ?p) (\<lambda>exists.
         if \<not> exists then failE ErrNotExist else copy ?p ?q)
       else copy_tree h n api sb ?p copy ?q)) w1 = (Inl OutOfFuel, w')"
    by (auto simp: gen_copy_def bindE_Inl dest: w_exists_Inl [OF sb])
  from w_exists_Inr [OF sb e1] have v1: "wview view w1 = wview view w"
    and f: "f \<longleftrightarrow> wview view w (loc_of sb (ObjectKey sb srcKey)) \<noteq> None" by simp_all
  from r1 have f0: "\<not> f" by (auto dest: copier_Inl [OF c])
  with r1 obtain ch w2 where e2: "h_prefixHasEntries h api sb ?p w1 = (Inr ch, w2)"
    and r2: "(if \<not> ch then bindE (h_objectExists h api sb ?p) (\<lambda>exists.
         if \<not> exists then failE ErrNotExist else copy ?p ?q)
       else copy_tree h n api sb ?p copy ?q) w2 = (Inl OutOfFuel, w')"
    by (auto simp: bindE_Inl dest: w_entries_Inl [OF sb])
  from w_entries_Inr [OF sb e2] have v2: "wview view w2 = wview view w" by (simp add: v1)
  from r2 have "copy_tree h n api sb ?p copy ?q w2 = (Inl OutOfFuel, w')"
    by (auto simp: bindE_Inl failE_eq split: if_splits
        dest: w_exists_Inl [OF sb] copier_Inl [OF c])
  moreover have "disjoint_trees sb ?p db ?q" using sep f f0 by (simp add: separate_def)
  moreover have "card (keys_of (wview view w2) sb \<inter> under ?p) < n"
    using n by (simp add: v2 tree_keys_def)
  ultimately show False using copy_tree_fuel [OF sb c] by blast
qed

lemma remove_source_fuel:
  assumes b: "mounted_b b"
    and n: "wview view w (loc_of b (ObjectKey b key)) = None \<Longrightarrow> card (tree_keys (wview view w) b key) < n"
  shows "remove_source h n api b key w \<noteq> (Inl OutOfFuel, w')"
proof
  assume "remove_source h n api b key w = (Inl OutOfFuel, w')"
  then obtain f w1 where e1: "h_objectExists h api b (ObjectKey b key) w = (Inr f, w1)"
    and r1: "(if f then h_deleteObject h api b (ObjectKey b key)
      else h_deletePrefix h n api b (DirPrefix b key)) w1 = (Inl OutOfFuel, w')"
    by (auto simp: remove_source_def Let_def bindE_Inl dest: w_exists_Inl [OF b])
  from w_exists_Inr [OF b e1] have v1: "wview view w1 = wview view w"
    and f: "f \<longleftrightarrow> wview view w (loc_of b (ObjectKey b key)) \<noteq> None" by simp_all
  show False
  proof (cases f)
    case True
    with r1 have "DeleteObject api b (ObjectKey b key) (wStore w1) = (Inl OutOfFuel, wStore w')"
      by (auto simp: h_deleteObject_def dest: timedS3Op_run)
    then show False using DeleteObject_Inl [OF b] by blast
  next
    case False
    with r1 have "DeletePrefix n api b (DirPrefix b key) (wStore w1) = (Inl OutOfFuel, wStore w')"
      by (auto simp: h_deletePrefix_def dest: timedS3Op_run)
    moreover have "card (keys_of (view (wStore w1)) b \<inter> under (DirPrefix b key)) < n"
      using n False f v1 by (simp add: tree_keys_def wview_def)
    ultimately show False using DeletePrefix_fuel [OF b] by blast
  qed
qed

lemma gen_rename_fuel:
  assumes sb: "mounted_b sb" and c: "copier (wview view) copy sb db"
    and sep: "separate (wview view w) sb srcKey db dstKey"
    and n: "card (tree_keys (wview view w) sb srcKey) < n"
  shows "gen_rename copy h n api sb srcKey db dstKey w \<noteq> (Inl OutOfFuel, w')"
proof
  let ?v = "wview view w" and ?obj = "loc_of sb (ObjectKey sb srcKey)"
  assume "gen_rename copy h n api sb srcKey db dstKey w = (Inl OutOfFuel, w')"
  then obtain u w1 where r1: "gen_copy copy h n api sb srcKey db dstKey w = (Inr u, w1)"
    and r2: "remove_source h n api sb srcKey w1 = (Inl OutOfFuel, w')"
    using gen_copy_fuel [OF sb c sep n] by (auto simp: gen_rename_def bindE_Inl)
  from gen_copy_Inr [OF sb c sep r1] have v1: "wview view w1 = copy_result ?v sb srcKey db dstKey"
    by simp
  have "card (tree_keys (wview view w1) sb srcKey) < n" if none: "wview view w1 ?obj = None"
  proof (cases "?v ?obj")
    case (Some d)
    with none show ?thesis by (simp add: v1 copy_result_def split: if_splits)
  next
    case None
    then have "disjoint_trees sb (DirPrefix sb srcKey) db (DirPrefix db dstKey)"
      using sep by (simp add: separate_def)
    from copied_keys [OF this] None n show ?thesis
      by (simp add: v1 copy_result_def tree_keys_def)
  qed
  from remove_source_fuel [OF sb this] r2 show False by blast
qed

end

end
