(* ===== verification/FileInfo.thy ===== *)
theory FileInfo
  imports Prelude GoStrings "HOL-Library.Word" "HOL-Library.Multiset" "HOL-Library.Char_ord" "HOL-Library.List_Lexorder"
begin

unbundle bit_operations_syntax

text \<open>
  \<open>internal/sftphandlers/fileinfo.go\<close>: the entries given to clients and the lister over a
  slice of them. A modification time is the time of the call (\<open>Now\<close>) or one the store gave.
\<close>

datatype mod_time = Now | At int

record fileInfo =
  fiName :: string
  fiSize :: int
  fiMode :: "32 word"
  fiModTime :: mod_time

definition os_ModeDir :: "32 word" where
  "os_ModeDir = push_bit 31 1"

definition IsDir :: "fileInfo \<Rightarrow> bool" where
  "IsDir fi \<longleftrightarrow> fiMode fi AND os_ModeDir \<noteq> 0"

definition newDirInfo :: "string \<Rightarrow> fileInfo" where
  "newDirInfo name =
     \<lparr>fiName = name, fiSize = 4096, fiMode = os_ModeDir OR 0x1ED, fiModTime = Now\<rparr>"

text \<open>The zero time, which \<open>aws.ToTime\<close> makes of a nil pointer, is \<open>None\<close>.\<close>

definition newFileInfo :: "string \<Rightarrow> int \<Rightarrow> int option \<Rightarrow> fileInfo" where
  "newFileInfo name sz modTime =
     \<lparr>fiName = name, fiSize = sz, fiMode = 0x1A4,
      fiModTime = (case modTime of None \<Rightarrow> Now | Some t \<Rightarrow> At t)\<rparr>"

text \<open>
  \<open>ListAt\<close> on a buffer of \<open>m\<close> entries: the entries copied and the error; \<open>None\<close> where the
  index expression panics, which a negative offset makes it do.
\<close>

function list_at_loop ::
    "fileInfo list \<Rightarrow> nat \<Rightarrow> nat \<Rightarrow> int \<Rightarrow> fileInfo list \<Rightarrow> fileInfo list option" where
  "list_at_loop l m n offset acc =
     (if offset < int (length l) \<and> n < m then
        (if offset < 0 then None
         else list_at_loop l m (n + 1) (offset + 1) (acc @ [l ! nat offset]))
      else Some acc)"
  by pat_completeness auto
termination
  by (relation "measure (\<lambda>(l, m, n, offset, acc). m - n)") auto

declare list_at_loop.simps [simp del]

definition ListAt :: "fileInfo list \<Rightarrow> nat \<Rightarrow> int \<Rightarrow> (fileInfo list \<times> go_error option) option" where
  "ListAt l m offset =
     (case list_at_loop l m 0 offset [] of
        None \<Rightarrow> None
      | Some xs \<Rightarrow> Some (xs, if length xs < m then Some EOF else None))"

lemma newDirInfo_sel [simp]:
  "fiName (newDirInfo name) = name" "IsDir (newDirInfo name)"
  by (simp_all add: newDirInfo_def IsDir_def os_ModeDir_def)

lemma newFileInfo_sel [simp]:
  "fiName (newFileInfo name sz t) = name" "fiSize (newFileInfo name sz t) = sz"
  "\<not> IsDir (newFileInfo name sz t)"
  by (simp_all add: newFileInfo_def IsDir_def os_ModeDir_def)

lemma list_at_loop_nat:
  "list_at_loop l m n (int off) acc = Some (acc @ take (m - n) (drop off l))"
proof (induction "m - n" arbitrary: n off acc)
  case 0
  then show ?case by (simp add: list_at_loop.simps [of l m n])
next
  case (Suc k)
  show ?case
  proof (cases "off < length l")
    case False
    then show ?thesis by (simp add: list_at_loop.simps [of l m n])
  next
    case True
    have k: "k = m - (n + 1)" using Suc.hyps(2) by simp
    have n: "n < m" using Suc.hyps(2) by simp
    have "list_at_loop l m n (int off) acc = list_at_loop l m (n + 1) (int (off + 1)) (acc @ [l ! off])"
      using True n by (simp add: list_at_loop.simps [of l m n] add.commute)
    also have "\<dots> = Some ((acc @ [l ! off]) @ take (m - (n + 1)) (drop (off + 1) l))"
      by (rule Suc.hyps(1) [OF k])
    also have "(acc @ [l ! off]) @ take (m - (n + 1)) (drop (off + 1) l)
        = acc @ take (m - n) (l ! off # drop (off + 1) l)"
      using n by (simp add: take_Cons' del: Cons_nth_drop_Suc)
    also have "l ! off # drop (off + 1) l = drop off l"
      using True by (simp add: Cons_nth_drop_Suc)
    finally show ?thesis .
  qed
qed

lemma ListAt_nat:
  "ListAt l m (int off) =
     Some (take m (drop off l), if length l - off < m then Some EOF else None)"
  unfolding ListAt_def list_at_loop_nat [of l m 0 off "[]"] by auto

section \<open>Entries by name\<close>

text \<open>
  \<open>sort.Slice\<close> by name. It is not stable, so its result is determined only where the names
  are distinct, as they are wherever the handlers use it.
\<close>

definition sort_infos :: "fileInfo list \<Rightarrow> fileInfo list" where
  "sort_infos infos = sort_key fiName infos"

lemma sort_infos_simps [simp]:
  "set (sort_infos xs) = set xs" "sorted (map fiName (sort_infos xs))"
  "distinct (map fiName (sort_infos xs)) \<longleftrightarrow> distinct (map fiName xs)"
  "length (sort_infos xs) = length xs"
proof -
  show "set (sort_infos xs) = set xs" "sorted (map fiName (sort_infos xs))"
    "length (sort_infos xs) = length xs"
    by (simp_all add: sort_infos_def)
  have "mset (map fiName (sort_infos xs)) = mset (map fiName xs)"
    by (simp add: sort_infos_def)
  then show "distinct (map fiName (sort_infos xs)) \<longleftrightarrow> distinct (map fiName xs)"
    by (rule mset_eq_imp_distinct_iff)
qed

end
