(* ===== verification/Listing.thy ===== *)
theory Listing
  imports CommandSpec FileInfo
begin

text \<open>
  Directory listings and stat in \<open>internal/sftphandlers/handlers.go\<close>: \<open>Filelist\<close>,
  \<open>listDirectory\<close>, \<open>listRoot\<close> and \<open>statPath\<close>, and what a listing shows under the contract.
\<close>

section \<open>The handlers\<close>

text \<open>The accumulator of the loop: the names seen, and the entries.\<close>

type_synonym entries = "string list \<times> fileInfo list"

definition list_common :: "string \<Rightarrow> entries \<Rightarrow> string \<Rightarrow> entries" where
  "list_common dp acc cp =
     (case acc of (seen, infos) \<Rightarrow>
        let name = trim_suffix (trim_prefix cp dp) ''/''
        in if name = [] \<or> name \<in> set seen then (seen, infos)
           else (name # seen, infos @ [newDirInfo name]))"

definition list_object :: "string \<Rightarrow> entries \<Rightarrow> list_obj \<Rightarrow> entries" where
  "list_object dp acc ob =
     (case acc of (seen, infos) \<Rightarrow>
        let k = lo_Key ob
        in if k = dp then (seen, infos)
           else let name = trim_prefix k dp
             in if contains name ''/'' \<or> name \<in> set seen then (seen, infos)
                else (name # seen,
                      infos @ [newFileInfo name (aws_ToInt64 (lo_Size ob)) (lo_LastModified ob)]))"

definition list_body :: "string \<Rightarrow> list_out \<Rightarrow> entries \<Rightarrow> ('w, entries) act" where
  "list_body dp page acc =
     retE (foldl (list_object dp) (foldl (list_common dp) acc (lp_CommonPrefixes page))
             (lp_Contents page))"

definition listRoot :: "handlers \<Rightarrow> fileInfo list" where
  "listRoot h = sort_infos (map (\<lambda>(name, b). newDirInfo name) (gm_range (Backends (hVfs h))))"

definition listDirectory :: "handlers \<Rightarrow> nat \<Rightarrow> 's s3_api \<Rightarrow> string \<Rightarrow> ('s world, fileInfo list) act" where
  "listDirectory h fuel api p =
     bindE (liftE (h_resolve h p)) (\<lambda>(bo, key).
       case bo of
         None \<Rightarrow> retE (listRoot h)
       | Some b \<Rightarrow>
           (let dp = DirPrefix b key in
            bindE (page_loop fuel (nextListPage h api b dp ''/'') (list_body dp) None ([], []))
              (\<lambda>(seen, infos). retE (sort_infos infos))))"

text \<open>The \<open>HeadObject\<close> of a stat is not metered.\<close>

definition statPath :: "handlers \<Rightarrow> 's s3_api \<Rightarrow> string \<Rightarrow> ('s world, fileInfo list) act" where
  "statPath h api p =
     bindE (liftE (h_resolve h p)) (\<lambda>(bo, key).
       case bo of
         None \<Rightarrow> retE [newDirInfo ''/'']
       | Some b \<Rightarrow>
           if key = [] then retE [newDirInfo (bName b)]
           else (\<lambda>w.
             case api_HeadObject api (bClient b) (bBucket b) (ObjectKey b key) (wStore w) of
               (Inr out, s) \<Rightarrow>
                 (Inr [newFileInfo (path_base key) (aws_ToInt64 (ho_ContentLength out))
                        (ho_LastModified out)], w\<lparr>wStore := s\<rparr>)
             | (Inl e, s) \<Rightarrow>
                 if \<not> (e = NotFound \<or> e = NoSuchKey) then (Inl (S3 e), w\<lparr>wStore := s\<rparr>)
                 else bindE (h_prefixHasEntries h api b (DirPrefix b key)) (\<lambda>hasChildren.
                   if hasChildren then retE [newDirInfo (path_base key)] else failE ErrNotExist)
                   (w\<lparr>wStore := s\<rparr>)))"

definition Filelist :: "handlers \<Rightarrow> nat \<Rightarrow> 's s3_api \<Rightarrow> request \<Rightarrow> ('s world, fileInfo list) act" where
  "Filelist h fuel api r =
     thenE (liftE (requireRead (hPerms h)))
       (if rMethod r = ''List'' then listDirectory h fuel api (rFilepath r)
        else if rMethod r = ''Stat'' \<or> rMethod r = ''Lstat'' then statPath h api (rFilepath r)
        else failE OpUnsupported)"

section \<open>What a directory holds\<close>

text \<open>
  The names of the files and of the directories directly under a prefix, from the objects of
  the bucket.
\<close>

definition file_names :: "(loc \<Rightarrow> string option) \<Rightarrow> backend \<Rightarrow> string \<Rightarrow> string set" where
  "file_names v b dp = {n. n \<noteq> [] \<and> CHR ''/'' \<notin> set n \<and> dp @ n \<in> keys_of v b}"

definition dir_names :: "(loc \<Rightarrow> string option) \<Rightarrow> backend \<Rightarrow> string \<Rightarrow> string set" where
  "dir_names v b dp =
     {n. n \<noteq> [] \<and> CHR ''/'' \<notin> set n \<and> keys_of v b \<inter> under (dp @ n @ ''/'') \<noteq> {}}"

definition entry_ok :: "(loc \<Rightarrow> string option) \<Rightarrow> backend \<Rightarrow> string \<Rightarrow> fileInfo \<Rightarrow> bool" where
  "entry_ok v b dp fi \<longleftrightarrow>
     (if IsDir fi then fiName fi \<in> dir_names v b dp
      else fiName fi \<in> file_names v b dp
        \<and> map_option (\<lambda>d. int (length d)) (v (loc_of b (dp @ fiName fi))) = Some (fiSize fi))"

text \<open>The items of a listing with a slash for its delimiter.\<close>

lemma takeWhile_first: "c \<notin> set n \<Longrightarrow> takeWhile ((\<noteq>) c) (n @ c # r) = n"
  by (induction n) auto

lemma item_of_slash:
  "CHR ''/'' \<notin> set n \<Longrightarrow> item_of p ''/'' (p @ n) = Obj (p @ n)"
  "CHR ''/'' \<notin> set n \<Longrightarrow> item_of p ''/'' (p @ n @ CHR ''/'' # r) = Common (p @ n @ ''/'')"
  by (simp_all add: item_of_def Let_def index_of_single takeWhile_first)

text \<open>Every key under a prefix is a file there, or lies in a directory there.\<close>

lemma key_cases:
  assumes "prefix p k"
  obtains n where "k = p @ n" "CHR ''/'' \<notin> set n" "item_of p ''/'' k = Obj k"
  | n r where "k = p @ n @ CHR ''/'' # r" "CHR ''/'' \<notin> set n"
      "item_of p ''/'' k = Common (p @ n @ ''/'')"
proof -
  from assms obtain suf where k: "k = p @ suf" by (auto simp: prefix_def)
  show ?thesis
  proof (cases "CHR ''/'' \<in> set suf")
    case False
    then show ?thesis using that(1) [of suf] by (simp add: k item_of_slash)
  next
    case True
    then obtain n r where "suf = n @ CHR ''/'' # r" "CHR ''/'' \<notin> set n"
      by (meson split_list_first)
    then show ?thesis using that(2) [of n r] by (simp add: k item_of_slash)
  qed
qed

lemma items_slash_Obj:
  "Obj k \<in> items p ''/'' K \<longleftrightarrow> (\<exists>n. k = p @ n \<and> CHR ''/'' \<notin> set n \<and> p @ n \<in> K)"
proof
  assume "Obj k \<in> items p ''/'' K"
  then obtain k' where "k' \<in> K" "prefix p k'" "item_of p ''/'' k' = Obj k"
    by (auto simp: items_def)
  then show "\<exists>n. k = p @ n \<and> CHR ''/'' \<notin> set n \<and> p @ n \<in> K"
    by (elim key_cases) auto
next
  assume "\<exists>n. k = p @ n \<and> CHR ''/'' \<notin> set n \<and> p @ n \<in> K"
  then obtain n where n: "k = p @ n" "CHR ''/'' \<notin> set n" "p @ n \<in> K" by blast
  from item_of_slash(1) [OF n(2), of p] n(1,3) show "Obj k \<in> items p ''/'' K"
    unfolding items_def by (metis IntI imageI in_under prefixI)
qed

lemma items_slash_Common:
  "Common c \<in> items p ''/'' K \<longleftrightarrow>
     (\<exists>n. c = p @ n @ ''/'' \<and> CHR ''/'' \<notin> set n \<and> K \<inter> under (p @ n @ ''/'') \<noteq> {})"
proof
  assume "Common c \<in> items p ''/'' K"
  then obtain k where k: "k \<in> K" "prefix p k" "item_of p ''/'' k = Common c"
    by (auto simp: items_def)
  from k(2) show "\<exists>n. c = p @ n @ ''/'' \<and> CHR ''/'' \<notin> set n \<and> K \<inter> under (p @ n @ ''/'') \<noteq> {}"
  proof (cases rule: key_cases)
    case (1 n)
    with k(3) show ?thesis by simp
  next
    case (2 n r)
    have "k = (p @ n @ ''/'') @ r" using 2(1) by simp
    then have "k \<in> under (p @ n @ ''/'')" unfolding in_under by (rule prefixI)
    with k(1,3) 2 show ?thesis by auto
  qed
next
  assume "\<exists>n. c = p @ n @ ''/'' \<and> CHR ''/'' \<notin> set n \<and> K \<inter> under (p @ n @ ''/'') \<noteq> {}"
  then obtain n where n: "c = p @ n @ ''/''" "CHR ''/'' \<notin> set n"
    "K \<inter> under (p @ n @ ''/'') \<noteq> {}" by blast
  from n(3) obtain k where k: "k \<in> K" "prefix (p @ n @ ''/'') k" by auto
  from k(2) obtain r where "k = p @ n @ CHR ''/'' # r" by (auto simp: prefix_def)
  with item_of_slash(2) [OF n(2), of p r] n(1) k(1) show "Common c \<in> items p ''/'' K"
    unfolding items_def by (metis IntI imageI in_under prefixI)
qed

section \<open>The loop\<close>

definition acc_ok :: "(loc \<Rightarrow> string option) \<Rightarrow> backend \<Rightarrow> string \<Rightarrow> entries \<Rightarrow> string set \<Rightarrow> bool" where
  "acc_ok v b dp acc N \<longleftrightarrow>
     set (fst acc) = N \<and> fiName ` set (snd acc) = N \<and> distinct (map fiName (snd acc))
     \<and> (\<forall>fi\<in>set (snd acc). entry_ok v b dp fi)"

definition item_names :: "string \<Rightarrow> list_item set \<Rightarrow> string set" where
  "item_names dp D = {n. n \<noteq> [] \<and> (Obj (dp @ n) \<in> D \<or> Common (dp @ n @ ''/'') \<in> D)}"

lemma item_names_Un: "item_names dp (D \<union> E) = item_names dp D \<union> item_names dp E"
  by (auto simp: item_names_def)

lemma list_common_ok:
  assumes "acc_ok v b dp acc N" and "cp = dp @ n @ ''/''"
    and "n \<noteq> [] \<Longrightarrow> n \<in> dir_names v b dp"
  shows "acc_ok v b dp (list_common dp acc cp) (N \<union> ({n} - {[]}))"
proof -
  have "trim_suffix (trim_prefix cp dp) ''/'' = n" using assms(2) by simp
  with assms(1,3) show ?thesis
    by (cases acc) (auto simp: list_common_def Let_def acc_ok_def entry_ok_def)
qed

lemma list_object_ok:
  assumes "acc_ok v b dp acc N" and "lo_Key ob = dp @ n" and "CHR ''/'' \<notin> set n"
    and "v (loc_of b (dp @ n)) = Some d" and "lo_Size ob = Some (int (length d))"
  shows "acc_ok v b dp (list_object dp acc ob) (N \<union> ({n} - {[]}))"
proof -
  have "n \<noteq> [] \<Longrightarrow> n \<in> file_names v b dp"
    using assms(3,4) by (simp add: file_names_def keys_of_def)
  with assms show ?thesis
    by (cases acc) (auto simp: list_object_def Let_def acc_ok_def entry_ok_def aws_ToInt64_def)
qed

lemma foldl_common_ok:
  "acc_ok v b dp acc N \<Longrightarrow> \<forall>cp\<in>set cps. \<exists>n. cp = dp @ n @ ''/'' \<and> (n \<noteq> [] \<longrightarrow> n \<in> dir_names v b dp)
    \<Longrightarrow> acc_ok v b dp (foldl (list_common dp) acc cps) (N \<union> item_names dp (Common ` set cps))"
proof (induction cps arbitrary: acc N)
  case Nil
  then show ?case by (simp add: item_names_def)
next
  case (Cons cp cps)
  from Cons.prems(2) obtain n where n: "cp = dp @ n @ ''/''" "n \<noteq> [] \<longrightarrow> n \<in> dir_names v b dp"
    by auto
  have "acc_ok v b dp (list_common dp acc cp) (N \<union> ({n} - {[]}))"
    using n by (intro list_common_ok [OF Cons.prems(1)]) auto
  from Cons.IH [OF this] Cons.prems(2)
  have "acc_ok v b dp (foldl (list_common dp) acc (cp # cps))
      (N \<union> ({n} - {[]}) \<union> item_names dp (Common ` set cps))"
    by simp
  moreover have "N \<union> ({n} - {[]}) \<union> item_names dp (Common ` set cps)
      = N \<union> item_names dp (Common ` set (cp # cps))"
    using n(1) by (auto simp: item_names_def)
  ultimately show ?case by simp
qed

lemma foldl_object_ok:
  "acc_ok v b dp acc N \<Longrightarrow>
    \<forall>ob\<in>set obs. \<exists>n d. lo_Key ob = dp @ n \<and> CHR ''/'' \<notin> set n
      \<and> v (loc_of b (dp @ n)) = Some d \<and> lo_Size ob = Some (int (length d))
    \<Longrightarrow> acc_ok v b dp (foldl (list_object dp) acc obs) (N \<union> item_names dp (Obj ` lo_Key ` set obs))"
proof (induction obs arbitrary: acc N)
  case Nil
  then show ?case by (simp add: item_names_def)
next
  case (Cons ob obs)
  from Cons.prems(2) obtain n d where n: "lo_Key ob = dp @ n" "CHR ''/'' \<notin> set n"
    "v (loc_of b (dp @ n)) = Some d" "lo_Size ob = Some (int (length d))" by auto
  have "acc_ok v b dp (list_object dp acc ob) (N \<union> ({n} - {[]}))"
    by (rule list_object_ok [OF Cons.prems(1) n])
  from Cons.IH [OF this] Cons.prems(2)
  have "acc_ok v b dp (foldl (list_object dp) acc (ob # obs))
      (N \<union> ({n} - {[]}) \<union> item_names dp (Obj ` lo_Key ` set obs))"
    by simp
  moreover have "N \<union> ({n} - {[]}) \<union> item_names dp (Obj ` lo_Key ` set obs)
      = N \<union> item_names dp (Obj ` lo_Key ` set (ob # obs))"
    using n(1) by (auto simp: item_names_def)
  ultimately show ?case by simp
qed

lemma item_names_all:
  "item_names dp (items dp ''/'' (keys_of v b)) = file_names v b dp \<union> dir_names v b dp"
  by (auto simp: item_names_def items_slash_Obj items_slash_Common file_names_def dir_names_def)

section \<open>Listings under the contract\<close>

context s3_service
begin

lemma list_loop_Inr:
  assumes b: "mounted_b b"
    and run: "page_loop n (nextListPage h api b dp ''/'') (list_body dp) None ([], []) w = (Inr acc, w')"
  shows "wview view w' = wview view w"
    and "acc_ok (wview view w) b dp acc
      (file_names (wview view w) b dp \<union> dir_names (wview view w) b dp)"
proof -
  let ?v = "wview view w"
  let ?I = "items dp ''/'' (keys_of ?v b)"
  let ?Inv = "\<lambda>acc D x. wview view x = ?v \<and> acc_ok ?v b dp acc (item_names dp D)"
  let ?Pg = "\<lambda>page x. wview view x = ?v \<and> (\<forall>ob\<in>set (lp_Contents page).
    \<exists>d. ?v (loc_of b (lo_Key ob)) = Some d \<and> lo_Size ob = Some (int (length d)))"
  have "?Inv acc ?I w'"
  proof (rule page_loop_inv [where Inv = ?Inv and I = ?I and Pg = ?Pg
        and pending = pending and D = "{}", OF _ _ run])
    fix tok acc D x page x'
    assume i: "?Inv acc D x" and nx: "nextListPage h api b dp ''/'' tok x = (Inr page, x')"
    then show "page_ok pending tok ?I page \<and> ?Inv acc D x' \<and> ?Pg page x'"
      using w_list_Inr [OF b nx] by simp
  next
    fix page acc D x acc' x'
    assume i: "?Inv acc D x" and pg: "?Pg page x" and g: "got page \<subseteq> ?I"
      and bd: "list_body dp page acc x = (Inr acc', x')"
    have cps: "\<forall>cp\<in>set (lp_CommonPrefixes page).
        \<exists>n. cp = dp @ n @ ''/'' \<and> (n \<noteq> [] \<longrightarrow> n \<in> dir_names ?v b dp)"
    proof
      fix cp assume "cp \<in> set (lp_CommonPrefixes page)"
      then have "Common cp \<in> ?I" using g by (auto simp: got_def)
      then show "\<exists>n. cp = dp @ n @ ''/'' \<and> (n \<noteq> [] \<longrightarrow> n \<in> dir_names ?v b dp)"
        unfolding items_slash_Common dir_names_def by blast
    qed
    have obs: "\<forall>ob\<in>set (lp_Contents page). \<exists>n d. lo_Key ob = dp @ n \<and> CHR ''/'' \<notin> set n
        \<and> ?v (loc_of b (dp @ n)) = Some d \<and> lo_Size ob = Some (int (length d))"
    proof
      fix ob assume ob: "ob \<in> set (lp_Contents page)"
      then have "Obj (lo_Key ob) \<in> ?I" using g by (auto simp: got_def)
      then obtain n where "lo_Key ob = dp @ n" "CHR ''/'' \<notin> set n"
        unfolding items_slash_Obj by blast
      with pg ob show "\<exists>n d. lo_Key ob = dp @ n \<and> CHR ''/'' \<notin> set n
        \<and> ?v (loc_of b (dp @ n)) = Some d \<and> lo_Size ob = Some (int (length d))" by metis
    qed
    have "acc' = foldl (list_object dp) (foldl (list_common dp) acc (lp_CommonPrefixes page))
        (lp_Contents page)" and "x' = x"
      using bd by (simp_all add: list_body_def retE_eq)
    moreover have "item_names dp (D \<union> got page) = item_names dp D
        \<union> item_names dp (Common ` set (lp_CommonPrefixes page))
        \<union> item_names dp (Obj ` lo_Key ` set (lp_Contents page))"
      by (auto simp: got_def item_names_Un)
    ultimately show "?Inv acc' (D \<union> got page) x'"
      using foldl_object_ok [OF foldl_common_ok [OF _ cps] obs] i by simp
  next
    show "?Inv ([], []) {} w" by (simp add: acc_ok_def item_names_def)
  qed (simp add: pending_all)
  then show "wview view w' = ?v" and "acc_ok ?v b dp acc (file_names ?v b dp \<union> dir_names ?v b dp)"
    by (simp_all add: item_names_all)
qed

lemma list_loop_fuel:
  assumes b: "mounted_b b"
    and n: "card (keys_of (wview view w) b \<inter> under dp) < n"
  shows "page_loop n (nextListPage h api b dp ''/'') (list_body dp) None ([], []) w
    \<noteq> (Inl OutOfFuel, w')"
proof -
  let ?I = "items dp ''/'' (keys_of (wview view w) b)"
  let ?Inv = "\<lambda>(_::entries) D x. wview view x = wview view w"
  have "?I = item_of dp ''/'' ` (keys_of (wview view w) b \<inter> under dp)"
    by (simp add: items_def)
  moreover have "finite (keys_of (wview view w) b \<inter> under dp)"
    using finite_keys_of [of "wStore w" b] by (simp add: wview_def)
  ultimately have fin: "finite ?I" and c: "card (pending None ?I) < n"
    using n by (simp_all add: pending_all le_less_trans [OF card_image_le])
  show ?thesis
  proof (rule page_loop_fuel [where Inv = ?Inv and I = ?I and Pg = "\<lambda>_ _. True"
        and pending = pending and D = "{}", OF _ _ _ _ fin _ _ c])
    fix tok acc D x page x'
    assume "?Inv acc D x" and "nextListPage h api b dp ''/'' tok x = (Inr page, x')"
    then show "page_ok pending tok ?I page \<and> ?Inv acc D x' \<and> True"
      using w_list_Inr [OF b] by metis
  next
    fix tok x e x' assume "nextListPage h api b dp ''/'' tok x = (Inl e, x')"
    then show "e \<noteq> OutOfFuel" by (rule w_list_fuel)
  qed (simp_all add: list_body_def retE_eq pending_all)
qed

end

end
