(* ===== verification/Guarantees.thy ===== *)
theory Guarantees
  imports RenameSpec Listing
begin

text \<open>
  What holds of every command of a session: where it writes, what its permissions let it
  change, and the exact effect of remove, mkdir, copy and rename as the client asks for them.
\<close>

section \<open>Relations every command keeps\<close>

definition session_ok :: "(client \<Rightarrow> string \<Rightarrow> bool) \<Rightarrow> handlers \<Rightarrow> bool" where
  "session_ok mounted h \<longleftrightarrow>
     wf_vfs (hVfs h) \<and> (\<forall>b\<in>mounts h. mounted (bClient b) (bBucket b))"

text \<open>Backends are stored under their own names: two of one name are one.\<close>

definition named_vfs :: "vfs \<Rightarrow> bool" where
  "named_vfs v \<longleftrightarrow> (\<forall>k b. lookup v k = Some b \<longrightarrow> bName b = k)"

lemma named_vfs_Filter: "named_vfs v \<Longrightarrow> named_vfs (vfs_Filter names v)"
  by (auto simp: named_vfs_def lookup_Filter split: if_splits)

lemma named_vfs_WithBackendPrefixes: "named_vfs v \<Longrightarrow> named_vfs (WithBackendPrefixes pfxs v)"
  by (auto simp: named_vfs_def lookup_WithBackendPrefixes)

lemma named_vfs_unique:
  "named_vfs v \<Longrightarrow> lookup v k = Some b \<Longrightarrow> lookup v k' = Some b' \<Longrightarrow> bName b = bName b' \<Longrightarrow> b = b'"
  by (auto simp: named_vfs_def)

text \<open>The places a session may name: those under the prefixes of its backends.\<close>

definition territory :: "handlers \<Rightarrow> loc set" where
  "territory h = (\<Union>b\<in>mounts h. locs b (under (bPrefix b)))"

text \<open>One object may have been stored at a place of \<open>L\<close>.\<close>

definition stored :: "('w \<Rightarrow> loc \<Rightarrow> string option) \<Rightarrow> loc \<Rightarrow> 'w \<Rightarrow> 'w \<Rightarrow> bool" where
  "stored V l w w' \<longleftrightarrow> V w' = V w \<or> (\<exists>d. V w' = (V w)(l \<mapsto> d))"

definition no_loss :: "('w \<Rightarrow> loc \<Rightarrow> string option) \<Rightarrow> 'w \<Rightarrow> 'w \<Rightarrow> bool" where
  "no_loss V w w' \<longleftrightarrow> (\<forall>l. V w l \<noteq> None \<longrightarrow> V w' l \<noteq> None)"

lemma reflp_no_loss [simp]: "reflp (no_loss V)" and transp_no_loss [simp]: "transp (no_loss V)"
  by (simp_all add: reflp_def transp_def no_loss_def)

lemma within_mono: "within R m \<Longrightarrow> (\<And>s t. R s t \<Longrightarrow> S s t) \<Longrightarrow> within S m"
  by (auto simp: within_def)

lemma within_stored_no_loss: "within (stored V l) m \<Longrightarrow> within (no_loss V) m"
  by (erule within_mono) (auto simp: stored_def no_loss_def)

lemma within_stored_agree: "within (stored V l) m \<Longrightarrow> l \<in> L \<Longrightarrow> within (agree_off V L) m"
  by (erule within_mono) (auto simp: stored_def agree_off_def)

lemma within_erased_mono: "within (erased V A) m \<Longrightarrow> A \<subseteq> L \<Longrightarrow> within (erased V L) m"
  by (erule within_mono) (auto simp: erased_def)

lemma within_same:
  assumes "within (agree_off V {}) m"
  shows "within (no_loss V) m" and "within (erased V L) m" and "within (agree_off V L) m"
  using assms by (auto elim!: within_mono simp: agree_off_def no_loss_def erased_def)

lemma mounts_wf: "session_ok mounted h \<Longrightarrow> b \<in> mounts h \<Longrightarrow> wf_prefix (bPrefix b)"
  by (auto simp: session_ok_def wf_vfs_def mounts_def)

lemma territory_object: "b \<in> mounts h \<Longrightarrow> loc_of b (ObjectKey b key) \<in> territory h"
  by (auto simp: territory_def intro!: bexI [of _ b] simp: ObjectKey_eq)

lemma territory_tree:
  "session_ok mounted h \<Longrightarrow> b \<in> mounts h \<Longrightarrow> loc_of b (DirPrefix b key @ suf) \<in> territory h"
  using DirPrefix_prefix [OF mounts_wf]
  by (auto simp: territory_def intro!: bexI [of _ b])

lemma territory_under:
  assumes "session_ok mounted h" and b: "b \<in> mounts h"
  shows "locs b (under (DirPrefix b key)) \<subseteq> territory h"
proof
  fix l assume "l \<in> locs b (under (DirPrefix b key))"
  then obtain suf where "l = loc_of b (DirPrefix b key @ suf)"
    by (auto simp: locs_def loc_of_def prefix_def)
  with territory_tree [OF assms] show "l \<in> territory h" by simp
qed

context s3_service
begin

lemma stored_copyObject:
  assumes "mounted_b b"
  shows "within (stored (wview view) (loc_of b dst)) (h_copyObject h api b src dst)"
proof (rule withinI)
  fix w r w' assume "h_copyObject h api b src dst w = (r, w')"
  then have "CopyObject api b src dst (wStore w) = (r, wStore w')"
    unfolding h_copyObject_def by (rule timedS3Op_run)
  then show "stored (wview view) (loc_of b dst) w w'"
    using CopyObject_Inr [OF assms] CopyObject_Inl [OF assms]
    unfolding stored_def wview_def by (cases r) blast+
qed

lemma stored_put:
  assumes "mounted_b b"
  shows "within (stored (wview view) (loc_of b k))
    (timedS3Op h op b (s3call (api_PutObject api (bClient b) (bBucket b) k d)))"
proof (rule withinI)
  fix w r w'
  assume "timedS3Op h op b (s3call (api_PutObject api (bClient b) (bBucket b) k d)) w = (r, w')"
  then have "s3call (api_PutObject api (bClient b) (bBucket b) k d) (wStore w) = (r, wStore w')"
    by (rule timedS3Op_run)
  then obtain x where "api_PutObject api (bClient b) (bBucket b) k d (wStore w) = (x, wStore w')"
    by (cases r) (auto simp: act_simps)
  then show "stored (wview view) (loc_of b k) w w'"
    using put_ok [OF assms] put_err [OF assms] unfolding stored_def wview_def loc_of_def
    by (cases x) blast+
qed

lemma stored_stream:
  assumes sb: "mounted_b sb" and db: "mounted_b db"
  shows "within (stored (wview view) (loc_of db dk)) (streamCopyObject h api sb sk db dk)"
proof (rule withinI)
  fix w r w' assume "streamCopyObject h api sb sk db dk w = (r, w')"
  then show "stored (wview view) (loc_of db dk) w w'"
  proof (cases rule: stream_run)
    case (1 e s)
    then show ?thesis using get_frame [OF sb 1(1)] by (simp add: stored_def wview_def)
  next
    case (2 out s up dr)
    obtain d' de where b: "go_Body out True = (d', de)" by (metis prod.collapse)
    have vs: "view s = view (wStore w)" by (rule get_frame [OF sb 2(1)])
    show ?thesis
      using upload_ok [OF db, of dk d' de s _ dr "wStore w'"]
        upload_err [OF db, of dk d' de s _ dr "wStore w'"] 2(2) b vs
      unfolding stored_def wview_def loc_of_def by (cases up) auto
  qed
qed

lemma erased_delete:
  assumes "mounted_b b"
  shows "within (erased (wview view) (locs b {k})) (h_deleteObject h api b k)"
proof (rule withinI)
  fix w r w' assume "h_deleteObject h api b k w = (r, w')"
  then have "DeleteObject api b k (wStore w) = (r, wStore w')"
    unfolding h_deleteObject_def by (rule timedS3Op_run)
  then have "view (wStore w') = view (wStore w)
      \<or> view (wStore w') = (view (wStore w))(loc_of b k := None)"
    using DeleteObject_Inr [OF assms] DeleteObject_Inl [OF assms] by (cases r) blast+
  then show "erased (wview view) (locs b {k}) w w'"
    unfolding erased_def wview_def locs_single by (metis fun_upd_apply singletonI)
qed

lemma erased_deletePrefix:
  assumes "mounted_b b"
  shows "within (erased (wview view) (locs b (under p))) (h_deletePrefix h n api b p)"
proof (rule withinI)
  fix w r w' assume "h_deletePrefix h n api b p w = (r, w')"
  then have "DeletePrefix n api b p (wStore w) = (r, wStore w')"
    unfolding h_deletePrefix_def by (rule timedS3Op_run)
  then show "erased (wview view) (locs b (under p)) w w'"
    using withinD [OF DeletePrefix_erases [OF assms]] by (simp add: erased_def wview_def)
qed

text \<open>Every command writes within the session's territory.\<close>

lemma Filecmd_territory:
  assumes h: "session_ok mounted h"
  shows "within (agree_off (wview view) (territory h)) (Filecmd h fuel api r)"
proof -
  have m: "mounted_b b" if "b \<in> mounts h" for b using h that by (auto simp: session_ok_def)
  note t = territory_object [of _ h] territory_tree [OF h] territory_under [OF h]
  show ?thesis
  proof (rule within_Filecmd)
    fix b key assume b: "b \<in> mounts h"
    show "within (agree_off (wview view) (territory h)) (h_deleteObject h api b (ObjectKey b key))
        \<and> within (agree_off (wview view) (territory h)) (h_deletePrefix h fuel api b (DirPrefix b key))"
      using within_w_delete [OF m [OF b], of "ObjectKey b key" h]
        within_w_deletePrefix [OF m [OF b], of "DirPrefix b key" h fuel]
        t(1) [OF b, of key] t(3) [OF b, of key]
      by (auto intro: within_agree_mono simp: locs_single)
    show "within (agree_off (wview view) (territory h)) (timedS3Op h ''PutObject'' b
        (s3call (api_PutObject api (bClient b) (bBucket b) (DirPrefix b key) [])))"
      using t(2) [OF b, of key "[]"]
      by (auto intro: within_stored_agree [OF stored_put [OF m [OF b]]])
    fix src suf
    show "within (agree_off (wview view) (territory h)) (h_copyObject h api b src (ObjectKey b key))
        \<and> within (agree_off (wview view) (territory h)) (h_copyObject h api b src (DirPrefix b key @ suf))"
      by (intro conjI within_stored_agree [OF stored_copyObject [OF m [OF b]]] t(1,2) [OF b])
    fix sb assume sb: "sb \<in> mounts h"
    show "within (agree_off (wview view) (territory h)) (streamCopyObject h api sb src b (ObjectKey b key))
        \<and> within (agree_off (wview view) (territory h)) (streamCopyObject h api sb src b (DirPrefix b key @ suf))"
      by (intro conjI within_stored_agree [OF stored_stream [OF m [OF sb] m [OF b]]] t(1,2) [OF b])
  qed (auto intro: within_w_exists within_w_entries within_w_list m)
qed

text \<open>Without the delete permission no object disappears.\<close>

lemma Filecmd_no_loss:
  assumes h: "session_ok mounted h" and "\<not> pDelete (hPerms h)"
  shows "within (no_loss (wview view)) (Filecmd h fuel api r)"
proof -
  have m: "mounted_b b" if "b \<in> mounts h" for b using h that by (auto simp: session_ok_def)
  show ?thesis
    by (rule within_Filecmd)
      (use assms(2) in \<open>auto intro: within_stored_no_loss [OF stored_put]
        within_stored_no_loss [OF stored_copyObject] within_stored_no_loss [OF stored_stream]
        within_same(1) within_w_exists within_w_entries within_w_list m\<close>)
qed

text \<open>Without the write permission nothing is stored: objects of the territory may only go.\<close>

lemma Filecmd_erases:
  assumes h: "session_ok mounted h" and "\<not> pWrite (hPerms h)"
  shows "within (erased (wview view) (territory h)) (Filecmd h fuel api r)"
proof -
  have m: "mounted_b b" if "b \<in> mounts h" for b using h that by (auto simp: session_ok_def)
  have ob: "locs b {ObjectKey b key} \<subseteq> territory h" if "b \<in> mounts h" for b key
    using territory_object [OF that, of key] by (simp add: locs_single)
  show ?thesis
  proof (rule within_Filecmd)
    fix b key assume b: "b \<in> mounts h"
    show "within (erased (wview view) (territory h)) (h_deleteObject h api b (ObjectKey b key))
        \<and> within (erased (wview view) (territory h)) (h_deletePrefix h fuel api b (DirPrefix b key))"
      by (intro conjI within_erased_mono [OF erased_delete [OF m [OF b]] ob [OF b]]
          within_erased_mono [OF erased_deletePrefix [OF m [OF b]] territory_under [OF h b]])
  qed (use assms(2) in
      \<open>auto intro: within_same(2) within_w_exists within_w_entries within_w_list m\<close>)
qed

end

text \<open>Every command keeps the metrics in order.\<close>

lemma Filecmd_metrics: "within metrics_ok (Filecmd h fuel api r)"
  by (rule within_Filecmd) (auto simp: metered_defs intro: metrics_ok_timed metrics_ok_stream)

text \<open>A user who may neither write nor delete: no call is made at all.\<close>

lemma Filecmd_read_only:
  assumes "\<not> pWrite (hPerms h)" and "\<not> pDelete (hPerms h)"
  shows "snd (Filecmd h fuel api r w) = w"
proof -
  show ?thesis
    using assms
    by (auto simp: Filecmd_def handleRename_def handleCopy_def cmd_remove_def cmd_mkdir_def
        require_defs bindE_def liftE_def retE_def failE_def split: sum.split prod.split option.split)
qed

section \<open>The effect of each command\<close>

text \<open>Where two directories of one backend are neither equal nor one inside the other.\<close>

lemma separate_keys:
  assumes "wf_prefix (bPrefix b)" and "normal_key k1" and "normal_key k2" and "k1 \<noteq> []" and "k2 \<noteq> []"
    and "\<not> prefix (k1 @ ''/'') (k2 @ ''/'')" and "\<not> prefix (k2 @ ''/'') (k1 @ ''/'')"
  shows "disjoint_trees b (DirPrefix b k1) b (DirPrefix b k2)"
proof -
  have "DirPrefix b k1 = bPrefix b @ (k1 @ ''/'')" "DirPrefix b k2 = bPrefix b @ (k2 @ ''/'')"
    using DirPrefix_key [OF assms(1)] assms(2-5) by (simp_all add: ObjectKey_eq)
  moreover have "\<not> (prefix (bPrefix b @ (k1 @ ''/'')) k \<and> prefix (bPrefix b @ (k2 @ ''/'')) k)" for k
  proof
    assume "prefix (bPrefix b @ (k1 @ ''/'')) k \<and> prefix (bPrefix b @ (k2 @ ''/'')) k"
    then have "prefix (bPrefix b @ (k1 @ ''/'')) (bPrefix b @ (k2 @ ''/''))
        \<or> prefix (bPrefix b @ (k2 @ ''/'')) (bPrefix b @ (k1 @ ''/''))"
      by (elim conjE) (rule prefix_same_cases)
    then show False using assms(6,7) unfolding same_prefix_prefix by blast
  qed
  ultimately have "\<not> (prefix (DirPrefix b k1) k \<and> prefix (DirPrefix b k2) k)" for k
    by (simp only: not_False_eq_True)
  then have "under (DirPrefix b k1) \<inter> under (DirPrefix b k2) = {}"
    unfolding under_def by blast
  then show ?thesis unfolding disjoint_trees_def locs_def by blast
qed

lemma separate_buckets:
  "(bClient sb, bBucket sb) \<noteq> (bClient db, bBucket db) \<Longrightarrow> disjoint_trees sb p db q"
  by (auto simp: disjoint_trees_def locs_def)

context s3_service
begin

lemma resolve_mounted:
  assumes "session_ok mounted h" and "h_resolve h p = Inr (Some b, key)"
  shows "mounted_b b" and "b \<in> mounts h" and "normal_key key"
  using h_resolve_Some [OF assms(2)] assms(1) by (auto simp: mounts_def session_ok_def)

end

definition may_rename :: "handlers \<Rightarrow> backend \<Rightarrow> backend \<Rightarrow> bool" where
  "may_rename h sb db \<longleftrightarrow> pDelete (hPerms h) \<and> pWrite (hPerms h)
     \<and> (bName sb \<noteq> bName db \<longrightarrow> pRead (hPerms h))"

definition remove_body :: "handlers \<Rightarrow> nat \<Rightarrow> 's s3_api \<Rightarrow> backend \<Rightarrow> string \<Rightarrow> ('s world, unit) act" where
  "remove_body h fuel api b key =
     bindE (h_objectExists h api b (ObjectKey b key)) (\<lambda>e.
     bindE (h_prefixHasEntries h api b (DirPrefix b key)) (\<lambda>c.
       if \<not> e \<and> \<not> c then failE ErrNotExist
       else thenE (if e then h_deleteObject h api b (ObjectKey b key) else retE ())
         (if c then h_deletePrefix h fuel api b (DirPrefix b key) else retE ())))"

lemma cmd_remove_body:
  "h_resolve h p = Inr (Some b, key) \<Longrightarrow> pDelete (hPerms h) \<Longrightarrow> key \<noteq> [] \<Longrightarrow>
     cmd_remove h fuel api p = remove_body h fuel api b key"
  by (simp add: cmd_remove_def remove_body_def require_defs bindE_def liftE_def Let_def fun_eq_iff)

context s3_service
begin

lemma cmd_remove_Inr:
  assumes h: "session_ok mounted h" and mem: "remembers api N"
    and res: "h_resolve h p = Inr (Some b, key)"
    and run: "cmd_remove h n api p w = (Inr u, w')"
  shows "cleared (locs b ({ObjectKey b key} \<union> under (DirPrefix b key))) (N (wStore w'))
      (wview view w) (wview view w')
    \<and> present (wview view w) b key \<and> key \<noteq> [] \<and> pDelete (hPerms h)"
proof -
  let ?v = "wview view w" and ?o = "ObjectKey b key" and ?p = "DirPrefix b key"
  note b = resolve_mounted(1) [OF h res]
  have p: "pDelete (hPerms h)" and key: "key \<noteq> []"
    using run res by (auto simp: cmd_remove_def require_defs bindE_def liftE_def failE_def split: if_splits)
  have "remove_body h n api b key w = (Inr u, w')"
    using run res p key by (simp add: cmd_remove_body)
  then obtain e w1 c w2 where
    e: "h_objectExists h api b ?o w = (Inr e, w1)" and c: "h_prefixHasEntries h api b ?p w1 = (Inr c, w2)"
    and rest: "(if \<not> e \<and> \<not> c then failE ErrNotExist
      else thenE (if e then h_deleteObject h api b ?o else retE ())
        (if c then h_deletePrefix h n api b ?p else retE ())) w2 = (Inr u, w')"
    unfolding remove_body_def bindE_Inr by blast
  then have ec: "e \<or> c" by (cases e; cases c) (simp_all add: failE_eq)
  with rest obtain w3 u3 where
    d1: "(if e then h_deleteObject h api b ?o else retE ()) w2 = (Inr u3, w3)"
    and d2: "(if c then h_deletePrefix h n api b ?p else retE ()) w3 = (Inr u, w')"
    by (auto simp: bindE_Inr simp del: if_split)
  from w_exists_Inr [OF b e] have v1: "wview view w1 = ?v" and e': "e \<longleftrightarrow> ?v (loc_of b ?o) \<noteq> None"
    by simp_all
  from w_entries_Inr [OF b c] v1 have v2: "wview view w2 = ?v"
    and c': "c \<longleftrightarrow> tree_keys ?v b key \<noteq> {}" by (simp_all add: tree_keys_def)
  have v3: "wview view w3 = ?v(loc_of b ?o := None)"
  proof (cases e)
    case True
    with d1 w_delete_Inr [OF b] v2 show ?thesis by simp
  next
    case False
    with d1 v2 e' show ?thesis by (auto simp: retE_eq)
  qed
  have "cleared (locs b (under ?p)) (N (wStore w')) (wview view w3) (wview view w')"
  proof (cases c)
    case True
    with d2 w_deletePrefix_Inr [OF b mem] show ?thesis by simp
  next
    case False
    with d2 have w': "w' = w3" by (simp add: retE_eq)
    have "?v l = None" if l: "l \<in> locs b (under ?p)" for l
    proof -
      from l obtain k where k: "l = loc_of b k" "prefix ?p k" by (auto simp: locs_def loc_of_def)
      then have "k \<notin> keys_of ?v b" using False c' by (auto simp: tree_keys_def)
      then show ?thesis by (simp add: k keys_of_def)
    qed
    then show ?thesis unfolding w' v3 cleared_def by simp
  qed
  from cleared_trans [OF cleared_upd [OF v3] this subset_refl]
  have "cleared (locs b ({?o} \<union> under ?p)) (N (wStore w')) ?v (wview view w')"
    by (simp only: locs_Un locs_single)
  moreover have "present ?v b key" using ec e' c' by (simp add: present_def)
  ultimately show ?thesis using key p by simp
qed

lemma cmd_mkdir_Inr:
  assumes h: "session_ok mounted h" and res: "h_resolve h p = Inr (Some b, key)"
    and run: "cmd_mkdir h api p w = (Inr u, w')"
  shows "wview view w' = (if key = [] then wview view w
    else (wview view w)(loc_of b (ObjectKey b key @ ''/'') \<mapsto> []))"
proof (cases "key = []")
  case True
  then show ?thesis using run res
    by (auto simp: cmd_mkdir_def require_defs act_simps split: if_splits)
next
  case False
  note m = resolve_mounted [OF h res]
  have "timedS3Op h ''PutObject'' b (s3call (api_PutObject api (bClient b) (bBucket b)
      (DirPrefix b key) [])) w = (Inr u, w')"
    using run res False by (auto simp: cmd_mkdir_def require_defs act_simps split: if_splits)
  from timedS3Op_run [OF this] have "api_PutObject api (bClient b) (bBucket b) (DirPrefix b key) []
      (wStore w) = (Inr u, wStore w')" by (simp add: act_simps)
  from put_ok [OF m(1) this] False show ?thesis
    unfolding DirPrefix_key [OF mounts_wf [OF h m(2)] m(3) False] wview_def loc_of_def
    by (rule trans [OF _ if_not_P [symmetric]])
qed

text \<open>Copy and rename reach the common algorithm.\<close>

lemma handleCopy_gen:
  assumes h: "session_ok mounted h" and "named_vfs (hVfs h)"
    and src: "h_resolve h p = Inr (Some sb, k1)" and dst: "h_resolve h q = Inr (Some db, k2)"
  obtains copy where "copier (wview view) copy sb db"
    and "handleCopy h n api p q = gen_copy copy h n api sb k1 db k2"
proof (cases "bName sb = bName db")
  case True
  then have "sb = db"
    using named_vfs_unique [OF assms(2)] h_resolve_Some [OF src] h_resolve_Some [OF dst] by blast
  then show ?thesis
    using copier_copyObject [OF resolve_mounted(1) [OF h src]] src dst
    by (intro that [of "h_copyObject h api sb"])
      (auto simp: handleCopy_def sameBackendCopy_gen bindE_def liftE_def fun_eq_iff)
next
  case False
  then show ?thesis
    using copier_stream [OF resolve_mounted(1) [OF h src] resolve_mounted(1) [OF h dst]] src dst
    by (intro that [of "\<lambda>sk. streamCopyObject h api sb sk db"])
      (auto simp: handleCopy_def crossBackendCopy_gen bindE_def liftE_def fun_eq_iff)
qed

lemma handleRename_gen:
  assumes h: "session_ok mounted h" and "named_vfs (hVfs h)"
    and src: "h_resolve h p = Inr (Some sb, k1)" and dst: "h_resolve h q = Inr (Some db, k2)"
  obtains copy where "copier (wview view) copy sb db"
    and "handleRename h n api p q = (if may_rename h sb db then gen_rename copy h n api sb k1 db k2
      else failE PermissionDenied)"
proof (cases "bName sb = bName db")
  case True
  then have "sb = db"
    using named_vfs_unique [OF assms(2)] h_resolve_Some [OF src] h_resolve_Some [OF dst] by blast
  then show ?thesis
    using copier_copyObject [OF resolve_mounted(1) [OF h src]] src dst
    by (intro that [of "h_copyObject h api sb"])
      (auto simp: handleRename_def sameBackendRename_gen bindE_def liftE_def failE_def retE_def
        require_defs may_rename_def fun_eq_iff)
next
  case False
  then show ?thesis
    using copier_stream [OF resolve_mounted(1) [OF h src] resolve_mounted(1) [OF h dst]] src dst
    by (intro that [of "\<lambda>sk. streamCopyObject h api sb sk db"])
      (auto simp: handleRename_def crossBackendRename_gen bindE_def liftE_def failE_def retE_def
        require_defs may_rename_def fun_eq_iff)
qed

text \<open>Remove needs as many pages as there are objects under the directory.\<close>

lemma cmd_remove_fuel:
  assumes h: "session_ok mounted h" and res: "h_resolve h p = Inr (Some b, key)"
    and n: "card (tree_keys (wview view w) b key) < n"
  shows "cmd_remove h n api p w \<noteq> (Inl OutOfFuel, w')"
proof
  let ?o = "ObjectKey b key" and ?p = "DirPrefix b key"
  note b = resolve_mounted(1) [OF h res]
  assume run: "cmd_remove h n api p w = (Inl OutOfFuel, w')"
  then have "pDelete (hPerms h)" and "key \<noteq> []"
    using res by (auto simp: cmd_remove_def require_defs bindE_def liftE_def failE_def split: if_splits)
  with run res have "remove_body h n api b key w = (Inl OutOfFuel, w')"
    by (simp add: cmd_remove_body)
  then obtain e w1 c w2 where
    e: "h_objectExists h api b ?o w = (Inr e, w1)" and c: "h_prefixHasEntries h api b ?p w1 = (Inr c, w2)"
    and rest: "(if \<not> e \<and> \<not> c then failE ErrNotExist
      else thenE (if e then h_deleteObject h api b ?o else retE ())
        (if c then h_deletePrefix h n api b ?p else retE ())) w2 = (Inl OutOfFuel, w')"
    unfolding remove_body_def bindE_Inl bindE_Inr
    using w_exists_Inl [OF b] w_entries_Inl [OF b] by blast
  have v2: "wview view w2 = wview view w"
    using w_exists_Inr [OF b e] w_entries_Inr [OF b c] by simp
  have no1: "h_deleteObject h api b ?o x \<noteq> (Inl OutOfFuel, y)" for x y
    using DeleteObject_Inl [OF b] timedS3Op_run unfolding h_deleteObject_def by metis
  obtain w3 where d1: "(if e then h_deleteObject h api b ?o else retE ()) w2 = (Inr (), w3)"
    and d2: "h_deletePrefix h n api b ?p w3 = (Inl OutOfFuel, w')"
    using rest no1 by (auto simp: act_simps split: if_splits)
  have "keys_of (wview view w3) b \<subseteq> keys_of (wview view w) b"
  proof (cases e)
    case True
    with d1 w_delete_Inr [OF b] v2 have "wview view w3 = (wview view w)(loc_of b ?o := None)" by simp
    then show ?thesis by (auto simp: keys_of_def)
  next
    case False
    with d1 v2 show ?thesis by (auto simp: retE_eq)
  qed
  then have "card (keys_of (view (wStore w3)) b \<inter> under ?p) \<le> card (tree_keys (wview view w) b key)"
    unfolding tree_keys_def by (intro card_mono) (auto simp: wview_def)
  with n have "card (keys_of (view (wStore w3)) b \<inter> under ?p) < n" by simp
  from DeletePrefix_fuel [OF b this] timedS3Op_run [OF d2 [unfolded h_deletePrefix_def]]
  show False by blast
qed

end

end
