(* ===== verification/Refusals.thy ===== *)
theory Refusals
  imports Guarantees
begin

text \<open>
  The keys the service refuses to delete. \<open>DeleteObjects\<close> names them in its answer, which the
  program does not look at. \<open>noting api\<close> is the service with a notebook beside its state, where
  these keys are written down; a run over it is, the notebook apart, the run over the service
  itself. So what a command reports and what has become of every object can be stated for
  every service of the contract, whatever it refuses.
\<close>

section \<open>The service with a notebook\<close>

definition carry :: "('s \<Rightarrow> 'r \<times> 's) \<Rightarrow> 's \<times> 'n \<Rightarrow> 'r \<times> ('s \<times> 'n)" where
  "carry f x = (case f (fst x) of (r, t) \<Rightarrow> (r, (t, snd x)))"

definition refusals :: "client \<Rightarrow> string \<Rightarrow> s3_error + string list \<Rightarrow> loc list" where
  "refusals c b r = (case r of Inl _ \<Rightarrow> [] | Inr failed \<Rightarrow> map (\<lambda>k. (c, b, k)) failed)"

definition noting_deletes :: "'s s3_api \<Rightarrow> client \<Rightarrow> string \<Rightarrow> string list \<Rightarrow> 's \<times> loc list
    \<Rightarrow> (s3_error + string list) \<times> ('s \<times> loc list)" where
  "noting_deletes api c b ks x =
     (case api_DeleteObjects api c b ks (fst x) of (r, t) \<Rightarrow> (r, (t, snd x @ refusals c b r)))"

definition noting :: "'s s3_api \<Rightarrow> ('s \<times> loc list) s3_api" where
  "noting api =
     \<lparr>api_HeadObject = (\<lambda>c b k. carry (api_HeadObject api c b k)),
      api_GetObject = (\<lambda>c b k r. carry (api_GetObject api c b k r)),
      api_PutObject = (\<lambda>c b k d. carry (api_PutObject api c b k d)),
      api_CopyObject = (\<lambda>c b k src. carry (api_CopyObject api c b k src)),
      api_DeleteObject = (\<lambda>c b k. carry (api_DeleteObject api c b k)),
      api_DeleteObjects = noting_deletes api,
      api_ListObjectsV2 = (\<lambda>c b li. carry (api_ListObjectsV2 api c b li)),
      api_Upload = (\<lambda>c b k body. carry (api_Upload api c b k body))\<rparr>"

lemma noting_sel [simp]:
  "api_HeadObject (noting api) c b k = carry (api_HeadObject api c b k)"
  "api_GetObject (noting api) c b k rg = carry (api_GetObject api c b k rg)"
  "api_PutObject (noting api) c b k d = carry (api_PutObject api c b k d)"
  "api_CopyObject (noting api) c b k src = carry (api_CopyObject api c b k src)"
  "api_DeleteObject (noting api) c b k = carry (api_DeleteObject api c b k)"
  "api_DeleteObjects (noting api) c b ks = noting_deletes api c b ks"
  "api_ListObjectsV2 (noting api) c b li = carry (api_ListObjectsV2 api c b li)"
  "api_Upload (noting api) c b k body = carry (api_Upload api c b k body)"
  by (simp_all add: noting_def)

lemma carry_eq: "carry f x = (r, y) \<longleftrightarrow> f (fst x) = (r, fst y) \<and> snd y = snd x"
  by (cases y) (auto simp: carry_def split: prod.splits)

lemma noting_deletes_eq:
  "noting_deletes api c b ks x = (r, y) \<longleftrightarrow>
     api_DeleteObjects api c b ks (fst x) = (r, fst y) \<and> snd y = snd x @ refusals c b r"
  by (cases y) (auto simp: noting_deletes_def split: prod.splits)

lemma remembers_noting: "remembers (noting api) (set \<circ> snd)"
  by (auto simp: remembers_def noting_deletes_eq refusals_def)

context s3_service
begin

text \<open>The notebook keeps the contract.\<close>

lemma noting_service: "s3_service (noting api) (view \<circ> fst) mounted pending"
proof (unfold_locales, unfold noting_sel carry_eq noting_deletes_eq comp_apply)
qed ((elim conjE)?, (rule bucket_name finite_bucket head_ok head_err get_frame get_ok put_ok put_err
    copy_ok copy_err delete_ok delete_err deletes_ok deletes_err list_frame list_ok upload_ok upload_err
    get_marks upload_marks pending_all; assumption))+

end

section \<open>Running with and without the notebook\<close>

text \<open>\<open>lockstep g m' m\<close>: \<open>m'\<close> does what \<open>m\<close> does, seen through \<open>g\<close>.\<close>

definition lockstep :: "('x \<Rightarrow> 's) \<Rightarrow> ('x, 'a) act \<Rightarrow> ('s, 'a) act \<Rightarrow> bool" where
  "lockstep g m' m \<longleftrightarrow> (\<forall>x. m (g x) = map_prod id g (m' x))"

lemma lockstep_retE: "lockstep g (retE v) (retE v)"
  and lockstep_failE: "lockstep g (failE e) (failE e)"
  and lockstep_liftE: "lockstep g (liftE r) (liftE r)"
  by (simp_all add: lockstep_def retE_app failE_app liftE_app)

lemma lockstep_bindE:
  assumes "lockstep g m' m" and "\<And>v. lockstep g (f' v) (f v)"
  shows "lockstep g (bindE m' f') (bindE m f)"
  unfolding lockstep_def
proof
  fix x
  obtain r y where run: "m' x = (r, y)" by fastforce
  then have "m (g x) = (r, g y)" using assms(1) by (simp add: lockstep_def)
  with run assms(2) show "bindE m f (g x) = map_prod id g (bindE m' f' x)"
    by (cases r) (simp_all add: lockstep_def)
qed

lemma lockstep_if:
  "lockstep g m' m \<Longrightarrow> lockstep g n' n \<Longrightarrow>
     lockstep g (if c then m' else n') (if c then m else n)"
  by simp

lemma lockstep_forE:
  assumes "\<And>x. lockstep g (f' x) (f x)"
  shows "lockstep g (forE f' xs) (forE f xs)"
  by (induction xs) (simp_all add: assms lockstep_retE lockstep_bindE)

lemma lockstep_page_loop:
  assumes "\<And>tok. lockstep g (next' tok) (next tok)"
    and "\<And>page acc. lockstep g (body' page acc) (body page acc)"
  shows "lockstep g (page_loop n next' body' tok acc) (page_loop n next body tok acc)"
proof (induction n arbitrary: tok acc)
  case (Suc n)
  then show ?case
    by (auto intro!: lockstep_bindE assms lockstep_retE split: option.split)
qed (simp add: lockstep_failE)

lemma lockstep_s3call:
  assumes "\<And>x. f (fst x) = map_prod id fst (f' x)"
  shows "lockstep fst (s3call f') (s3call f)"
  unfolding lockstep_def s3call_def assms
  by (auto split: prod.split sum.split)

lemma lockstep_carry: "lockstep fst (s3call (carry f)) (s3call f)"
  by (rule lockstep_s3call) (simp add: carry_def split: prod.split)

lemma lockstep_deletes:
  "lockstep fst (s3call (noting_deletes api c b ks)) (s3call (api_DeleteObjects api c b ks))"
  by (rule lockstep_s3call) (simp add: noting_deletes_def split: prod.split)

subsection \<open>The storage operations\<close>

lemma lockstep_delete_batches:
  "lockstep fst (delete_batches (noting api) b keys i) (delete_batches api b keys i)"
proof (induction "length keys - i" arbitrary: i rule: less_induct)
  case less
  show ?case
  proof (cases "i < length keys")
    case True
    then have "lockstep fst (delete_batches (noting api) b keys (i + 1000)) (delete_batches api b keys (i + 1000))"
      using less by simp
    with True show ?thesis
      by (simp add: delete_batches.simps [of _ b keys i] Let_def lockstep_bindE lockstep_deletes)
  qed (simp add: delete_batches.simps [of _ b keys i] lockstep_retE)
qed

lemma lockstep_list_page: "lockstep fst (list_page (noting api) b p d tok) (list_page api b p d tok)"
  by (simp add: list_page_def lockstep_carry)

lemma lockstep_DeletePrefix: "lockstep fst (DeletePrefix n (noting api) b p) (DeletePrefix n api b p)"
  unfolding DeletePrefix_def
  by (intro lockstep_bindE lockstep_page_loop lockstep_list_page lockstep_retE lockstep_delete_batches)

lemma lockstep_ObjectExists: "lockstep fst (ObjectExists (noting api) b k) (ObjectExists api b k)"
  by (auto simp: lockstep_def ObjectExists_def carry_def split: prod.split sum.split)

lemma lockstep_PrefixHasEntries:
  "lockstep fst (PrefixHasEntries (noting api) b p) (PrefixHasEntries api b p)"
  by (simp add: PrefixHasEntries_def lockstep_bindE lockstep_carry lockstep_retE)

lemma lockstep_DeleteObject: "lockstep fst (DeleteObject (noting api) b k) (DeleteObject api b k)"
  and lockstep_CopyObject: "lockstep fst (CopyObject (noting api) b sk dk) (CopyObject api b sk dk)"
  by (simp_all add: DeleteObject_def CopyObject_def lockstep_carry)

subsection \<open>The commands\<close>

definition with_notes :: "'s world \<Rightarrow> ('s \<times> loc list) world" where
  "with_notes w = \<lparr>wStore = (wStore w, []), wMetrics = wMetrics w\<rparr>"

definition forget :: "('s \<times> loc list) world \<Rightarrow> 's world" where
  "forget x = \<lparr>wStore = fst (wStore x), wMetrics = wMetrics x\<rparr>"

lemma forget_with_notes [simp]: "forget (with_notes w) = w"
  by (simp add: forget_def with_notes_def)

lemma forget_sel [simp]: "wStore (forget x) = fst (wStore x)" "wMetrics (forget x) = wMetrics x"
  by (simp_all add: forget_def)

lemma forget_upd:
  "forget (x\<lparr>wStore := s\<rparr>) = forget x\<lparr>wStore := fst s\<rparr>"
  "forget (x\<lparr>wMetrics := m\<rparr>) = forget x\<lparr>wMetrics := m\<rparr>"
  "forget (recordS3Op en op b f x) = recordS3Op en op b f (forget x)"
  by (simp_all add: forget_def recordS3Op_def)

lemma wview_forget: "wview (view \<circ> fst) x = wview view (forget x)"
  by (simp add: wview_def)

lemma lockstep_timed:
  fixes fn' :: "('s \<times> loc list, 'a) act"
  assumes "lockstep fst fn' fn"
  shows "lockstep forget (timedS3Op h op b fn') (timedS3Op h op b fn)"
  unfolding lockstep_def
proof
  fix x :: "('s \<times> loc list) world"
  obtain r s where run: "fn' (wStore x) = (r, s)" by (rule prod.exhaust)
  have "fn (fst (wStore x)) = map_prod id fst (fn' (wStore x))"
    using assms unfolding lockstep_def by (rule spec)
  then have "fn (fst (wStore x)) = (r, fst s)" by (simp add: run)
  with run show "timedS3Op h op b fn (forget x) = map_prod id forget (timedS3Op h op b fn' x)"
    by (simp add: timedS3Op_def forget_upd)
qed

lemma lockstep_stream:
  fixes api :: "'s s3_api"
  shows "lockstep forget (streamCopyObject h (noting api) sb sk db dk) (streamCopyObject h api sb sk db dk)"
  unfolding lockstep_def
proof
  fix x :: "('s \<times> loc list) world"
  obtain g s where get: "api_GetObject api (bClient sb) (bBucket sb) sk None (fst (wStore x)) = (g, s)"
    by fastforce
  show "streamCopyObject h api sb sk db dk (forget x)
      = map_prod id forget (streamCopyObject h (noting api) sb sk db dk x)"
  proof (cases g)
    case (Inl e)
    then show ?thesis by (simp add: streamCopyObject_def carry_def get forget_upd)
  next
    case (Inr out)
    obtain up dr t where put: "api_Upload api (bClient db) (bBucket db) dk (go_Body out True) s = ((up, dr), t)"
      by (metis prod.collapse)
    show ?thesis
      by (cases up; cases "snd (go_Body out True)")
        (simp_all add: streamCopyObject_def carry_def get Inr put Let_def forget_def
          recordS3Op_def split: option.split)
  qed
qed

lemma lockstep_metered:
  "lockstep forget (h_objectExists h (noting api) b k) (h_objectExists h api b k)"
  "lockstep forget (h_prefixHasEntries h (noting api) b p) (h_prefixHasEntries h api b p)"
  "lockstep forget (nextListPage h (noting api) b p d tok) (nextListPage h api b p d tok)"
  "lockstep forget (h_deleteObject h (noting api) b k) (h_deleteObject h api b k)"
  "lockstep forget (h_deletePrefix h n (noting api) b p) (h_deletePrefix h n api b p)"
  "lockstep forget (h_copyObject h (noting api) b k k2) (h_copyObject h api b k k2)"
  unfolding metered_defs
  by (intro lockstep_timed lockstep_ObjectExists lockstep_PrefixHasEntries lockstep_list_page
      lockstep_DeleteObject lockstep_DeletePrefix lockstep_CopyObject)+

lemmas lockstep_rules = lockstep_bindE lockstep_if lockstep_retE lockstep_failE lockstep_liftE
  lockstep_metered lockstep_stream

lemma lockstep_gen_copy:
  assumes "\<And>sk dk. lockstep forget (copy' sk dk) (copy sk dk)"
  shows "lockstep forget (gen_copy copy' h n (noting api) sb k1 db k2) (gen_copy copy h n api sb k1 db k2)"
  unfolding gen_copy_def copy_tree_def Let_def
  by (intro lockstep_rules lockstep_page_loop lockstep_forE assms)

lemma lockstep_remove_source:
  "lockstep forget (remove_source h n (noting api) b k) (remove_source h n api b k)"
  unfolding remove_source_def Let_def by (intro lockstep_rules)

lemma lockstep_remove: "lockstep forget (cmd_remove h n (noting api) p) (cmd_remove h n api p)"
  unfolding cmd_remove_def Let_def
  by (auto intro!: lockstep_rules split: option.split)

lemma lockstep_mkdir: "lockstep forget (cmd_mkdir h (noting api) p) (cmd_mkdir h api p)"
  unfolding cmd_mkdir_def
  by (auto intro!: lockstep_rules lockstep_timed lockstep_carry split: option.split)

lemma lockstep_copy: "lockstep forget (handleCopy h n (noting api) p q) (handleCopy h n api p q)"
  unfolding handleCopy_def sameBackendCopy_gen crossBackendCopy_gen
  by (auto intro!: lockstep_rules lockstep_gen_copy split: option.split)

lemma lockstep_rename: "lockstep forget (handleRename h n (noting api) p q) (handleRename h n api p q)"
  unfolding handleRename_def sameBackendRename_gen crossBackendRename_gen gen_rename_def Let_def
  by (auto intro!: lockstep_rules lockstep_gen_copy lockstep_remove_source split: option.split)

text \<open>A command answers the same and leaves the same world, with the notebook and without.\<close>

lemma lockstep_Filecmd: "lockstep forget (Filecmd h n (noting api) r) (Filecmd h n api r)"
  unfolding Filecmd_def
  by (intro lockstep_rules lockstep_rename lockstep_copy lockstep_remove lockstep_mkdir)

section \<open>What a command was refused\<close>

definition refused :: "handlers \<Rightarrow> nat \<Rightarrow> 's s3_api \<Rightarrow> request \<Rightarrow> 's world \<Rightarrow> loc set" where
  "refused h n api r w = set (snd (wStore (snd (Filecmd h n (noting api) r (with_notes w)))))"

definition refused_under :: "nat \<Rightarrow> 's s3_api \<Rightarrow> backend \<Rightarrow> string \<Rightarrow> 's \<Rightarrow> loc set" where
  "refused_under n api b p s = set (snd (snd (DeletePrefix n (noting api) b p (s, []))))"

lemma noted_run:
  assumes "Filecmd h n api r w = (res, w')"
  obtains x where "Filecmd h n (noting api) r (with_notes w) = (res, x)" and "forget x = w'"
    and "(set \<circ> snd) (wStore x) = refused h n api r w"
proof -
  obtain res' x where run: "Filecmd h n (noting api) r (with_notes w) = (res', x)" by (rule prod.exhaust)
  have "Filecmd h n api r (forget (with_notes w)) = (res', forget x)"
    using lockstep_Filecmd [of h n api r] run unfolding lockstep_def by (metis id_apply map_prod_simp)
  then have "res' = res" "forget x = w'" using assms by simp_all
  with run that show thesis by (simp add: refused_def)
qed

lemma noted_prefix:
  assumes "DeletePrefix n api b p s = (r, t)"
  obtains x where "DeletePrefix n (noting api) b p (s, []) = (r, x)" and "fst x = t"
    and "(set \<circ> snd) x = refused_under n api b p s"
proof -
  obtain r' x where run: "DeletePrefix n (noting api) b p (s, []) = (r', x)" by (rule prod.exhaust)
  have "DeletePrefix n api b p (fst (s, [] :: loc list)) = (r', fst x)"
    using lockstep_DeletePrefix [of n api b p] run unfolding lockstep_def by (metis id_apply map_prod_simp)
  then have "r' = r" "fst x = t" using assms by simp_all
  with run that show thesis by (simp add: refused_under_def)
qed


text \<open>The effect of a successful deletion, rename and remove, for any service of the contract.\<close>

context s3_service
begin

lemma DeletePrefix_refused:
  assumes "mounted_b b" and "DeletePrefix n api b p s = (Inr u, t)"
  shows "cleared (locs b (under p)) (refused_under n api b p s) (view s) (view t)"
proof -
  from noted_prefix [OF assms(2)] obtain x
    where run: "DeletePrefix n (noting api) b p (s, []) = (Inr u, x)" and t: "fst x = t"
      and N: "(set \<circ> snd) x = refused_under n api b p s" by blast
  from s3_service.DeletePrefix_Inr [OF noting_service assms(1) remembers_noting run]
  show ?thesis by (simp only: N [unfolded comp_apply] t comp_apply fst_conv)
qed

lemma remove_refused:
  assumes "session_ok mounted h" and "h_resolve h p = Inr (Some b, key)"
    and "rMethod r = ''Remove'' \<or> rMethod r = ''Rmdir''" and "rFilepath r = p"
    and "Filecmd h n api r w = (Inr u, w')"
  shows "cleared (locs b ({ObjectKey b key} \<union> under (DirPrefix b key))) (refused h n api r w)
      (wview view w) (wview view w')
    \<and> present (wview view w) b key \<and> key \<noteq> [] \<and> pDelete (hPerms h)"
proof -
  from noted_run [OF assms(5)] obtain x
    where "Filecmd h n (noting api) r (with_notes w) = (Inr u, x)" and w': "forget x = w'"
      and N: "(set \<circ> snd) (wStore x) = refused h n api r w" by blast
  then have run: "cmd_remove h n (noting api) p (with_notes w) = (Inr u, x)"
    using assms(3,4) by (auto simp: Filecmd_def)
  from s3_service.cmd_remove_Inr [OF noting_service assms(1) remembers_noting assms(2) run]
  show ?thesis by (simp only: N w' wview_forget forget_with_notes simp_thms)
qed

lemma rename_refused:
  assumes "session_ok mounted h" and "named_vfs (hVfs h)"
    and "h_resolve h p = Inr (Some sb, k1)" and "h_resolve h q = Inr (Some db, k2)"
    and "separate (wview view w) sb k1 db k2"
    and "rMethod r = ''Rename''" and "rFilepath r = p" and "rTarget r = q"
    and "Filecmd h n api r w = (Inr u, w')"
  shows "renamed (wview view w) (wview view w') (refused h n api r w) sb k1 db k2
    \<and> present (wview view w) sb k1 \<and> may_rename h sb db"
proof -
  from noted_run [OF assms(9)] obtain x
    where "Filecmd h n (noting api) r (with_notes w) = (Inr u, x)" and w': "forget x = w'"
      and N: "(set \<circ> snd) (wStore x) = refused h n api r w" by blast
  then have run: "handleRename h n (noting api) p q (with_notes w) = (Inr u, x)"
    using assms(6-8) by (auto simp: Filecmd_def)
  obtain copy where c: "copier (wview (view \<circ> fst)) copy sb db"
    and eq: "handleRename h n (noting api) p q = (if may_rename h sb db
      then gen_rename copy h n (noting api) sb k1 db k2 else failE PermissionDenied)"
    by (rule s3_service.handleRename_gen [OF noting_service assms(1-4)])
  from run eq have may: "may_rename h sb db"
    and run: "gen_rename copy h n (noting api) sb k1 db k2 (with_notes w) = (Inr u, x)"
    by (auto simp: failE_eq split: if_splits)
  have "separate (wview (view \<circ> fst) (with_notes w)) sb k1 db k2"
    using assms(5) by (simp only: wview_forget forget_with_notes)
  from s3_service.gen_rename_Inr [OF noting_service resolve_mounted(1) [OF assms(1,3)] c
      remembers_noting this run] may
  show ?thesis by (simp only: N w' wview_forget forget_with_notes simp_thms)
qed

end

end
