(* ===== verification/FileTransfer.thy ===== *)
theory FileTransfer
  imports HandlerBase Ratelimit
begin

text \<open>
  Downloads and uploads in \<open>internal/sftphandlers/handlers.go\<close>: \<open>Fileread\<close> with the ranged
  reader it opens, \<open>Filewrite\<close> with the buffering writer, its size limit and the upload of
  \<open>Close\<close>.
\<close>

section \<open>Reading\<close>

record s3Reader =
  rdBackend :: backend
  rdKey :: string
  rdSize :: int
  rdMetrics :: bool
  rdMaxReadSize :: int

definition ErrUnexpectedEOF :: go_error where
  "ErrUnexpectedEOF = Errorf ''unexpected EOF'' []"

text \<open>\<open>io.ReadFull\<close> into a buffer of \<open>n\<close> bytes.\<close>

definition io_ReadFull :: "string \<times> go_error option \<Rightarrow> nat \<Rightarrow> string \<times> go_error option" where
  "io_ReadFull body n =
     (case body of (d, err) \<Rightarrow>
        if n \<le> length d then (take n d, None)
        else (d, case err of
                   Some e \<Rightarrow> Some e
                 | None \<Rightarrow> if d = [] then Some EOF else Some ErrUnexpectedEOF))"

definition s3Reader_ReadAt :: "'s s3_api \<Rightarrow> s3Reader \<Rightarrow> 's world reader_at" where
  "s3Reader_ReadAt api r len off w =
     (let b = rdBackend r in
      if rdMaxReadSize r > 0 \<and> len > rdMaxReadSize r
      then (([], Some (Errorf ''read exceeds maximum allowed size'' [])), w)
      else if off \<ge> rdSize r then (([], Some EOF), w)
      else
        let e = i64 (i64 (off + len) - 1);
            e = (if e \<ge> rdSize r then rdSize r - 1 else e)
        in if e < off then (([], Some EOF), w)
           else case api_GetObject api (bClient b) (bBucket b) (rdKey r) (Some (off, e)) (wStore w) of
             (res, s) \<Rightarrow>
               let w = recordS3Op (rdMetrics r) ''GetObject'' b (isl res) (w\<lparr>wStore := s\<rparr>)
               in case res of
                 Inl x \<Rightarrow> (([], Some (if x = NoSuchKey then ErrNotExist else S3 x)), w)
               | Inr out \<Rightarrow>
                   (case io_ReadFull (go_Body out False) (nat (e - off + 1)) of
                      (d, err) \<Rightarrow>
                        ((d, if err = Some ErrUnexpectedEOF then Some EOF else err),
                         if rdMetrics r \<and> d \<noteq> []
                         then w\<lparr>wMetrics := AddDownloadBytes (int (length d)) (wMetrics w)\<rparr>
                         else w)))"

text \<open>What \<open>Fileread\<close> returns: the reader, or the reader behind the user's limiter.\<close>

datatype sftp_reader = PlainReader s3Reader | RateLimitedReader s3Reader nat

definition Fileread :: "handlers \<Rightarrow> 's s3_api \<Rightarrow> request \<Rightarrow> ('s world, sftp_reader) act" where
  "Fileread h api r =
     bindE (liftE (requireRead (hPerms h))) (\<lambda>_.
     if rMethod r \<noteq> ''Get'' then failE OpUnsupported
     else bindE (liftE (h_resolve h (rFilepath r))) (\<lambda>(bo, key).
       case bo of
         None \<Rightarrow> failE (Errorf ''cannot read directory'' [])
       | Some b \<Rightarrow>
           if key = [] then failE (Errorf ''cannot read directory'' [])
           else (\<lambda>w.
             case timedS3Op h ''HeadObject'' b
                    (s3call (api_HeadObject api (bClient b) (bBucket b) (ObjectKey b key))) w of
               (Inl e, w) \<Rightarrow>
                 (Inl (if e = S3 NotFound \<or> e = S3 NoSuchKey then ErrNotExist else e), w)
             | (Inr head, w) \<Rightarrow>
                 let reader = \<lparr>rdBackend = b, rdKey = ObjectKey b key,
                       rdSize = aws_ToInt64 (ho_ContentLength head), rdMetrics = hMetrics h,
                       rdMaxReadSize = hMaxReadSize h\<rparr>
                 in (Inr (case hRateLimiter h of
                            None \<Rightarrow> PlainReader reader
                          | Some lim \<Rightarrow> RateLimitedReader reader lim), w))))"

section \<open>Writing\<close>

record s3Writer =
  wrBackend :: backend
  wrKey :: string
  wrFile :: string
  wrSize :: int
  wrMetrics :: bool
  wrClosed :: bool
  wrMaxFileSize :: int

text \<open>
  The temporary file is its bytes. Writing beyond its end fills the gap with zero bytes;
  writing nothing leaves it as it is. \<open>disk\<close> is the outcome of the system's write: \<open>None\<close>
  when all is written, the number of bytes written and the error otherwise.
\<close>

definition overlay :: "string \<Rightarrow> nat \<Rightarrow> string \<Rightarrow> string" where
  "overlay f off p =
     (if p = [] then f
      else take off (f @ replicate (off - length f) (CHR 0x00)) @ p @ drop (off + length p) f)"

type_synonym disk = "string \<Rightarrow> int \<Rightarrow> (nat \<times> go_error) option"

definition file_WriteAt :: "disk \<Rightarrow> string \<Rightarrow> int \<Rightarrow> string \<Rightarrow> (int \<times> go_error option) \<times> string" where
  "file_WriteAt disk p off f =
     (if off < 0 then ((0, Some (Errorf ''negative offset'' [])), f)
      else case disk p off of
        None \<Rightarrow> ((int (length p), None), overlay f (nat off) p)
      | Some (n, e) \<Rightarrow>
          ((int (length (take n p)), Some e), overlay f (nat off) (take n p)))"

definition s3Writer_WriteAt :: "disk \<Rightarrow> s3Writer writer_at" where
  "s3Writer_WriteAt disk p off w =
     (if wrMaxFileSize w > 0 \<and> i64 (off + int (length p)) > wrMaxFileSize w
      then ((0, Some (Errorf ''file exceeds maximum allowed size'' [])), w)
      else case file_WriteAt disk p off (wrFile w) of
        ((n, Some e), f) \<Rightarrow> ((n, Some e), w\<lparr>wrFile := f\<rparr>)
      | ((n, None), f) \<Rightarrow>
          let e = i64 (off + n)
          in ((n, None), w\<lparr>wrFile := f, wrSize := (if e > wrSize w then e else wrSize w)\<rparr>))"

text \<open>
  \<open>Close\<close>: \<open>seek\<close> is the error of rewinding the file. The result is the error, the writer
  and the world after it.
\<close>

definition s3Writer_Close :: "go_error option \<Rightarrow> 's s3_api \<Rightarrow> s3Writer \<Rightarrow> 's world
    \<Rightarrow> go_error option \<times> s3Writer \<times> 's world" where
  "s3Writer_Close seek api wr w =
     (if wrClosed wr then (None, wr, w)
      else
        let wr = wr\<lparr>wrClosed := True\<rparr>; b = wrBackend wr
        in case seek of
          Some e \<Rightarrow> (Some e, wr, w)
        | None \<Rightarrow>
            (case api_Upload api (bClient b) (bBucket b) (wrKey wr) (wrFile wr, None) (wStore w) of
               ((res, drained), s) \<Rightarrow>
                 let w = recordS3Op (wrMetrics wr) ''PutObject'' b (isl res) (w\<lparr>wStore := s\<rparr>)
                 in case res of
                   Inl e \<Rightarrow> (Some e, wr, w)
                 | Inr _ \<Rightarrow>
                     (None, wr,
                      if wrMetrics wr
                      then w\<lparr>wMetrics := AddUploadBytes (wrSize wr) (wMetrics w)\<rparr> else w)))"

text \<open>
  What \<open>Filewrite\<close> returns: the writer, or the writer behind the user's limiter. \<open>sftp_WriteAt\<close>
  is the \<open>WriteAt\<close> of that value, on the value and the buckets of the limiters; \<open>as_closer\<close> is
  the type assertion to an \<open>io.Closer\<close>: it holds when the value's type has a \<open>Close\<close>.
\<close>

datatype sftp_writer = PlainWriter s3Writer | RateLimitedWriter s3Writer nat

definition type_s3Writer :: go_type where
  "type_s3Writer = Struct [''WriteAt'', ''Close''] []"

definition dynamic_type :: "sftp_writer \<Rightarrow> go_type" where
  "dynamic_type x = (case x of PlainWriter _ \<Rightarrow> type_s3Writer
     | RateLimitedWriter _ _ \<Rightarrow> type_RateLimitedWriter)"

definition as_closer :: "sftp_writer \<Rightarrow> s3Writer option" where
  "as_closer x =
     (if implements [''Close''] (dynamic_type x)
      then Some (case x of PlainWriter wr \<Rightarrow> wr | RateLimitedWriter wr _ \<Rightarrow> wr) else None)"

definition sftp_WriteAt :: "'l rate_lib \<Rightarrow> disk \<Rightarrow> (sftp_writer \<times> (nat \<Rightarrow> 'l)) writer_at" where
  "sftp_WriteAt lib disk p off xl =
     (case fst xl of
        PlainWriter wr \<Rightarrow>
          (case s3Writer_WriteAt disk p off wr of (r, wr) \<Rightarrow> (r, (PlainWriter wr, snd xl)))
      | RateLimitedWriter wr i \<Rightarrow>
          (case limited_WriteAt
                  (Some (\<lambda>n (wr, L). case rate_WaitN lib n (L i) of (e, l) \<Rightarrow> (e, (wr, L(i := l)))))
                  (\<lambda>p off (wr, L). case s3Writer_WriteAt disk p off wr of (r, wr) \<Rightarrow> (r, (wr, L)))
                  p off (wr, snd xl) of
             (r, (wr, L)) \<Rightarrow> (r, (RateLimitedWriter wr i, L))))"

text \<open>\<open>tmp\<close> is the error of creating the temporary file in a directory.\<close>

definition Filewrite :: "handlers \<Rightarrow> (string \<Rightarrow> go_error option) \<Rightarrow> request \<Rightarrow> go_error + sftp_writer" where
  "Filewrite h tmp r =
     (case requireWrite (hPerms h) of
        Inl e \<Rightarrow> Inl e
      | Inr _ \<Rightarrow>
          if rMethod r \<noteq> ''Put'' then Inl OpUnsupported
          else case h_resolve h (rFilepath r) of
            Inl e \<Rightarrow> Inl e
          | Inr (None, key) \<Rightarrow> Inl (Errorf ''cannot write directory'' [])
          | Inr (Some b, key) \<Rightarrow>
              if key = [] then Inl (Errorf ''cannot write directory'' [])
              else case tmp (hCacheDir h) of
                Some e \<Rightarrow> Inl e
              | None \<Rightarrow>
                  let wr = \<lparr>wrBackend = b, wrKey = ObjectKey b key, wrFile = [], wrSize = 0,
                        wrMetrics = hMetrics h, wrClosed = False,
                        wrMaxFileSize = hMaxFileSize h\<rparr>
                  in Inr (case hRateLimiter h of
                            None \<Rightarrow> PlainWriter wr
                          | Some lim \<Rightarrow> RateLimitedWriter wr lim))"

section \<open>The bytes of the temporary file\<close>

lemma length_overlay:
  "length (overlay f off p) = (if p = [] then length f else max (length f) (off + length p))"
  by (auto simp: overlay_def)

lemma nth_overlay:
  assumes "i < length (overlay f off p)"
  shows "overlay f off p ! i =
    (if off \<le> i \<and> i < off + length p then p ! (i - off)
     else if i < length f then f ! i else CHR 0x00)"
proof (cases "p = []")
  case True
  with assms show ?thesis by (auto simp: overlay_def)
next
  case False
  let ?g = "take off (f @ replicate (off - length f) (CHR 0x00))"
  have g: "length ?g = off" by simp
  have nth_g: "j < off \<Longrightarrow> ?g ! j = (if j < length f then f ! j else CHR 0x00)" for j
    by (simp add: nth_append)
  have ov: "overlay f off p = ?g @ p @ drop (off + length p) f"
    using False by (simp add: overlay_def)
  have len: "i < max (length f) (off + length p)"
    using assms False by (simp add: length_overlay)
  consider "i < off" | "off \<le> i" "i < off + length p" | "off + length p \<le> i" by linarith
  then show ?thesis
  proof cases
    case 1
    then show ?thesis unfolding ov nth_append g using nth_g by simp
  next
    case 2
    then have "i - off < length p" by linarith
    with 2 show ?thesis unfolding ov nth_append g by simp
  next
    case 3
    then have "i < length f" "\<not> i < off" "\<not> i - off < length p" "\<not> i < off + length p"
      using len by simp_all
    with 3 show ?thesis unfolding ov nth_append g by simp
  qed
qed

text \<open>A file that holds the bytes of \<open>d\<close> at the places \<open>C\<close>, and nothing beyond its end.\<close>

definition holds :: "string \<Rightarrow> nat set \<Rightarrow> string \<Rightarrow> bool" where
  "holds d C f \<longleftrightarrow> length f \<le> length d \<and> (\<forall>i\<in>C. i < length f \<and> f ! i = d ! i)"

lemma holds_overlay:
  assumes "holds d C f" and "off + n \<le> length d"
  shows "holds d (C \<union> {off..<off + n}) (overlay f off (take n (drop off d)))"
proof -
  let ?p = "take n (drop off d)"
  have p: "length ?p = n" using assms(2) by simp
  have len: "length (overlay f off ?p) = (if n = 0 then length f else max (length f) (off + n))"
    using p by (auto simp: length_overlay)
  have "i < length (overlay f off ?p) \<and> overlay f off ?p ! i = d ! i"
    if "i \<in> C \<union> {off..<off + n}" for i
  proof -
    have i: "i < length (overlay f off ?p)"
      using that assms(1) unfolding len holds_def by auto
    show ?thesis
    proof (cases "off \<le> i \<and> i < off + n")
      case True
      then have "?p ! (i - off) = d ! i" using assms(2) by (subst nth_take) auto
      then show ?thesis using i True p by (simp add: nth_overlay)
    next
      case False
      then have "i \<in> C" using that by auto
      have "overlay f off ?p ! i = (if i < length f then f ! i else CHR 0x00)"
        unfolding nth_overlay [OF i] p if_not_P [OF False] ..
      then show ?thesis using i \<open>i \<in> C\<close> assms(1) by (simp add: holds_def)
    qed
  qed
  moreover have "length (overlay f off ?p) \<le> length d"
    using assms unfolding len holds_def by simp
  ultimately show ?thesis unfolding holds_def by blast
qed

lemma holds_all: "holds d C f \<Longrightarrow> {..<length d} \<subseteq> C \<Longrightarrow> f = d"
  unfolding holds_def by (metis le_antisym lessThan_iff linorder_not_less nth_equalityI order_refl subsetD)

section \<open>Writes in any order\<close>

fun run_writes :: "disk \<Rightarrow> (string \<times> int) list \<Rightarrow> s3Writer \<Rightarrow> (int \<times> go_error option) list \<times> s3Writer" where
  "run_writes disk [] w = ([], w)"
| "run_writes disk ((p, off) # ws) w =
     (case s3Writer_WriteAt disk p off w of
        (r, w) \<Rightarrow> (case run_writes disk ws w of (rs, w) \<Rightarrow> (r # rs, w)))"

definition no_fault :: disk where
  "no_fault p off = None"

text \<open>
  What the client makes of an upload, as the documentation of the SFTP server library has it:
  a \<open>WriteAt\<close> for each piece, then a \<open>Close\<close> if the value is an \<open>io.Closer\<close>. The results are
  those of the writes and the error the closing of the file reports to the client.
\<close>

fun sftp_writes :: "'l rate_lib \<Rightarrow> disk \<Rightarrow> (string \<times> int) list \<Rightarrow> sftp_writer \<times> (nat \<Rightarrow> 'l)
    \<Rightarrow> (int \<times> go_error option) list \<times> sftp_writer \<times> (nat \<Rightarrow> 'l)" where
  "sftp_writes lib disk [] xl = ([], xl)"
| "sftp_writes lib disk ((p, off) # ws) xl =
     (case sftp_WriteAt lib disk p off xl of
        (r, xl) \<Rightarrow> (case sftp_writes lib disk ws xl of (rs, xl) \<Rightarrow> (r # rs, xl)))"

definition sftp_close :: "go_error option \<Rightarrow> 's s3_api \<Rightarrow> sftp_writer \<Rightarrow> 's world
    \<Rightarrow> go_error option \<times> 's world" where
  "sftp_close seek api x w =
     (case as_closer x of
        None \<Rightarrow> (None, w)
      | Some wr \<Rightarrow> (case s3Writer_Close seek api wr w of (err, _, w) \<Rightarrow> (err, w)))"

definition upload_session :: "'l rate_lib \<Rightarrow> disk \<Rightarrow> go_error option \<Rightarrow> 's s3_api
    \<Rightarrow> (string \<times> int) list \<Rightarrow> sftp_writer \<Rightarrow> (nat \<Rightarrow> 'l) \<Rightarrow> 's world
    \<Rightarrow> (int \<times> go_error option) list \<times> go_error option \<times> 's world" where
  "upload_session lib disk seek api ws x L w =
     (case sftp_writes lib disk ws (x, L) of
        (rs, (x, _)) \<Rightarrow> (rs, sftp_close seek api x w))"

lemma sftp_writes_plain:
  "sftp_writes lib disk ws (PlainWriter wr, L)
     = (fst (run_writes disk ws wr), PlainWriter (snd (run_writes disk ws wr)), L)"
  by (induction ws arbitrary: wr) (auto simp: sftp_WriteAt_def split: prod.split)

lemma sftp_writes_limited:
  "\<exists>rs wr' L'. sftp_writes lib disk ws (RateLimitedWriter wr i, L) = (rs, RateLimitedWriter wr' i, L')"
proof (induction ws arbitrary: wr L)
  case (Cons pw ws)
  obtain p off where pw: "pw = (p, off)" by fastforce
  have "\<exists>r wr1 L1. sftp_WriteAt lib disk p off (RateLimitedWriter wr i, L) = (r, (RateLimitedWriter wr1 i, L1))"
    unfolding sftp_WriteAt_def by (simp split: prod.split)
  then obtain r wr1 L1
    where "sftp_WriteAt lib disk p off (RateLimitedWriter wr i, L) = (r, (RateLimitedWriter wr1 i, L1))"
    by blast
  moreover obtain rs wr2 L2 where
    "sftp_writes lib disk ws (RateLimitedWriter wr1 i, L1) = (rs, RateLimitedWriter wr2 i, L2)"
    using Cons.IH by blast
  ultimately show ?case by (simp add: pw)
qed simp

text \<open>What a writer keeps from one write to the next.\<close>

lemma WriteAt_fixed:
  "s3Writer_WriteAt disk p off w = (r, w') \<Longrightarrow>
     wrBackend w' = wrBackend w \<and> wrKey w' = wrKey w \<and> wrMetrics w' = wrMetrics w
     \<and> wrClosed w' = wrClosed w \<and> wrMaxFileSize w' = wrMaxFileSize w"
  unfolding s3Writer_WriteAt_def Let_def by (auto split: if_splits prod.splits option.splits)

definition fits :: "s3Writer \<Rightarrow> string \<Rightarrow> bool" where
  "fits w d \<longleftrightarrow> length d < 2 ^ 63 \<and> (wrMaxFileSize w \<le> 0 \<or> int (length d) \<le> wrMaxFileSize w)"

definition slice :: "string \<Rightarrow> nat \<times> nat \<Rightarrow> string \<times> int" where
  "slice d on = (take (snd on) (drop (fst on) d), int (fst on))"

definition in_file :: "string \<Rightarrow> nat \<times> nat \<Rightarrow> bool" where
  "in_file d on \<longleftrightarrow> fst on + snd on \<le> length d"

definition span :: "nat \<times> nat \<Rightarrow> nat set" where
  "span on = {fst on..<fst on + snd on}"

lemma WriteAt_slice:
  assumes "fits w d" and "in_file d (off, n)"
  shows "s3Writer_WriteAt no_fault (take n (drop off d)) (int off) w =
    ((int n, None), w\<lparr>wrFile := overlay (wrFile w) off (take n (drop off d)),
       wrSize := max (wrSize w) (int (off + n))\<rparr>)"
proof -
  have len: "length (take n (drop off d)) = n" using assms(2) by (simp add: in_file_def)
  have le: "int off + int n \<le> int (length d)" using assms(2) by (simp add: in_file_def)
  then have i: "i64 (int off + int n) = int off + int n"
    using assms(1) by (intro i64_id) (simp add: is_i64_def fits_def)
  have "\<not> (wrMaxFileSize w > 0 \<and> i64 (int off + int n) > wrMaxFileSize w)"
    using assms(1) le unfolding i fits_def by auto
  then show ?thesis
    unfolding s3Writer_WriteAt_def len
    by (simp add: file_WriteAt_def no_fault_def len i Let_def max_def del: length_take)
qed

lemma run_writes_slices:
  assumes "fits w d" and "\<forall>on\<in>set os. in_file d on" and "holds d C (wrFile w)"
    and "\<forall>i\<in>C. int i < wrSize w" and "0 \<le> wrSize w" and "wrSize w \<le> int (length d)"
  shows "\<exists>f z. run_writes no_fault (map (slice d) os) w
      = (map (\<lambda>on. (int (snd on), None)) os, w\<lparr>wrFile := f, wrSize := z\<rparr>)
    \<and> holds d (C \<union> \<Union> (span ` set os)) f \<and> z \<le> int (length d)
    \<and> (\<forall>i\<in>C \<union> \<Union> (span ` set os). int i < z) \<and> 0 \<le> z"
  using assms
proof (induction os arbitrary: w C)
  case Nil
  have "w = w\<lparr>wrFile := wrFile w, wrSize := wrSize w\<rparr>" by simp
  with Nil show ?case by (auto intro!: exI [of _ "wrFile w"] exI [of _ "wrSize w"])
next
  case (Cons on os)
  obtain off n where on: "on = (off, n)" by (cases on)
  let ?p = "take n (drop off d)"
  let ?w = "w\<lparr>wrFile := overlay (wrFile w) off ?p, wrSize := max (wrSize w) (int (off + n))\<rparr>"
  have inf: "in_file d (off, n)" using Cons.prems(2) on by simp
  have step: "s3Writer_WriteAt no_fault ?p (int off) w = ((int n, None), ?w)"
    by (rule WriteAt_slice [OF Cons.prems(1) inf])
  have h: "holds d (C \<union> {off..<off + n}) (wrFile ?w)"
    using holds_overlay [OF Cons.prems(3)] inf by (simp add: in_file_def)
  have "\<exists>f z. run_writes no_fault (map (slice d) os) ?w
      = (map (\<lambda>on. (int (snd on), None)) os, ?w\<lparr>wrFile := f, wrSize := z\<rparr>)
    \<and> holds d ((C \<union> {off..<off + n}) \<union> \<Union> (span ` set os)) f \<and> z \<le> int (length d)
    \<and> (\<forall>i\<in>(C \<union> {off..<off + n}) \<union> \<Union> (span ` set os). int i < z) \<and> 0 \<le> z"
  proof (rule Cons.IH [OF _ _ h])
    show "fits ?w d" using Cons.prems(1) by (simp add: fits_def)
    show "\<forall>on\<in>set os. in_file d on" using Cons.prems(2) by simp
    show "\<forall>i\<in>C \<union> {off..<off + n}. int i < wrSize ?w" using Cons.prems(4) by auto
    show "0 \<le> wrSize ?w" "wrSize ?w \<le> int (length d)"
      using Cons.prems(5,6) inf by (simp_all add: in_file_def)
  qed
  then obtain f z where r: "run_writes no_fault (map (slice d) os) ?w
      = (map (\<lambda>on. (int (snd on), None)) os, ?w\<lparr>wrFile := f, wrSize := z\<rparr>)"
    and inv: "holds d ((C \<union> {off..<off + n}) \<union> \<Union> (span ` set os)) f" "z \<le> int (length d)"
      "\<forall>i\<in>(C \<union> {off..<off + n}) \<union> \<Union> (span ` set os). int i < z" "0 \<le> z"
    by blast
  have un: "(C \<union> {off..<off + n}) \<union> \<Union> (span ` set os) = C \<union> \<Union> (span ` set (on # os))"
    by (simp add: on span_def Un_assoc)
  have "run_writes no_fault (map (slice d) (on # os)) w
      = (map (\<lambda>on. (int (snd on), None)) (on # os), w\<lparr>wrFile := f, wrSize := z\<rparr>)"
    using step r by (simp add: on slice_def)
  with inv show ?case unfolding un by blast
qed

text \<open>
  Pieces of a file that cover it, written in any order and with any overlap, leave the file
  and its size.
\<close>

lemma run_writes_cover:
  assumes "fits w d" and "wrFile w = []" and "wrSize w = 0"
    and "\<forall>on\<in>set os. in_file d on" and "\<Union> (span ` set os) = {..<length d}"
  shows "run_writes no_fault (map (slice d) os) w
      = (map (\<lambda>on. (int (snd on), None)) os, w\<lparr>wrFile := d, wrSize := int (length d)\<rparr>)"
proof -
  have "holds d {} (wrFile w)" using assms(2) by (simp add: holds_def)
  from run_writes_slices [OF assms(1,4) this] assms(3,5) obtain f z where
    run: "run_writes no_fault (map (slice d) os) w
      = (map (\<lambda>on. (int (snd on), None)) os, w\<lparr>wrFile := f, wrSize := z\<rparr>)"
    and h: "holds d {..<length d} f" and z: "z \<le> int (length d)" "0 \<le> z"
      "\<forall>i\<in>{..<length d}. int i < z"
    by auto
  have "f = d" by (rule holds_all [OF h order_refl])
  moreover have "z = int (length d)"
  proof (cases "length d")
    case (Suc k)
    with z(3) have "int k < z" by auto
    with z(1) Suc show ?thesis by simp
  qed (use z in simp)
  ultimately show ?thesis using run by simp
qed

text \<open>The size limit bounds the file, whatever the writes and however they fail.\<close>

definition within_limit :: "s3Writer \<Rightarrow> bool" where
  "within_limit w \<longleftrightarrow> wrMaxFileSize w > 0 \<longrightarrow> int (length (wrFile w)) \<le> wrMaxFileSize w"

lemma WriteAt_limit:
  assumes "within_limit w" and "is_i64 (off + int (length p))"
    and "s3Writer_WriteAt disk p off w = (r, w')"
  shows "within_limit w'"
proof (cases "wrMaxFileSize w > 0 \<and> i64 (off + int (length p)) > wrMaxFileSize w")
  case True
  then show ?thesis using assms by (simp add: s3Writer_WriteAt_def)
next
  case False
  then have room: "wrMaxFileSize w > 0 \<Longrightarrow> off + int (length p) \<le> wrMaxFileSize w"
    using assms(2) by (simp add: i64_id)
  obtain n e f where fw: "file_WriteAt disk p off (wrFile w) = ((n, e), f)"
    by (metis prod.collapse)
  have "wrFile w' = f \<and> wrMaxFileSize w' = wrMaxFileSize w"
    using assms(3) False fw by (auto simp: s3Writer_WriteAt_def Let_def split: option.splits)
  moreover have "length f \<le> max (length (wrFile w)) (nat off + length p) \<and> (off < 0 \<longrightarrow> f = wrFile w)"
    using fw by (auto simp: file_WriteAt_def length_overlay split: if_splits option.splits)
  ultimately show ?thesis
    using assms(1) room unfolding within_limit_def by (cases "off < 0") auto
qed

text \<open>
  Where offset and length together overflow \<open>int64\<close>, the sum the guard looks at is negative: the
  write is done as if there were no limit.
\<close>

lemma WriteAt_overflow:
  assumes "is_i64 off" and "int (length p) < 2 ^ 63" and "2 ^ 63 \<le> off + int (length p)"
    and "0 < wrMaxFileSize w"
  shows "s3Writer_WriteAt disk p off w =
    (case s3Writer_WriteAt disk p off (w\<lparr>wrMaxFileSize := 0\<rparr>) of
       (r, w') \<Rightarrow> (r, w'\<lparr>wrMaxFileSize := wrMaxFileSize w\<rparr>))"
proof -
  let ?x = "off + int (length p) + 2 ^ 63"
  have "?x mod 2 ^ 64 = (?x - 2 ^ 64) mod 2 ^ 64" by (rule minus_mod_self2 [symmetric])
  also have "\<dots> = ?x - 2 ^ 64"
    using assms(1-3) unfolding is_i64_def by (intro mod_pos_pos_trivial) simp_all
  finally have "?x mod 2 ^ 64 = ?x - 2 ^ 64" .
  then have "i64 (off + int (length p)) < 0" using assms(1,2) by (simp add: i64_def is_i64_def)
  then have "\<not> i64 (off + int (length p)) > wrMaxFileSize w" using assms(4) by simp
  then show ?thesis
    by (auto simp: s3Writer_WriteAt_def Let_def split: prod.split option.split)
qed

section \<open>Downloads and uploads against the contract\<close>

lemma ReadFull_reads:
  assumes "reads x body" and "length x = n" and "io_ReadFull body n = (bs, err)"
  shows "prefix bs x \<and> (err = None \<longrightarrow> bs = x)"
proof (cases "n \<le> length (fst body)")
  case True
  then have "fst body = x"
    using assms(1,2) unfolding reads_def prefix_def by auto
  then show ?thesis using assms(2,3) True by (auto simp: io_ReadFull_def split: prod.splits)
next
  case False
  then have "bs = fst body \<and> err \<noteq> None"
    using assms(3) by (auto simp: io_ReadFull_def split: prod.splits option.splits if_splits)
  then show ?thesis using assms(1) unfolding reads_def by auto
qed

text \<open>The last byte a read asks for, and the read once its range is not empty.\<close>

definition read_end :: "s3Reader \<Rightarrow> int \<Rightarrow> int \<Rightarrow> int" where
  "read_end r len off = (if off + len - 1 \<ge> rdSize r then rdSize r - 1 else off + len - 1)"

definition read_empty :: "s3Reader \<Rightarrow> int \<Rightarrow> int \<Rightarrow> bool" where
  "read_empty r len off \<longleftrightarrow>
     rdMaxReadSize r > 0 \<and> len > rdMaxReadSize r \<or> off \<ge> rdSize r \<or> read_end r len off < off"

lemma i64_read_end: "0 \<le> off \<Longrightarrow> 0 \<le> len \<Longrightarrow> off + len < 2 ^ 63 \<Longrightarrow>
    i64 (i64 (off + len) - 1) = off + len - 1"
  by (simp add: i64_id is_i64_def)

lemma ReadAt_empty:
  assumes "0 \<le> off" "0 \<le> len" "off + len < 2 ^ 63" and "read_empty r len off"
  shows "\<exists>e. s3Reader_ReadAt api r len off w = (([], Some e), w)"
  using assms(4) i64_read_end [OF assms(1-3)]
  by (auto simp: s3Reader_ReadAt_def read_empty_def read_end_def Let_def)

lemma ReadAt_range:
  assumes "0 \<le> off" "0 \<le> len" "off + len < 2 ^ 63" and "\<not> read_empty r len off"
    and run: "s3Reader_ReadAt api r len off w = ((bs, err), w')"
  obtains res s where "api_GetObject api (bClient (rdBackend r)) (bBucket (rdBackend r)) (rdKey r)
      (Some (off, read_end r len off)) (wStore w) = (res, s)" and "wStore w' = s"
    and "\<And>x. res = Inl x \<Longrightarrow> bs = [] \<and> err \<noteq> None"
    and "\<And>out. res = Inr out \<Longrightarrow> \<exists>err'. (err' = None \<longleftrightarrow> err = None) \<and>
      io_ReadFull (go_Body out False) (nat (read_end r len off - off + 1)) = (bs, err')"
proof -
  let ?b = "rdBackend r" and ?e = "read_end r len off"
  obtain res s where get: "api_GetObject api (bClient ?b) (bBucket ?b) (rdKey r)
      (Some (off, ?e)) (wStore w) = (res, s)" by fastforce
  have e: "(if off + len - 1 \<ge> rdSize r then rdSize r - 1 else off + len - 1) = ?e"
    by (simp add: read_end_def)
  have guards: "\<not> (rdMaxReadSize r > 0 \<and> len > rdMaxReadSize r)" "\<not> off \<ge> rdSize r" "\<not> ?e < off"
    using assms(4) by (simp_all add: read_empty_def)
  note run' = run [unfolded s3Reader_ReadAt_def Let_def i64_read_end [OF assms(1-3)] e
      if_not_P [OF guards(1)] if_not_P [OF guards(2)] if_not_P [OF guards(3)] get prod.case]
  show ?thesis
  proof (rule that [OF get])
    show "wStore w' = s"
      using run' by (auto split: sum.splits prod.splits if_splits)
    show "bs = [] \<and> err \<noteq> None" if "res = Inl x" for x
      using run' that by auto
    show "\<exists>err'. (err' = None \<longleftrightarrow> err = None) \<and>
        io_ReadFull (go_Body out False) (nat (?e - off + 1)) = (bs, err')" if "res = Inr out" for out
      using run' that by (auto split: prod.splits if_splits)
  qed
qed

context s3_service
begin

lemma ReadAt_spec:
  assumes range: "honours_range api view"
    and m: "mounted_b (rdBackend r)"
    and obj: "wview view w (loc_of (rdBackend r) (rdKey r)) = Some d"
    and sz: "rdSize r = int (length d)"
    and off: "0 \<le> off" "0 \<le> len" "off + len < 2 ^ 63"
    and run: "s3Reader_ReadAt api r len off w = ((bs, err), w')"
  shows "wview view w' = wview view w"
    and "prefix bs (take (nat len) (drop (nat off) d))"
    and "err = None \<Longrightarrow> bs = take (nat len) (drop (nat off) d)"
proof -
  let ?e = "read_end r len off" and ?s = "take (nat len) (drop (nat off) d)"
  have "wview view w' = wview view w \<and> prefix bs ?s \<and> (err = None \<longrightarrow> bs = ?s)"
  proof (cases "read_empty r len off")
    case True
    from ReadAt_empty [OF off True, of api w] run show ?thesis by auto
  next
    case False
    from ReadAt_range [OF off False run] obtain res s where
      get: "api_GetObject api (bClient (rdBackend r)) (bBucket (rdBackend r)) (rdKey r)
        (Some (off, ?e)) (wStore w) = (res, s)"
      and st: "wStore w' = s" and er: "\<And>x. res = Inl x \<Longrightarrow> bs = [] \<and> err \<noteq> None"
      and ok: "\<And>out. res = Inr out \<Longrightarrow> \<exists>err'. (err' = None \<longleftrightarrow> err = None) \<and>
        io_ReadFull (go_Body out False) (nat (?e - off + 1)) = (bs, err')" by metis
    have v: "wview view w' = wview view w"
      using get_frame [OF m get] st by (simp add: wview_def)
    have bounds: "off \<le> ?e" "?e < int (length d)"
      using False sz by (auto simp: read_empty_def read_end_def split: if_splits)
    let ?t = "take (nat (?e - off + 1)) (drop (nat off) d)"
    have ts: "?t = ?s"
    proof (cases "off + len - 1 \<ge> rdSize r")
      case True
      then have "?e = int (length d) - 1" using sz by (simp add: read_end_def)
      then have "length (drop (nat off) d) \<le> nat (?e - off + 1)" using off by simp
      moreover have "length (drop (nat off) d) \<le> nat len" using True sz off by simp
      ultimately show ?thesis by simp
    qed (simp add: read_end_def)
    show ?thesis
    proof (cases res)
      case (Inl x)
      with er have "bs = []" "err \<noteq> None" by blast+
      with v show ?thesis by auto
    next
      case (Inr out)
      from ok [OF Inr] obtain err' where ee: "err' = None \<longleftrightarrow> err = None"
        and rf: "io_ReadFull (go_Body out False) (nat (?e - off + 1)) = (bs, err')" by blast
      have "reads ?t (go_Body out False)"
        using range get [unfolded Inr] obj off bounds
        unfolding honours_range_def wview_def loc_of_def by blast
      moreover have "length ?t = nat (?e - off + 1)" using bounds off by simp
      ultimately have "prefix bs ?t \<and> (err' = None \<longrightarrow> bs = ?t)" using rf by (rule ReadFull_reads)
      then show ?thesis using v ee unfolding ts by blast
    qed
  qed
  then show "wview view w' = wview view w" and "prefix bs ?s" and "err = None \<Longrightarrow> bs = ?s" by auto
qed

lemma Fileread_Inr:
  assumes m: "\<And>name b. lookup (hVfs h) name = Some b \<Longrightarrow> mounted_b b"
    and run: "Fileread h api r w = (Inr rd, w')"
  shows "\<exists>b key d. h_resolve h (rFilepath r) = Inr (Some b, key) \<and> key \<noteq> []
    \<and> pRead (hPerms h) \<and> wview view w (loc_of b (ObjectKey b key)) = Some d
    \<and> wview view w' = wview view w
    \<and> (case rd of PlainReader x \<Rightarrow> hRateLimiter h = None \<and> x = \<lparr>rdBackend = b, rdKey = ObjectKey b key,
          rdSize = int (length d), rdMetrics = hMetrics h, rdMaxReadSize = hMaxReadSize h\<rparr>
        | RateLimitedReader x l \<Rightarrow> hRateLimiter h = Some l \<and> x = \<lparr>rdBackend = b, rdKey = ObjectKey b key,
          rdSize = int (length d), rdMetrics = hMetrics h, rdMaxReadSize = hMaxReadSize h\<rparr>)"
proof -
  have p: "pRead (hPerms h)" and get: "rMethod r = ''Get''"
    using run by (auto simp: Fileread_def act_simps require_defs split: if_splits)
  from run p get obtain bo key where res0: "h_resolve h (rFilepath r) = Inr (bo, key)"
    by (cases "h_resolve h (rFilepath r)") (auto simp: Fileread_def require_defs bindE_def liftE_def)
  from run p get res0 have "bo \<noteq> None" and key: "key \<noteq> []"
    by (auto simp: Fileread_def require_defs bindE_def liftE_def failE_def split: option.splits)
  with res0 obtain b where res: "h_resolve h (rFilepath r) = Inr (Some b, key)" by blast
  let ?call = "timedS3Op h ''HeadObject'' b
    (s3call (api_HeadObject api (bClient b) (bBucket b) (ObjectKey b key)))"
  obtain hr w1 where call: "?call w = (hr, w1)" by fastforce
  from h_resolve_Some [OF res] m have mb: "mounted_b b" by blast
  have "\<exists>head. hr = Inr head"
    using run p get res key call
    by (cases hr) (simp_all add: Fileread_def require_defs bindE_def liftE_def)
  then obtain head where hr: "hr = Inr head" by blast
  have hd: "api_HeadObject api (bClient b) (bBucket b) (ObjectKey b key) (wStore w) = (Inr head, wStore w1)"
    using timedS3Op_run [OF call] by (simp add: hr act_simps)
  from head_ok [OF mb hd] obtain d where v: "view (wStore w1) = view (wStore w)"
    and d: "view (wStore w) (loc_of b (ObjectKey b key)) = Some d"
    and len: "ho_ContentLength head = Some (int (length d))" by (auto simp: loc_of_def)
  have "w1 = w' \<and> (case rd of PlainReader x \<Rightarrow> hRateLimiter h = None \<and> x = \<lparr>rdBackend = b, rdKey = ObjectKey b key,
          rdSize = int (length d), rdMetrics = hMetrics h, rdMaxReadSize = hMaxReadSize h\<rparr>
        | RateLimitedReader x l \<Rightarrow> hRateLimiter h = Some l \<and> x = \<lparr>rdBackend = b, rdKey = ObjectKey b key,
          rdSize = int (length d), rdMetrics = hMetrics h, rdMaxReadSize = hMaxReadSize h\<rparr>)"
    using run p get res key call hr len
    by (auto simp: Fileread_def require_defs bindE_def liftE_def aws_ToInt64_def Let_def
        split: if_splits option.splits)
  with res key p d v show ?thesis unfolding wview_def by blast
qed

lemma Close_None:
  assumes m: "mounted_b (wrBackend wr)" and "\<not> wrClosed wr"
    and run: "s3Writer_Close seek api wr w = (None, wr', w')"
  shows "wview view w' = (wview view w)(loc_of (wrBackend wr) (wrKey wr) \<mapsto> wrFile wr)"
    and "wr' = wr\<lparr>wrClosed := True\<rparr>"
proof -
  let ?b = "wrBackend wr"
  obtain res dr s where up: "api_Upload api (bClient ?b) (bBucket ?b) (wrKey wr) (wrFile wr, None)
      (wStore w) = ((res, dr), s)" by (metis prod.collapse)
  have "seek = None \<and> (\<exists>u. res = Inr u) \<and> wStore w' = s \<and> wr' = wr\<lparr>wrClosed := True\<rparr>"
    using run assms(2) up
    by (cases res) (auto simp: s3Writer_Close_def Let_def split: option.splits)
  with upload_ok [OF m] up show "wr' = wr\<lparr>wrClosed := True\<rparr>"
    and "wview view w' = (wview view w)(loc_of ?b (wrKey wr) \<mapsto> wrFile wr)"
    by (auto simp: wview_def loc_of_def)
qed

lemma within_Close:
  assumes m: "mounted_b (wrBackend wr)"
    and run: "s3Writer_Close seek api wr w = (err, wr', w')"
  shows "agree_off (wview view) {loc_of (wrBackend wr) (wrKey wr)} w w'"
proof -
  let ?b = "wrBackend wr"
  obtain res dr s where up: "api_Upload api (bClient ?b) (bBucket ?b) (wrKey wr) (wrFile wr, None)
      (wStore w) = ((res, dr), s)" by (metis prod.collapse)
  have "agree_off view {loc_of ?b (wrKey wr)} (wStore w) s"
  proof (cases res)
    case (Inl e)
    with upload_err [OF m] up show ?thesis by (fastforce simp: agree_off_def loc_of_def)
  next
    case (Inr u)
    with upload_ok [OF m] up show ?thesis by (fastforce simp: agree_off_def loc_of_def)
  qed
  moreover have "wStore w' = s \<or> wStore w' = wStore w"
    using run up by (cases res) (auto simp: s3Writer_Close_def Let_def split: if_splits option.splits)
  ultimately show ?thesis unfolding agree_off_def wview_def by auto
qed

end

end
