(* ===== verification/Samples.thy ===== *)
theory Samples
  imports NetS3 Refusals FileTransfer
begin

text \<open>
  One concrete deployment, on which the witnesses of the properties are evaluated: two
  backends on the fake S3, one of them with a prefix, and a user with every permission.
\<close>

definition media :: backend where
  "media = \<lparr>bName = ''media'', bBucket = ''bucket'', bPrefix = ''u/'', bClient = 0,
     bPartSize = 5, bTimeout = 60\<rparr>"

definition backup :: backend where
  "backup = \<lparr>bName = ''backup'', bBucket = ''bucket'', bPrefix = [], bClient = 1,
     bPartSize = 5, bTimeout = 60\<rparr>"

definition sample_vfs :: vfs where
  "sample_vfs = \<lparr>Backends = [(''media'', media), (''backup'', backup)]\<rparr>"

definition sample_handlers :: handlers where
  "sample_handlers =
     NewS3Handlers sample_vfs ''alice'' ''192.0.2.1:22'' AllPermissions None 100 0 [] True"

definition sample_store :: fake_world where
  "sample_store c =
     (if c = 0 then NewFakeS3 [(''u/a'', ''hello''), (''u/d/x'', ''1''), (''other'', ''z'')]
      else NewFakeS3 [])"

definition sample_world :: "fake_world world" where
  "sample_world = \<lparr>wStore = sample_store, wMetrics = NewMetrics\<rparr>"

definition req :: "string \<Rightarrow> string \<Rightarrow> string \<Rightarrow> request" where
  "req m p t = \<lparr>rMethod = m, rFilepath = p, rTarget = t\<rparr>"

lemma sample_mounted [simp]:
  "fake_mounted (bClient media) (bBucket media)" "fake_mounted (bClient backup) (bBucket backup)"
  by (simp_all add: media_def backup_def fake_mounted_def)

lemma sample_lookup:
  "lookup (hVfs sample_handlers) k =
     (if k = ''media'' then Some media else if k = ''backup'' then Some backup else None)"
  by (simp add: sample_handlers_def NewS3Handlers_def sample_vfs_def lookup_def)

lemma two_entries:
  "m \<noteq> n \<Longrightarrow> (\<exists>k. (if k = m then Some x else if k = n then Some y else None) = Some z)
     \<longleftrightarrow> z = x \<or> z = y"
  by (metis option.distinct(1) option.inject)

lemma sample_mounts: "mounts sample_handlers = {media, backup}"
proof -
  have "''media'' \<noteq> ''backup''" by simp
  from two_entries [OF this, of media backup] show ?thesis
    unfolding mounts_def sample_lookup by blast
qed

lemma sample_prefixes: "wf_prefix (bPrefix media)" "wf_prefix (bPrefix backup)"
  by (simp_all add: media_def backup_def wf_prefix_def)

lemma sample_session: "session_ok fake_mounted sample_handlers"
  unfolding session_ok_def sample_mounts wf_vfs_def sample_lookup
  using sample_prefixes by simp

lemma sample_named: "named_vfs (hVfs sample_handlers)"
  unfolding named_vfs_def sample_lookup by (simp add: media_def backup_def)

lemma media_backup: "(bClient media, bBucket media) \<noteq> (bClient backup, bBucket backup)"
  by (simp add: media_def backup_def)

lemma sample_resolve:
  "h_resolve sample_handlers ''/media/d'' = Inr (Some media, ''d'')"
  "h_resolve sample_handlers ''/media/a'' = Inr (Some media, ''a'')"
  "h_resolve sample_handlers ''/media/d/e'' = Inr (Some media, ''d/e'')"
  "h_resolve sample_handlers ''/backup/e'' = Inr (Some backup, ''e'')"
  "h_resolve sample_handlers ''/backup/../../media/./a'' = Inr (Some media, ''a'')"
  by code_simp+

lemma sample_tree: "card (tree_keys (wview fake_view sample_world) media ''d'') < 2"
proof -
  have "tree_keys (wview fake_view sample_world) media ''d'' \<subseteq> {''u/d/x''}"
    by (auto simp: tree_keys_def keys_of_def wview_def sample_world_def sample_store_def NewFakeS3_def
        loc_of_def media_def DirPrefix_def ObjectKey_def trim_suffix_def has_suffix_def split: if_splits)
  then have "card (tree_keys (wview fake_view sample_world) media ''d'') \<le> card {''u/d/x''}"
    by (intro card_mono) simp_all
  then show ?thesis by simp
qed

lemma fst_run: "fst x = r \<Longrightarrow> x = (r, snd x)"
  by (cases x) simp

end
