(* ===== verification/CommandProps.thy ===== *)
theory CommandProps
  imports Samples
begin

text \<open>
  The properties of the SFTP commands that change the store, each with a witness on the
  sample deployment: rename, copy, remove, mkdir, confinement, permissions, termination.
\<close>

section \<open>Rename and copy\<close>

text \<open>
  C1: A rename that reports success, of a source and a destination that do not overlap, has
  moved exactly what its source names. When an object is stored at the source's key, that object
  is at the destination's key and no longer at the source's (where the two are the same key it
  is gone); else every object under the source's directory is at the same place under the
  destination's, and is no longer under the source's unless the service has refused to delete
  it in an answer of this run: such an object may have stayed, as it was. All else is as
  before. The source held something, and the user's permissions allow the rename. Not to
  overlap is asked only when the source is a directory: neither of the two directories lies in
  the other. It holds within a backend and across backends, for every order and size of the
  listing's pages, for every service of the contract; that over \<open>net/http\<close> no rename across
  backends reports success, another property shows.
\<close>

theorem rename_moves:
  assumes "s3_service api view mounted pending" and "session_ok mounted h" and "named_vfs (hVfs h)"
    and "h_resolve h p = Inr (Some sb, k1)" and "h_resolve h q = Inr (Some db, k2)"
    and "separate (wview view w) sb k1 db k2"
    and "Filecmd h n api \<lparr>rMethod = ''Rename'', rFilepath = p, rTarget = q\<rparr> w = (Inr u, w')"
  shows "renamed (wview view w) (wview view w')
      (refused h n api \<lparr>rMethod = ''Rename'', rFilepath = p, rTarget = q\<rparr> w) sb k1 db k2
    \<and> present (wview view w) sb k1 \<and> may_rename h sb db"
  by (rule s3_service.rename_refused [OF assms(1-6) _ _ _ assms(7)]) simp_all

definition sample_rename :: "(go_error + unit) \<times> fake_world world" where
  "sample_rename = Filecmd sample_handlers 9 fake_api
     \<lparr>rMethod = ''Rename'', rFilepath = ''/media/d'', rTarget = ''/backup/e''\<rparr> sample_world"

lemma sample_separate: "separate v media k1 backup k2"
  by (simp add: separate_def separate_buckets [OF media_backup])

theorem rename_moves_witness:
  "wview fake_view (snd sample_rename) = rename_result (wview fake_view sample_world) media ''d'' backup ''e''
   \<and> present (wview fake_view sample_world) media ''d''"
proof -
  let ?r = "\<lparr>rMethod = ''Rename'', rFilepath = ''/media/d'', rTarget = ''/backup/e''\<rparr>"
  have "fst sample_rename = Inr ()" by code_simp
  then have run: "Filecmd sample_handlers 9 fake_api ?r sample_world = (Inr (), snd sample_rename)"
    unfolding sample_rename_def by (rule fst_run)
  have none: "refused sample_handlers 9 fake_api ?r sample_world = {}" by code_simp
  from rename_moves [OF fake.s3_service_axioms sample_session sample_named
      sample_resolve(1,4) sample_separate run, unfolded none renamed_none]
  show ?thesis by simp
qed

text \<open>
  C2: However a rename ends whose source and destination do not overlap and are not the same
  object, no object of its source is lost. After an error of any call, at any point, each
  object of the source is still at its place or is at its place under the destination, with
  the contents it had. (Where a directory is renamed into itself this is not so: see the
  property on that case.)
\<close>

theorem rename_loses_nothing:
  assumes "s3_service api view mounted pending" and "session_ok mounted h" and "named_vfs (hVfs h)"
    and "h_resolve h p = Inr (Some sb, k1)" and "h_resolve h q = Inr (Some db, k2)"
    and "separate (wview view w) sb k1 db k2"
    and "loc_of sb (ObjectKey sb k1) \<noteq> loc_of db (ObjectKey db k2)"
    and "Filecmd h n api \<lparr>rMethod = ''Rename'', rFilepath = p, rTarget = q\<rparr> w = (r, w')"
  shows "kept (wview view w) (wview view w') sb k1 db k2"
proof -
  note svc = assms(1)
  obtain copy where c: "copier (wview view) copy sb db"
    and eq: "handleRename h n api p q = (if may_rename h sb db then gen_rename copy h n api sb k1 db k2
      else failE PermissionDenied)"
    by (rule s3_service.handleRename_gen [OF svc assms(2-5)])
  have run: "handleRename h n api p q w = (r, w')" using assms(8) by (simp add: Filecmd_def)
  show ?thesis
  proof (cases "may_rename h sb db")
    case True
    with run eq have "gen_rename copy h n api sb k1 db k2 w = (r, w')" by simp
    then show ?thesis
      by (rule s3_service.gen_rename_kept [OF svc s3_service.resolve_mounted(1) [OF svc assms(2,4)] c assms(6,7)])
  next
    case False
    with run eq have "w' = w" by (simp add: failE_eq)
    then show ?thesis by (simp add: kept_def split: option.split)
  qed
qed

text \<open>The sample store with a destination that answers no request.\<close>

definition broken_world :: "fake_world world" where
  "broken_world = sample_world\<lparr>wStore := (wStore sample_world)(1 := (wStore sample_world 1)\<lparr>fkFail := True\<rparr>)\<rparr>"

definition broken_rename :: "(go_error + unit) \<times> fake_world world" where
  "broken_rename = Filecmd sample_handlers 9 fake_api
     \<lparr>rMethod = ''Rename'', rFilepath = ''/media/d'', rTarget = ''/backup/e''\<rparr> broken_world"

theorem rename_loses_nothing_witness:
  "isl (fst broken_rename)
   \<and> kept (wview fake_view broken_world) (wview fake_view (snd broken_rename)) media ''d'' backup ''e''"
proof
  show "isl (fst broken_rename)" by code_simp
  have "loc_of media (ObjectKey media ''d'') \<noteq> loc_of backup (ObjectKey backup ''e'')"
    using media_backup by (auto simp: loc_of_def)
  moreover have "Filecmd sample_handlers 9 fake_api
      \<lparr>rMethod = ''Rename'', rFilepath = ''/media/d'', rTarget = ''/backup/e''\<rparr> broken_world
      = (fst broken_rename, snd broken_rename)"
    by (simp only: broken_rename_def prod.collapse)
  ultimately show "kept (wview fake_view broken_world) (wview fake_view (snd broken_rename)) media ''d'' backup ''e''"
    by (rule rename_loses_nothing [OF fake.s3_service_axioms sample_session sample_named
          sample_resolve(1,4) sample_separate])
qed

text \<open>
  C32: Renaming a directory into itself destroys it: when the destination lies in the source
  directory (the same path included) and no object is stored at the source's key, a rename that
  reports success has removed every object under the source's directory, the copies it has made
  included, apart from those whose deletion the service has refused in an answer of this run;
  nothing outside the directory changes.
\<close>

theorem rename_into_itself:
  assumes "s3_service api view mounted pending" and "session_ok mounted h"
    and "h_resolve h p = Inr (Some b, k1)" and "h_resolve h q = Inr (Some b, k2)" and "k1 \<noteq> []"
    and "wview view w (loc_of b (ObjectKey b k1)) = None"
    and "prefix (DirPrefix b k1) (DirPrefix b k2)"
    and "Filecmd h n api \<lparr>rMethod = ''Rename'', rFilepath = p, rTarget = q\<rparr> w = (Inr u, w')"
  shows "\<forall>l. if l \<in> locs b (under (DirPrefix b k1))
    then wview view w' l = None
      \<or> l \<in> refused h n api \<lparr>rMethod = ''Rename'', rFilepath = p, rTarget = q\<rparr> w
    else wview view w' l = wview view w l"
proof -
  let ?r = "\<lparr>rMethod = ''Rename'', rFilepath = p, rTarget = q\<rparr>"
  let ?L = "locs b (under (DirPrefix b k1))" and ?o = "loc_of b (ObjectKey b k1)"
  note svc = s3_service.noting_service [OF assms(1)]
  note m = s3_service.resolve_mounted [OF svc assms(2,3)]
  from noted_run [OF assms(8)] obtain x
    where "Filecmd h n (noting api) ?r (with_notes w) = (Inr u, x)" and w': "forget x = w'"
      and N: "(set \<circ> snd) (wStore x) = refused h n api ?r w" by blast
  then have "gen_rename (h_copyObject h (noting api) b) h n (noting api) b k1 b k2 (with_notes w) = (Inr u, x)"
    using assms(3,4)
    by (auto simp: Filecmd_def handleRename_def sameBackendRename_gen act_simps require_defs split: if_splits)
  then obtain u1 w1
    where r1: "gen_copy (h_copyObject h (noting api) b) h n (noting api) b k1 b k2 (with_notes w) = (Inr u1, w1)"
      and r2: "remove_source h n (noting api) b k1 w1 = (Inr u, x)"
    by (auto simp: gen_rename_def bindE_Inr)
  from s3_service.gen_copy_frame [OF svc m(1) s3_service.copier_copyObject [OF svc m(1)] r1] assms(6)
  have fr: "agree_off (wview view) (locs b (under (DirPrefix b k2))) w (forget w1)"
    by (simp add: agree_off_def wview_forget)
  have sub: "locs b (under (DirPrefix b k2)) \<subseteq> ?L"
    by (intro locs_mono) (auto simp: under_def intro: prefix_order.trans [OF assms(7)])
  have "DirPrefix b k1 = ObjectKey b k1 @ ''/''"
    by (rule DirPrefix_key [OF mounts_wf [OF assms(2) m(2)] m(3) assms(5)])
  then have "?o \<notin> ?L" by (auto simp: prefix_def)
  with sub have "?o \<notin> locs b (under (DirPrefix b k2))" by blast
  from agree_offD [OF fr this] assms(6) have "wview (view \<circ> fst) w1 ?o = None"
    by (simp add: wview_forget)
  with s3_service.remove_source_Inr [OF svc m(1) remembers_noting r2]
  have "cleared ?L (refused h n api ?r w) (wview view (forget w1)) (wview view w')"
    by (simp add: N [symmetric] w' [symmetric] wview_forget)
  moreover have "wview view (forget w1) l = wview view w l" if "l \<notin> ?L" for l
    using agree_offD [OF fr, of l] sub that by blast
  ultimately show ?thesis unfolding cleared_def by metis
qed

definition sample_self_rename :: "(go_error + unit) \<times> fake_world world" where
  "sample_self_rename = Filecmd sample_handlers 9 fake_api
     \<lparr>rMethod = ''Rename'', rFilepath = ''/media/d'', rTarget = ''/media/d/e''\<rparr> sample_world"

theorem rename_into_itself_witness:
  "wview fake_view (snd sample_self_rename)
     = wview fake_view sample_world |` (- locs media (under (DirPrefix media ''d'')))
   \<and> wview fake_view sample_world (loc_of media ''u/d/x'') = Some ''1''"
proof
  let ?r = "\<lparr>rMethod = ''Rename'', rFilepath = ''/media/d'', rTarget = ''/media/d/e''\<rparr>"
  have "fst sample_self_rename = Inr ()" by code_simp
  then have run: "Filecmd sample_handlers 9 fake_api ?r sample_world = (Inr (), snd sample_self_rename)"
    unfolding sample_self_rename_def by (rule fst_run)
  have none: "refused sample_handlers 9 fake_api ?r sample_world = {}" by code_simp
  have "\<forall>l. if l \<in> locs media (under (DirPrefix media ''d''))
    then wview fake_view (snd sample_self_rename) l = None
      \<or> l \<in> refused sample_handlers 9 fake_api ?r sample_world
    else wview fake_view (snd sample_self_rename) l = wview fake_view sample_world l"
    by (rule rename_into_itself [OF fake.s3_service_axioms sample_session
          sample_resolve(1,3) _ _ _ run]) code_simp+
  then show "wview fake_view (snd sample_self_rename)
     = wview fake_view sample_world |` (- locs media (under (DirPrefix media ''d'')))"
    unfolding none restrict_map_def by (intro ext) (metis ComplD ComplI empty_iff)
qed code_simp

text \<open>
  C11: A copy that reports success, of a source and a destination that do not overlap (asked
  only when the source is a directory), adds the copies and leaves everything else, the source
  included, as it was; the source held something, and the user may read and write. It holds for
  every service of the contract; that over \<open>net/http\<close> no copy across backends reports success,
  another property shows.
\<close>

theorem copy_copies:
  assumes "s3_service api view mounted pending" and "session_ok mounted h" and "named_vfs (hVfs h)"
    and "h_resolve h p = Inr (Some sb, k1)" and "h_resolve h q = Inr (Some db, k2)"
    and "separate (wview view w) sb k1 db k2"
    and "Filecmd h n api \<lparr>rMethod = ''Copy'', rFilepath = p, rTarget = q\<rparr> w = (Inr u, w')"
  shows "wview view w' = copy_result (wview view w) sb k1 db k2 \<and> present (wview view w) sb k1
    \<and> pRead (hPerms h) \<and> pWrite (hPerms h)"
proof -
  note svc = assms(1)
  obtain copy where c: "copier (wview view) copy sb db"
    and eq: "handleCopy h n api p q = gen_copy copy h n api sb k1 db k2"
    by (rule s3_service.handleCopy_gen [OF svc assms(2-5)])
  have perms: "pRead (hPerms h)" "pWrite (hPerms h)"
    and "handleCopy h n api p q w = (Inr u, w')"
    using assms(7) by (auto simp: Filecmd_def act_simps require_defs split: if_splits)
  then have "gen_copy copy h n api sb k1 db k2 w = (Inr u, w')" by (simp add: eq)
  from s3_service.gen_copy_Inr [OF svc s3_service.resolve_mounted(1) [OF svc assms(2,4)] c assms(6) this]
  show ?thesis using perms by simp
qed

definition sample_copy :: "(go_error + unit) \<times> fake_world world" where
  "sample_copy = Filecmd sample_handlers 9 fake_api
     \<lparr>rMethod = ''Copy'', rFilepath = ''/media/d'', rTarget = ''/backup/e''\<rparr> sample_world"

theorem copy_copies_witness:
  "wview fake_view (snd sample_copy) = copy_result (wview fake_view sample_world) media ''d'' backup ''e''
   \<and> present (wview fake_view sample_world) media ''d''
   \<and> pRead (hPerms sample_handlers) \<and> pWrite (hPerms sample_handlers)"
proof (rule copy_copies [OF fake.s3_service_axioms sample_session sample_named
      sample_resolve(1,4) sample_separate])
  have "fst sample_copy = Inr ()" by code_simp
  then show "Filecmd sample_handlers 9 fake_api
      \<lparr>rMethod = ''Copy'', rFilepath = ''/media/d'', rTarget = ''/backup/e''\<rparr> sample_world
      = (Inr (), snd sample_copy)"
    unfolding sample_copy_def by (rule fst_run)
qed

section \<open>Remove and mkdir\<close>

text \<open>
  C12: A remove that reports success has removed the object at the key and every object of the
  directory of that name, apart from objects whose deletion the service has refused in an
  answer of this run, which may have stayed as they were; nothing else has changed. There was
  something to remove, the path was no root and the user may delete.
\<close>

theorem remove_removes:
  assumes "s3_service api view mounted pending" and "session_ok mounted h"
    and "h_resolve h p = Inr (Some b, key)" and "m = ''Remove'' \<or> m = ''Rmdir''"
    and "Filecmd h n api \<lparr>rMethod = m, rFilepath = p, rTarget = q\<rparr> w = (Inr u, w')"
  shows "cleared (locs b ({ObjectKey b key} \<union> under (DirPrefix b key)))
      (refused h n api \<lparr>rMethod = m, rFilepath = p, rTarget = q\<rparr> w) (wview view w) (wview view w')
    \<and> present (wview view w) b key \<and> key \<noteq> [] \<and> pDelete (hPerms h)"
  by (rule s3_service.remove_refused [OF assms(1-3) _ _ assms(5)]) (use assms(4) in simp_all)

definition sample_remove :: "(go_error + unit) \<times> fake_world world" where
  "sample_remove = Filecmd sample_handlers 9 fake_api
     \<lparr>rMethod = ''Rmdir'', rFilepath = ''/media/d'', rTarget = []\<rparr> sample_world"

theorem remove_removes_witness:
  "wview fake_view (snd sample_remove) = wview fake_view sample_world
      |` (- locs media ({ObjectKey media ''d''} \<union> under (DirPrefix media ''d'')))
   \<and> present (wview fake_view sample_world) media ''d'' \<and> ''d'' \<noteq> [] \<and> pDelete (hPerms sample_handlers)"
proof -
  let ?r = "\<lparr>rMethod = ''Rmdir'', rFilepath = ''/media/d'', rTarget = []\<rparr>"
  have "fst sample_remove = Inr ()" by code_simp
  then have run: "Filecmd sample_handlers 9 fake_api ?r sample_world = (Inr (), snd sample_remove)"
    unfolding sample_remove_def by (rule fst_run)
  have none: "refused sample_handlers 9 fake_api ?r sample_world = {}" by code_simp
  from remove_removes [OF fake.s3_service_axioms sample_session sample_resolve(1) disjI2 [OF refl] run,
      unfolded none cleared_none]
  show ?thesis .
qed

text \<open>
  A mkdir that reports success has stored one empty object, at the key of the path with a
  slash at its end, and nothing else; for the root of a backend it does nothing.
\<close>

lemma mkdir_marks:
  assumes "s3_service api view mounted pending" and "session_ok mounted h"
    and "h_resolve h p = Inr (Some b, key)"
    and "Filecmd h n api \<lparr>rMethod = ''Mkdir'', rFilepath = p, rTarget = q\<rparr> w = (Inr u, w')"
  shows "wview view w' = (if key = [] then wview view w
    else (wview view w)(loc_of b (ObjectKey b key @ ''/'') \<mapsto> []))"
proof -
  have "cmd_mkdir h api p w = (Inr u, w')" using assms(4) by (simp add: Filecmd_def)
  then show ?thesis by (rule s3_service.cmd_mkdir_Inr [OF assms(1-3)])
qed

definition sample_mkdir :: "(go_error + unit) \<times> fake_world world" where
  "sample_mkdir = Filecmd sample_handlers 9 fake_api
     \<lparr>rMethod = ''Mkdir'', rFilepath = ''/media/d/e'', rTarget = []\<rparr> sample_world"

theorem mkdir_marks_witness:
  "wview fake_view (snd sample_mkdir) = (if ''d/e'' = [] then wview fake_view sample_world
    else (wview fake_view sample_world)(loc_of media (ObjectKey media ''d/e'' @ ''/'') \<mapsto> []))"
proof (rule mkdir_marks [OF fake.s3_service_axioms sample_session sample_resolve(3)])
  have "fst sample_mkdir = Inr ()" by code_simp
  then show "Filecmd sample_handlers 9 fake_api
      \<lparr>rMethod = ''Mkdir'', rFilepath = ''/media/d/e'', rTarget = []\<rparr> sample_world = (Inr (), snd sample_mkdir)"
    unfolding sample_mkdir_def by (rule fst_run)
qed

section \<open>Confinement and permissions\<close>

text \<open>
  C16: No command, whatever its method, its paths and its outcome, changes an object outside
  the prefixes of the session's backends.
\<close>

theorem commands_confined:
  assumes "s3_service api view mounted pending" and "session_ok mounted h"
    and "l \<notin> territory h"
  shows "wview view (snd (Filecmd h n api r w)) l = wview view w l"
proof -
  have "agree_off (wview view) (territory h) w (snd (Filecmd h n api r w))"
    using s3_service.Filecmd_territory [OF assms(1,2)] unfolding within_def by blast
  from agree_offD [OF this assms(3)] show ?thesis .
qed

theorem commands_confined_witness:
  "wview fake_view (snd (Filecmd sample_handlers 9 fake_api
      \<lparr>rMethod = ''Remove'', rFilepath = ''/backup/../../other'', rTarget = []\<rparr> sample_world))
    (0, ''bucket'', ''other'') = Some ''z''"
proof -
  have "(0, ''bucket'', ''other'') \<notin> territory sample_handlers"
    unfolding territory_def sample_mounts
    by (auto simp: locs_def media_def backup_def prefix_def)
  from commands_confined [OF fake.s3_service_axioms sample_session this]
  have "wview fake_view (snd (Filecmd sample_handlers 9 fake_api
      \<lparr>rMethod = ''Remove'', rFilepath = ''/backup/../../other'', rTarget = []\<rparr> sample_world))
    (0, ''bucket'', ''other'') = wview fake_view sample_world (0, ''bucket'', ''other'')" .
  moreover have "wview fake_view sample_world (0, ''bucket'', ''other'') = Some ''z''" by code_simp
  ultimately show ?thesis by simp
qed

text \<open>
  C17: What the permissions let a command change. Without the delete permission no object
  disappears; without the write permission none is created or changed, objects of the
  session's prefixes may only disappear; without both a command does nothing at all, not even
  a read request.
\<close>

theorem permissions_bound_commands:
  assumes "s3_service api view mounted pending" and "session_ok mounted h"
    and "Filecmd h n api r w = (res, w')"
  shows "(\<not> pDelete (hPerms h) \<longrightarrow> (\<forall>l. wview view w l \<noteq> None \<longrightarrow> wview view w' l \<noteq> None))
    \<and> (\<not> pWrite (hPerms h) \<longrightarrow>
        (\<forall>l. wview view w' l = wview view w l \<or> l \<in> territory h \<and> wview view w' l = None))
    \<and> (\<not> pWrite (hPerms h) \<and> \<not> pDelete (hPerms h) \<longrightarrow> w' = w)"
proof -
  have w': "w' = snd (Filecmd h n api r w)" using assms(3) by simp
  show ?thesis
    using s3_service.Filecmd_no_loss [OF assms(1,2), of n r] s3_service.Filecmd_erases [OF assms(1,2), of n r]
      Filecmd_read_only [of h n api r w]
    unfolding w' within_def no_loss_def erased_def by blast
qed

definition reader_handlers :: handlers where
  "reader_handlers = sample_handlers\<lparr>hPerms := ParsePermissions [''read'']\<rparr>"

lemma reader_session: "session_ok fake_mounted reader_handlers"
  using sample_session by (simp add: session_ok_def mounts_def reader_handlers_def)

theorem permissions_bound_commands_witness:
  "snd (Filecmd reader_handlers 9 fake_api
      \<lparr>rMethod = ''Remove'', rFilepath = ''/media/a'', rTarget = []\<rparr> sample_world) = sample_world"
proof -
  have "\<not> pWrite (hPerms reader_handlers) \<and> \<not> pDelete (hPerms reader_handlers)" by code_simp
  with permissions_bound_commands [OF fake.s3_service_axioms reader_session prod.collapse [symmetric]]
  show ?thesis by blast
qed

section \<open>Termination and metrics\<close>

text \<open>Commands on paths that do not both name a backend end at once.\<close>

lemma unresolved:
  assumes "\<nexists>sb k1 db k2. h_resolve h p = Inr (Some sb, k1) \<and> h_resolve h q = Inr (Some db, k2)"
  shows "\<exists>e. e \<noteq> OutOfFuel \<and> handleRename h n api p q w = (Inl e, w)"
    and "\<exists>e. e \<noteq> OutOfFuel \<and> handleCopy h n api p q w = (Inl e, w)"
proof -
  note bindE_simps = handleRename_def handleCopy_def bindE_def liftE_def failE_def
  have "(\<exists>e. e \<noteq> OutOfFuel \<and> handleRename h n api p q w = (Inl e, w))
      \<and> (\<exists>e. e \<noteq> OutOfFuel \<and> handleCopy h n api p q w = (Inl e, w))"
  proof (cases "h_resolve h p")
    case (Inl e)
    with h_resolve_fuel [OF Inl] show ?thesis by (simp add: bindE_simps)
  next
    case (Inr x)
    show ?thesis
    proof (cases "h_resolve h q")
      case (Inl e)
      with h_resolve_fuel [OF Inl] Inr show ?thesis by (simp add: bindE_simps split: prod.split)
    next
      case (Inr y)
      with assms \<open>h_resolve h p = Inr x\<close> have "fst x = None \<or> fst y = None"
        by (cases x; cases y) auto
      with Inr \<open>h_resolve h p = Inr x\<close> show ?thesis
        by (auto simp: bindE_simps split: prod.split option.split)
    qed
  qed
  then show "\<exists>e. e \<noteq> OutOfFuel \<and> handleRename h n api p q w = (Inl e, w)"
    and "\<exists>e. e \<noteq> OutOfFuel \<and> handleCopy h n api p q w = (Inl e, w)" by blast+
qed

lemma unresolved_remove:
  assumes "\<nexists>b key. h_resolve h p = Inr (Some b, key)"
  shows "\<exists>e. e \<noteq> OutOfFuel \<and> cmd_remove h n api p w = (Inl e, w)"
proof (cases "h_resolve h p")
  case (Inl e)
  with h_resolve_fuel [OF Inl] show ?thesis
    by (simp add: cmd_remove_def require_defs bindE_def liftE_def)
next
  case (Inr x)
  with assms have "fst x = None" by (cases x) auto
  with Inr show ?thesis
    by (cases x) (simp add: cmd_remove_def require_defs bindE_def liftE_def failE_def)
qed

text \<open>
  C18: Every command comes to an end, apart from a rename or a copy of a directory to a place in
  itself or around itself, of which nothing is said here: a rename or a copy whose source and
  destination do not overlap, and a remove, finish within \<open>n\<close> pages of their listings when the
  source tree has fewer objects than \<open>n\<close>, whatever the size of the pages; the other commands
  have no loop. It holds for every service of the contract.
\<close>

theorem commands_terminate:
  assumes "s3_service api view mounted pending" and "session_ok mounted h" and "named_vfs (hVfs h)"
    and "\<And>b key. h_resolve h (rFilepath r) = Inr (Some b, key) \<Longrightarrow>
      card (tree_keys (wview view w) b key) < n"
    and "\<And>sb k1 db k2. rMethod r = ''Rename'' \<or> rMethod r = ''Copy'' \<Longrightarrow>
      h_resolve h (rFilepath r) = Inr (Some sb, k1) \<Longrightarrow>
      h_resolve h (rTarget r) = Inr (Some db, k2) \<Longrightarrow> separate (wview view w) sb k1 db k2"
  shows "fst (Filecmd h n api r w) \<noteq> Inl OutOfFuel"
proof
  assume "fst (Filecmd h n api r w) = Inl OutOfFuel"
  then obtain w' where run: "Filecmd h n api r w = (Inl OutOfFuel, w')" by (metis prod.collapse)
  let ?p = "rFilepath r" and ?q = "rTarget r"
  note svc = assms(1) and fuel = assms(4) and sep = assms(5)
  note h = svc assms(2,3)
  have ren: "handleRename h n api ?p ?q w \<noteq> (Inl OutOfFuel, w')" if m: "rMethod r = ''Rename''"
  proof
    assume r: "handleRename h n api ?p ?q w = (Inl OutOfFuel, w')"
    then obtain sb k1 db k2 where res: "h_resolve h ?p = Inr (Some sb, k1)"
        "h_resolve h ?q = Inr (Some db, k2)"
      using unresolved(1) [of h ?p ?q n api w] by fastforce
    obtain copy where c: "copier (wview view) copy sb db"
      and eq: "handleRename h n api ?p ?q = (if may_rename h sb db
        then gen_rename copy h n api sb k1 db k2 else failE PermissionDenied)"
      by (rule s3_service.handleRename_gen [OF h res])
    from r have "gen_rename copy h n api sb k1 db k2 w = (Inl OutOfFuel, w')"
      by (simp add: eq failE_eq split: if_splits)
    with s3_service.gen_rename_fuel [OF svc s3_service.resolve_mounted(1) [OF svc assms(2) res(1)] c
        sep [OF _ res] fuel [OF res(1)]] m
    show False by blast
  qed
  have cp: "handleCopy h n api ?p ?q w \<noteq> (Inl OutOfFuel, w')" if m: "rMethod r = ''Copy''"
  proof
    assume r: "handleCopy h n api ?p ?q w = (Inl OutOfFuel, w')"
    then obtain sb k1 db k2 where res: "h_resolve h ?p = Inr (Some sb, k1)"
        "h_resolve h ?q = Inr (Some db, k2)"
      using unresolved(2) [of h ?p ?q n api w] by fastforce
    obtain copy where c: "copier (wview view) copy sb db"
      and eq: "handleCopy h n api ?p ?q = gen_copy copy h n api sb k1 db k2"
      by (rule s3_service.handleCopy_gen [OF h res])
    from r have "gen_copy copy h n api sb k1 db k2 w = (Inl OutOfFuel, w')" by (simp add: eq)
    with s3_service.gen_copy_fuel [OF svc s3_service.resolve_mounted(1) [OF svc assms(2) res(1)] c
        sep [OF _ res] fuel [OF res(1)]] m
    show False by blast
  qed
  have rem: "cmd_remove h n api ?p w \<noteq> (Inl OutOfFuel, w')"
  proof
    assume r: "cmd_remove h n api ?p w = (Inl OutOfFuel, w')"
    then obtain b key where res: "h_resolve h ?p = Inr (Some b, key)"
      using unresolved_remove [of h ?p n api w] by fastforce
    from s3_service.cmd_remove_fuel [OF svc assms(2) res fuel [OF res]] r show False by blast
  qed
  have mk: "cmd_mkdir h api ?p w \<noteq> (Inl OutOfFuel, w')"
    using h_resolve_fuel [of h ?p OutOfFuel]
    by (auto simp: cmd_mkdir_def act_simps require_defs split: if_splits option.splits
        dest!: timedS3Op_run)
  show False
    using run ren cp rem mk
    by (auto simp: Filecmd_def act_simps require_defs split: if_splits)
qed

theorem commands_terminate_witness:
  "fst (Filecmd sample_handlers 2 fake_api
      \<lparr>rMethod = ''Rename'', rFilepath = ''/media/d'', rTarget = ''/backup/e''\<rparr> sample_world) \<noteq> Inl OutOfFuel"
proof (rule commands_terminate [OF fake.s3_service_axioms sample_session sample_named])
  fix b key
  assume "h_resolve sample_handlers (rFilepath \<lparr>rMethod = ''Rename'', rFilepath = ''/media/d'',
      rTarget = ''/backup/e''\<rparr>) = Inr (Some b, key)"
  then have "b = media" "key = ''d''" using sample_resolve(1) by simp_all
  moreover have "card (tree_keys (wview fake_view sample_world) media ''d'') < 2"
    by (rule sample_tree)
  ultimately show "card (tree_keys (wview fake_view sample_world) b key) < 2" by simp
next
  fix sb k1 db k2
  assume "h_resolve sample_handlers (rFilepath \<lparr>rMethod = ''Rename'', rFilepath = ''/media/d'',
      rTarget = ''/backup/e''\<rparr>) = Inr (Some sb, k1)"
    and "h_resolve sample_handlers (rTarget \<lparr>rMethod = ''Rename'', rFilepath = ''/media/d'',
      rTarget = ''/backup/e''\<rparr>) = Inr (Some db, k2)"
  then show "separate (wview fake_view sample_world) sb k1 db k2"
    using sample_resolve sample_separate by simp
qed

text \<open>Whatever a command does and however it ends, no counter of the metrics goes down.\<close>

lemma commands_keep_metrics:
  "counters_le (wMetrics w) (wMetrics (snd (Filecmd h n api r w)))
   \<and> (ops_consistent (wMetrics w) \<longrightarrow> ops_consistent (wMetrics (snd (Filecmd h n api r w))))"
  using Filecmd_metrics [of h n api r] unfolding within_def metrics_ok_def by blast

text \<open>
  The operations a remove performs, in their order, when the object is there or not and the
  directory has entries or not; the metrics after a list of operations of one backend that
  all succeeded; and when one of them was the last and failed.
\<close>

definition remove_ops :: "bool \<Rightarrow> bool \<Rightarrow> string list" where
  "remove_ops object entries =
     [''HeadObject'', ''ListObjectsV2''] @ (if object then [''DeleteObject''] else [])
       @ (if entries then [''DeleteObjects''] else [])"

primrec tally :: "backend \<Rightarrow> string list \<Rightarrow> metrics \<Rightarrow> metrics" where
  "tally b [] m = m"
| "tally b (op # ops) m = tally b ops (ObserveS3Op op (bName b) False m)"

primrec cut_short :: "backend \<Rightarrow> string list \<Rightarrow> metrics \<Rightarrow> metrics \<Rightarrow> bool" where
  "cut_short b [] m m' = False"
| "cut_short b (op # ops) m m' =
     (m' = ObserveS3Op op (bName b) True m \<or> cut_short b ops (ObserveS3Op op (bName b) False m) m')"

lemma timedS3Op_metrics:
  "hMetrics h \<Longrightarrow> timedS3Op h op b fn w = (r, w') \<Longrightarrow>
     wMetrics w' = ObserveS3Op op (bName b) (isl r) (wMetrics w)"
  by (auto simp: timedS3Op_def recordS3Op_def split: prod.splits)

lemma remove_end_counted:
  assumes on: "hMetrics h"
    and run: "(if \<not> object \<and> \<not> entries then failE ErrNotExist
        else thenE (if object then h_deleteObject h api b k else retE ())
          (if entries then h_deletePrefix h n api b pfx else retE ())) w = (r, w')"
  shows "case r of
      Inr _ \<Rightarrow> (object \<or> entries)
        \<and> wMetrics w' = tally b (drop 2 (remove_ops object entries)) (wMetrics w)
    | Inl e \<Rightarrow> (\<not> object \<and> \<not> entries \<and> e = ErrNotExist \<and> wMetrics w' = wMetrics w)
        \<or> cut_short b (drop 2 (remove_ops object entries)) (wMetrics w) (wMetrics w')"
proof -
  obtain r1 w1 where d1: "h_deleteObject h api b k w = (r1, w1)" by fastforce
  obtain r2 w2 where d2: "h_deletePrefix h n api b pfx (if object then w1 else w) = (r2, w2)" by fastforce
  note count = timedS3Op_metrics [OF on d1 [unfolded h_deleteObject_def]]
    timedS3Op_metrics [OF on d2 [unfolded h_deletePrefix_def]]
  show ?thesis
    using run d1 d2 count
    by (cases object; cases entries; cases r1; cases r2)
      (auto simp: bindE_def retE_app failE_app remove_ops_def)
qed

text \<open>
  C39: The metrics account for a remove exactly. When it succeeds, each operation it had to
  make, and no other, is counted once as a success of the path's backend: the look for the
  object, the look for entries, the deletion of the object if there is one, the deletion of the
  directory if it has entries. When nothing is there, the two looks are counted as successes.
  When it ends with another error, the operations up to the failed one are counted as successes
  and the failed one, the last, as an error.
\<close>

theorem remove_counted:
  assumes svc: "s3_service api view mounted pending" and ses: "session_ok mounted h"
    and res: "h_resolve h p = Inr (Some b, key)" "key \<noteq> []"
    and on: "hMetrics h" and perm: "pDelete (hPerms h)" and m: "m = ''Remove'' \<or> m = ''Rmdir''"
    and run: "Filecmd h n api \<lparr>rMethod = m, rFilepath = p, rTarget = q\<rparr> w = (r, w')"
  defines "v \<equiv> wview view w"
  defines "object \<equiv> v (loc_of b (ObjectKey b key)) \<noteq> None"
    and "entries \<equiv> keys_of v b \<inter> under (DirPrefix b key) \<noteq> {}"
  shows "case r of
      Inr _ \<Rightarrow> (object \<or> entries) \<and> wMetrics w' = tally b (remove_ops object entries) (wMetrics w)
    | Inl e \<Rightarrow>
        (\<not> object \<and> \<not> entries \<and> e = ErrNotExist
          \<and> wMetrics w' = tally b (remove_ops object entries) (wMetrics w))
        \<or> cut_short b (remove_ops object entries) (wMetrics w) (wMetrics w')"
proof -
  note b = s3_service.resolve_mounted(1) [OF svc ses res(1)]
  note count = timedS3Op_metrics [OF on]
  have r: "cmd_remove h n api p w = (r, w')" using run m by (auto simp: Filecmd_def)
  obtain r1 w1 where e1: "h_objectExists h api b (ObjectKey b key) w = (r1, w1)" by fastforce
  have m1: "wMetrics w1 = ObserveS3Op ''HeadObject'' (bName b) (isl r1) (wMetrics w)"
    using count [OF e1 [unfolded h_objectExists_def]] .
  note start = r [unfolded cmd_remove_def requireDelete_def bindE_def liftE_def]
  show ?thesis
  proof (cases r1)
    case (Inl e)
    note e1 = e1 [unfolded Inl]
    from start have "r = Inl e" "w' = w1" by (simp_all add: res perm Let_def e1)
    then show ?thesis using m1 Inl by (auto simp: remove_ops_def)
  next
    case (Inr x)
    note e1 = e1 [unfolded Inr]
    from s3_service.w_exists_Inr [OF svc b e1]
    have x: "wview view w1 = v" "x = object" by (auto simp: v_def object_def)
    obtain r2 w2 where e2: "h_prefixHasEntries h api b (DirPrefix b key) w1 = (r2, w2)" by fastforce
    have m2: "wMetrics w2 = ObserveS3Op ''ListObjectsV2'' (bName b) (isl r2) (wMetrics w1)"
      using count [OF e2 [unfolded h_prefixHasEntries_def]] .
    show ?thesis
    proof (cases r2)
      case (Inl e)
      note e2 = e2 [unfolded Inl]
      from start have "r = Inl e" "w' = w2"
        by (simp_all add: res perm Let_def e1 e2)
      then show ?thesis using m1 m2 Inl Inr
        by (auto simp: remove_ops_def)
    next
      case (Inr y)
      note e2 = e2 [unfolded Inr]
      from s3_service.w_entries_Inr [OF svc b e2] x have y: "y = entries" by (simp add: entries_def)
      have "(if \<not> object \<and> \<not> entries then failE ErrNotExist
          else thenE (if object then h_deleteObject h api b (ObjectKey b key) else retE ())
            (if entries then h_deletePrefix h n api b (DirPrefix b key) else retE ())) w2 = (r, w')"
        using start by (cases object; cases entries)
          (simp_all add: res perm Let_def e1 e2 x(2) y bindE_def retE_app failE_app cong: prod.case_cong sum.case_cong)
      from remove_end_counted [OF on this] show ?thesis
        using m1 m2 \<open>r1 = Inr x\<close> Inr by (auto simp: remove_ops_def split: sum.splits)
    qed
  qed
qed

theorem remove_counted_witness:
  "wMetrics (snd sample_remove) = tally media [''HeadObject'', ''ListObjectsV2'', ''DeleteObjects''] NewMetrics"
proof -
  let ?r = "\<lparr>rMethod = ''Rmdir'', rFilepath = ''/media/d'', rTarget = []\<rparr>"
  have "fst sample_remove = Inr ()" by code_simp
  then have run: "Filecmd sample_handlers 9 fake_api ?r sample_world = (Inr (), snd sample_remove)"
    unfolding sample_remove_def by (rule fst_run)
  have on: "hMetrics sample_handlers" "pDelete (hPerms sample_handlers)" by code_simp+
  have none: "wview fake_view sample_world (loc_of media (ObjectKey media ''d'')) = None" by code_simp
  from remove_counted [OF fake.s3_service_axioms sample_session sample_resolve(1) _ on disjI2 [OF refl] run]
  have "keys_of (wview fake_view sample_world) media \<inter> under (DirPrefix media ''d'') \<noteq> {}
    \<and> wMetrics (snd sample_remove) = tally media (remove_ops False True) (wMetrics sample_world)"
    using none by auto
  then show ?thesis by (simp add: remove_ops_def sample_world_def)
qed

section \<open>Copies across backends and cancelled contexts\<close>

text \<open>
  C35: \<open>streamCopyObject\<close> cancels the context of its request before it reads the body. Over a
  client whose bodies give an error once their context is cancelled, as those of \<open>net/http\<close>
  do, no object can be copied or moved to another backend: the stream never reports success.
\<close>

theorem stream_needs_live_bodies:
  assumes "\<And>c b k r s out t. api_GetObject api c b k r s = (Inr out, t) \<Longrightarrow> snd (go_Body out True) \<noteq> None"
    and "\<And>c b k d e s up dr t. api_Upload api c b k (d, Some e) s = ((up, dr), t) \<Longrightarrow> isl up"
  shows "isl (fst (streamCopyObject h api srcB srcKey dstB dstKey w))"
proof -
  obtain r w' where run: "streamCopyObject h api srcB srcKey dstB dstKey w = (r, w')" by fastforce
  obtain g s where get: "api_GetObject api (bClient srcB) (bBucket srcB) srcKey None (wStore w) = (g, s)"
    by fastforce
  show ?thesis
  proof (cases g)
    case (Inl e)
    then show ?thesis using get by (simp add: streamCopyObject_def)
  next
    case (Inr out)
    obtain up dr t where up: "api_Upload api (bClient dstB) (bBucket dstB) dstKey (go_Body out True) s
        = ((up, dr), t)" by (metis prod.collapse)
    obtain d e where "go_Body out True = (d, Some e)"
      using assms(1) get Inr by (metis not_Some_eq prod.collapse)
    then have "isl up" using assms(2) up by metis
    then show ?thesis using get Inr up
      by (auto simp: streamCopyObject_def Let_def split: option.splits sum.splits)
  qed
qed

theorem stream_needs_live_bodies_witness:
  "isl (fst (streamCopyObject sample_handlers net_api media ''u/a'' backup ''a'' sample_world))
   \<and> wview fake_view sample_world (loc_of media ''u/a'') = Some ''hello''"
proof
  show "isl (fst (streamCopyObject sample_handlers net_api media ''u/a'' backup ''a'' sample_world))"
  proof (rule stream_needs_live_bodies)
    show "snd (go_Body out True) \<noteq> None" if "api_GetObject net_api c b k r s = (Inr out, t)"
      for c b k r s out t using that by (rule net_body_dies)
    show "isl up" if "api_Upload net_api c b k (d, Some e) s = ((up, dr), t)" for c b k d e s up dr t
      using that by (auto simp: fake_upload_def)
  qed
qed code_simp

end
