(* ===== verification/ListingProps.thy ===== *)
theory ListingProps
  imports Samples
begin

text \<open>The properties of listings, stat and paths.\<close>

section \<open>Listings\<close>

text \<open>
  C8: A directory listing shows exactly what is there: the names of the entries are those of
  the files and of the directories directly under the path, each once and in order; an entry
  of a directory names a directory, an entry of a file names a file and gives its size. This
  holds for every way the service cuts the listing into pages, and the listing changes nothing.
\<close>

theorem list_exact:
  assumes "s3_service api view mounted pending" and "session_ok mounted h"
    and "h_resolve h p = Inr (Some b, key)"
    and "Filelist h n api \<lparr>rMethod = ''List'', rFilepath = p, rTarget = q\<rparr> w = (Inr infos, w')"
  shows "wview view w' = wview view w
    \<and> fiName ` set infos = file_names (wview view w) b (DirPrefix b key)
        \<union> dir_names (wview view w) b (DirPrefix b key)
    \<and> sorted (map fiName infos) \<and> distinct (map fiName infos)
    \<and> (\<forall>fi\<in>set infos. entry_ok (wview view w) b (DirPrefix b key) fi)"
proof -
  note svc = assms(1)
  have "listDirectory h n api p w = (Inr infos, w')"
    using assms(4) by (auto simp: Filelist_def act_simps)
  then obtain seen xs where
    run: "page_loop n (nextListPage h api b (DirPrefix b key) ''/'') (list_body (DirPrefix b key)) None
        ([], []) w = (Inr (seen, xs), w')"
    and infos: "infos = sort_infos xs"
    using assms(3) by (auto simp: listDirectory_def Let_def act_simps)
  from s3_service.list_loop_Inr [OF svc s3_service.resolve_mounted(1) [OF svc assms(2,3)] run]
  show ?thesis unfolding infos by (auto simp: acc_ok_def)
qed

definition sample_list :: "(go_error + fileInfo list) \<times> fake_world world" where
  "sample_list = Filelist sample_handlers 9 fake_api
     \<lparr>rMethod = ''List'', rFilepath = ''/media'', rTarget = []\<rparr> sample_world"

theorem list_exact_witness:
  "\<exists>infos. fst sample_list = Inr infos \<and> map fiName infos = [''a'', ''d'']
     \<and> fiName ` set infos = file_names (wview fake_view sample_world) media (DirPrefix media [])
         \<union> dir_names (wview fake_view sample_world) media (DirPrefix media [])"
proof -
  define infos where "infos = projr (fst sample_list)"
  have names: "map fiName infos = [''a'', ''d'']" unfolding infos_def by code_simp
  have "\<not> isl (fst sample_list)" by code_simp
  then have ok: "fst sample_list = Inr infos" by (simp add: infos_def)
  have res: "h_resolve sample_handlers ''/media'' = Inr (Some media, [])" by code_simp
  have "Filelist sample_handlers 9 fake_api \<lparr>rMethod = ''List'', rFilepath = ''/media'', rTarget = []\<rparr>
      sample_world = (Inr infos, snd sample_list)"
    using ok unfolding sample_list_def by (rule fst_run)
  from list_exact [OF fake.s3_service_axioms sample_session res this]
  have "fiName ` set infos = file_names (wview fake_view sample_world) media (DirPrefix media [])
      \<union> dir_names (wview fake_view sample_world) media (DirPrefix media [])" by (elim conjE)
  with ok names show ?thesis by (intro exI [of _ infos] conjI)
qed

text \<open>
  C24: A stat tells a file from a directory: with an object at the key it gives one file entry
  of its size, else, with objects under the directory, one directory entry; it reports that
  nothing is there only when there is neither. It changes nothing.
\<close>

theorem stat_exact:
  assumes "s3_service api view mounted pending" and "session_ok mounted h"
    and "h_resolve h p = Inr (Some b, key)" and "key \<noteq> []"
    and "m = ''Stat'' \<or> m = ''Lstat''"
    and "Filelist h n api \<lparr>rMethod = m, rFilepath = p, rTarget = q\<rparr> w = (r, w')"
  shows "wview view w' = wview view w \<and>
    (case r of
       Inr infos \<Rightarrow> (case wview view w (loc_of b (ObjectKey b key)) of
           Some d \<Rightarrow> \<exists>t. infos = [newFileInfo (path_base key) (int (length d)) t]
         | None \<Rightarrow> infos = [newDirInfo (path_base key)] \<and> tree_keys (wview view w) b key \<noteq> {})
     | Inl e \<Rightarrow> e = ErrNotExist \<longrightarrow> \<not> present (wview view w) b key)"
proof (cases "pRead (hPerms h)")
  case False
  then have "r = Inl PermissionDenied \<and> w' = w"
    using assms(6) by (simp add: Filelist_def require_defs bindE_def liftE_def)
  then show ?thesis by simp
next
  case True
  note svc = assms(1)
  note mb = s3_service.resolve_mounted(1) [OF svc assms(2,3)]
  let ?v = "wview view w"
  obtain x s where hd: "api_HeadObject api (bClient b) (bBucket b) (ObjectKey b key) (wStore w) = (x, s)"
    by fastforce
  have run: "statPath h api p w = (r, w')"
    using assms(5,6) True by (auto simp: Filelist_def require_defs bindE_def liftE_def)
  show ?thesis
  proof (cases x)
    case (Inr out)
    from s3_service.head_ok [OF svc mb hd [unfolded Inr]] obtain d where
      "view s = view (wStore w)" "?v (loc_of b (ObjectKey b key)) = Some d"
      "ho_ContentLength out = Some (int (length d))" by (auto simp: wview_def loc_of_def)
    then show ?thesis using run hd Inr assms(3,4)
      by (auto simp: statPath_def bindE_def liftE_def wview_def aws_ToInt64_def)
  next
    case (Inl e)
    from s3_service.head_err [OF svc mb hd [unfolded Inl]] have vs: "view s = view (wStore w)"
      and none: "e = NotFound \<or> e = NoSuchKey \<longrightarrow> ?v (loc_of b (ObjectKey b key)) = None"
      by (auto simp: wview_def loc_of_def)
    show ?thesis
    proof (cases "e = NotFound \<or> e = NoSuchKey")
      case False
      then show ?thesis using run hd Inl assms(3,4) vs
        by (auto simp: statPath_def bindE_def liftE_def wview_def)
    next
      case nf: True
      define w1 where "w1 = w\<lparr>wStore := s\<rparr>"
      have v1: "wview view w1 = ?v" using vs by (simp add: w1_def wview_def)
      have run1: "bindE (h_prefixHasEntries h api b (DirPrefix b key)) (\<lambda>hasChildren.
          if hasChildren then retE [newDirInfo (path_base key)] else failE ErrNotExist) w1 = (r, w')"
        using run hd Inl assms(3,4) nf
        by (auto simp: statPath_def bindE_def liftE_def w1_def)
      obtain y w2 where e: "h_prefixHasEntries h api b (DirPrefix b key) w1 = (y, w2)" by fastforce
      show ?thesis
      proof (cases y)
        case (Inl e')
        have "e' \<noteq> ErrNotExist"
          using e Inl by (auto simp: h_prefixHasEntries_def PrefixHasEntries_def act_simps dest!: timedS3Op_run)
        then show ?thesis using run1 e Inl s3_service.w_entries_Inl [OF svc mb] v1 by auto
      next
        case (Inr c)
        from s3_service.w_entries_Inr [OF svc mb e [unfolded Inr]]
        have "wview view w2 = ?v" "c \<longleftrightarrow> tree_keys ?v b key \<noteq> {}" by (simp_all add: v1 tree_keys_def)
        then show ?thesis using run1 e Inr none nf
          by (cases c) (auto simp: retE_eq failE_eq present_def)
      qed
    qed
  qed
qed

definition sample_stat :: "(go_error + fileInfo list) \<times> fake_world world" where
  "sample_stat = Filelist sample_handlers 9 fake_api
     \<lparr>rMethod = ''Stat'', rFilepath = ''/media/d'', rTarget = []\<rparr> sample_world"

theorem stat_exact_witness:
  "fst sample_stat = Inr [newDirInfo ''d''] \<and> wview fake_view (snd sample_stat) = wview fake_view sample_world"
proof
  show "fst sample_stat = Inr [newDirInfo ''d'']" by code_simp
  have "Filelist sample_handlers 9 fake_api \<lparr>rMethod = ''Stat'', rFilepath = ''/media/d'', rTarget = []\<rparr>
      sample_world = (fst sample_stat, snd sample_stat)"
    by (simp only: sample_stat_def prod.collapse)
  from stat_exact [OF fake.s3_service_axioms sample_session sample_resolve(1) _ _ this]
  show "wview fake_view (snd sample_stat) = wview fake_view sample_world" by simp
qed

text \<open>
  C25: A listing ends: with fewer objects under the path than \<open>n\<close>, \<open>n\<close> pages are enough.
\<close>

theorem list_terminates:
  assumes "s3_service api view mounted pending" and "session_ok mounted h"
    and "\<And>b key. h_resolve h (rFilepath r) = Inr (Some b, key) \<Longrightarrow>
      card (tree_keys (wview view w) b key) < n"
  shows "fst (Filelist h n api r w) \<noteq> Inl OutOfFuel"
proof
  note svc = assms(1)
  let ?p = "rFilepath r"
  assume "fst (Filelist h n api r w) = Inl OutOfFuel"
  then obtain w' where run: "Filelist h n api r w = (Inl OutOfFuel, w')" by (metis prod.collapse)
  show False
  proof (cases "h_resolve h ?p")
    case (Inl e)
    with run h_resolve_fuel [OF Inl] show ?thesis
      by (auto simp: Filelist_def listDirectory_def statPath_def require_defs bindE_def liftE_def
          failE_def split: if_splits)
  next
    case (Inr x)
    then obtain bo key where res: "h_resolve h ?p = Inr (bo, key)" by (cases x) auto
    show ?thesis
    proof (cases bo)
      case None
      with run res show ?thesis
        by (auto simp: Filelist_def listDirectory_def statPath_def require_defs bindE_def liftE_def
            failE_def retE_def split: if_splits)
    next
      case (Some b)
      note mb = s3_service.resolve_mounted(1) [OF svc assms(2) res [unfolded Some]]
      have no: "h_prefixHasEntries h api b k x \<noteq> (Inl OutOfFuel, y)" for k x y
        using s3_service.w_entries_Inl [OF svc mb] by blast
      have "statPath h api ?p w \<noteq> (Inl OutOfFuel, w')"
        using res Some no
        by (auto simp: statPath_def act_simps split: if_splits prod.splits sum.splits)
      moreover have "card (keys_of (wview view w) b \<inter> under (DirPrefix b key)) < n"
        using assms(3) res Some by (simp add: tree_keys_def)
      then have "listDirectory h n api ?p w \<noteq> (Inl OutOfFuel, w')"
        using s3_service.list_loop_fuel [OF svc mb] res Some
        by (auto simp: listDirectory_def Let_def act_simps)
      ultimately show ?thesis using run
        by (auto simp: Filelist_def act_simps require_defs split: if_splits)
    qed
  qed
qed

theorem list_terminates_witness:
  "fst (Filelist sample_handlers 2 fake_api
      \<lparr>rMethod = ''List'', rFilepath = ''/media/d'', rTarget = []\<rparr> sample_world) \<noteq> Inl OutOfFuel"
proof (rule list_terminates [OF fake.s3_service_axioms sample_session])
  fix b key
  assume "h_resolve sample_handlers (rFilepath \<lparr>rMethod = ''List'', rFilepath = ''/media/d'',
      rTarget = []\<rparr>) = Inr (Some b, key)"
  then have "b = media" "key = ''d''" using sample_resolve(1) by simp_all
  moreover have "card (tree_keys (wview fake_view sample_world) media ''d'') < 2"
    by (rule sample_tree)
  ultimately show "card (tree_keys (wview fake_view sample_world) b key) < 2" by simp
qed

text \<open>
  The listing of the virtual root is the session's backends as directories, by name. It
  does not depend on the order in which Go ranges over the map.
\<close>

lemma list_root_sorted:
  "map fiName (listRoot h) = sorted_list_of_set (dom (lookup (hVfs h))) \<and> list_all IsDir (listRoot h)"
proof
  let ?r = "listRoot h"
  have all: "set ?r = (\<lambda>k. newDirInfo k) ` dom (lookup (hVfs h))"
    by (force simp: listRoot_def lookup_def set_gm_range)
  then show "list_all IsDir ?r" by (auto simp: list_all_iff)
  have "map fiName (map (\<lambda>(name, b). newDirInfo name) (gm_range m)) = gm_keys m" for m :: "(string, backend) gomap"
  proof -
    have "map fiName (map (\<lambda>(name, b). newDirInfo name) (gm_range m)) = map fst (gm_range m)"
      unfolding map_map by (rule map_cong) auto
    then show ?thesis by simp
  qed
  then have "distinct (map fiName ?r)" by (simp add: listRoot_def)
  moreover have "set (map fiName ?r) = dom (lookup (hVfs h))" using all by (auto simp: image_image)
  moreover have "sorted (map fiName ?r)" by (simp add: listRoot_def)
  ultimately show "map fiName ?r = sorted_list_of_set (dom (lookup (hVfs h)))"
    by (metis sorted_list_of_set.idem_if_sorted_distinct)
qed

text \<open>
  A client that asks for the entries page after page gets them all, in order and once:
  the pages of \<open>m\<close> entries at the offsets \<open>0, m, 2m, ...\<close> are the list, and a page reports the
  end exactly when it is short.
\<close>

lemma list_at_pages:
  "concat (map (\<lambda>i. fst (the (ListAt l m (int (i * m))))) [0..<k]) = take (k * m) l
   \<and> ListAt l m (int off) = Some (take m (drop off l), if length l - off < m then Some EOF else None)"
proof
  have "concat (map (\<lambda>i. take m (drop (i * m) l)) [0..<k]) = take (k * m) l"
  proof (induction k)
    case (Suc k)
    have "take (Suc k * m) l = take (k * m) l @ take m (drop (k * m) l)"
      by (simp only: mult_Suc add.commute [of m] take_add)
    with Suc show ?case by simp
  qed simp
  then show "concat (map (\<lambda>i. fst (the (ListAt l m (int (i * m))))) [0..<k]) = take (k * m) l"
    unfolding ListAt_nat by simp
qed (rule ListAt_nat)

section \<open>Paths\<close>

text \<open>
  Where following a path leads, element by element: an empty element and \<open>.\<close> stay, \<open>..\<close> goes
  up (at the start it stays), a name goes down. \<open>climbs\<close>: on the way, \<open>..\<close> is asked for where
  the path has no directory left to leave.
\<close>

fun walk :: "string list \<Rightarrow> string list \<Rightarrow> string list" where
  "walk here [] = here"
| "walk here (x # xs) =
     walk (if x = [] \<or> x = ''.'' then here else if x = ''..'' then butlast here else here @ [x]) xs"

fun climbs :: "nat \<Rightarrow> string list \<Rightarrow> bool" where
  "climbs depth [] = False"
| "climbs depth (x # xs) =
     (if x = [] \<or> x = ''.'' then climbs depth xs
      else if x = ''..'' then depth = 0 \<or> climbs (depth - 1) xs
      else climbs (depth + 1) xs)"

definition place_of :: "string \<Rightarrow> string" where
  "place_of p =
     (let there = walk [] (split CHR ''/'' p)
      in if rooted p then CHR ''/'' # join CHR ''/'' there
         else if there = [] then ''.'' else join CHR ''/'' there)"

lemma clean_step_name: "x \<noteq> [] \<Longrightarrow> x \<noteq> ''.'' \<Longrightarrow> x \<noteq> ''..'' \<Longrightarrow> clean_step r st x = x # st"
  and clean_step_up: "clean_step r (t # st) ''..'' = (if t = ''..'' then ''..'' # t # st else st)"
  and clean_step_top: "clean_step r [] ''..'' = (if r then [] else [''..''])"
  by (simp_all add: clean_step_def)

lemmas clean_steps = clean_step_name clean_step_up clean_step_top

lemma climb_stays: "''..'' \<in> set st \<Longrightarrow> ''..'' \<in> set (foldl (clean_step False) st xs)"
  by (induction xs arbitrary: st) (auto simp: clean_step_def split: list.splits)

lemma clean_walk_relative:
  "\<forall>x\<in>set here. x \<noteq> ''..'' \<Longrightarrow>
     (if climbs (length here) xs then ''..'' \<in> set (foldl (clean_step False) (rev here) xs)
      else foldl (clean_step False) (rev here) xs = rev (walk here xs))"
proof (induction xs arbitrary: here)
  case (Cons x xs)
  show ?case
  proof (cases "x = ''..''")
    case False
    then show ?thesis
      using Cons.IH [of here] Cons.IH [of "here @ [x]"] Cons.prems by (auto simp: clean_steps)
  next
    case True
    show ?thesis
    proof (cases here rule: rev_cases)
      case Nil
      then show ?thesis using True by (simp add: clean_steps climb_stays)
    next
      case (snoc up name)
      then show ?thesis using Cons.IH [of up] Cons.prems True by (simp add: clean_steps)
    qed
  qed
qed simp

lemma clean_walk_rooted:
  "\<forall>x\<in>set here. x \<noteq> ''..'' \<Longrightarrow>
     foldl (clean_step True) (rev here) xs = rev (walk here xs) \<and> ''..'' \<notin> set (walk here xs)"
proof (induction xs arbitrary: here)
  case (Cons x xs)
  show ?case
  proof (cases "x = ''..''")
    case False
    then show ?thesis
      using Cons.IH [of here] Cons.IH [of "here @ [x]"] Cons.prems by (auto simp: clean_steps)
  next
    case True
    show ?thesis
      by (cases here rule: rev_cases)
        (use True Cons.IH [of "[]"] Cons.IH [of "butlast here"] Cons.prems in \<open>auto simp: clean_steps\<close>)
  qed
qed auto

lemma clean_walk_dots: "''..'' \<notin> set here \<Longrightarrow> ''..'' \<notin> set (walk here xs)"
  by (induction xs arbitrary: here) (auto dest: in_set_butlastD)

lemma clean_parts_walk:
  "(''..'' \<in> set (clean_parts p)) \<longleftrightarrow> \<not> rooted p \<and> climbs 0 (split CHR ''/'' p)"
  "''..'' \<notin> set (clean_parts p) \<Longrightarrow> path_clean p = place_of p"
proof -
  let ?xs = "split CHR ''/'' p"
  have ro: "clean_parts p = walk [] ?xs \<and> ''..'' \<notin> set (clean_parts p)" if "rooted p"
    using clean_walk_rooted [of "[]" ?xs] that by (simp add: clean_parts_def)
  have re: "if climbs 0 ?xs then ''..'' \<in> set (clean_parts p)
      else clean_parts p = walk [] ?xs" if "\<not> rooted p"
    using clean_walk_relative [of "[]" ?xs] that unfolding clean_parts_def
    by (cases "climbs 0 ?xs") simp_all
  have nd: "''..'' \<notin> set (clean_parts p)" if "\<not> rooted p" and "\<not> climbs 0 ?xs"
    using clean_walk_dots [of "[]" ?xs] re that by simp
  show "(''..'' \<in> set (clean_parts p)) \<longleftrightarrow> \<not> rooted p \<and> climbs 0 ?xs"
    using ro re nd by (cases "rooted p"; cases "climbs 0 ?xs") simp_all
  show "path_clean p = place_of p" if "''..'' \<notin> set (clean_parts p)"
    using ro re that unfolding path_clean_eq place_of_def Let_def
    by (cases "rooted p"; cases "climbs 0 ?xs") simp_all
qed

text \<open>
  C22: \<open>sanitizePath\<close> refuses exactly the relative paths that on their way ask to leave the
  directory they start from. Every other path it lets through, as the name of the place the
  path leads to, by the names on the way there; that name has no \<open>..\<close> element and is let
  through unchanged.
\<close>

theorem sanitize_safe:
  "(case sanitizePath p of
      Inl e \<Rightarrow> \<not> rooted p \<and> climbs 0 (split CHR ''/'' p) \<and> e = Errorf ''invalid path'' []
    | Inr q \<Rightarrow> \<not> (\<not> rooted p \<and> climbs 0 (split CHR ''/'' p)) \<and> q = place_of p
        \<and> ''..'' \<notin> set (split CHR ''/'' q) \<and> sanitizePath q = Inr q)"
proof (cases "''..'' \<in> set (clean_parts p)")
  case True
  then show ?thesis using clean_parts_walk(1) [of p] by (simp add: sanitizePath_eq)
next
  case False
  note n = clean_parts_normal [OF False]
  have q: "sanitizePath p = Inr (path_clean p)" using False by (simp add: sanitizePath_eq)
  then have "''..'' \<notin> set (split CHR ''/'' (path_clean p))"
    by (auto simp: sanitizePath_def Let_def list_ex_iff split: if_splits)
  moreover have "path_clean (path_clean p) = path_clean p"
  proof (cases "clean_parts p = []")
    case True
    have "path_clean ''/'' = ''/''" "path_clean ''.'' = ''.''" by code_simp+
    with True show ?thesis unfolding path_clean_eq [of p] by simp
  next
    case ne: False
    show ?thesis
      using clean_parts_rooted [OF ne n] clean_parts_relative [OF ne n] not_rooted_join [OF ne n] ne
      by (simp add: path_clean_eq)
  qed
  ultimately have "sanitizePath (path_clean p) = Inr (path_clean p)"
    by (simp add: sanitizePath_def list_ex_iff)
  with q \<open>''..'' \<notin> set (split CHR ''/'' (path_clean p))\<close> clean_parts_walk [of p] False
  show ?thesis by simp
qed

text \<open>
  C23: What a path resolves to, for every path: an error when it climbs, the virtual root when
  no element is left, else the backend named by its first element with the rest as the key.
  The keys built from it are under the backend's prefix.
\<close>

theorem resolve_paths:
  assumes "rooted p"
  shows "h_resolve h p =
     (case clean_parts p of
        [] \<Rightarrow> Inr (None, [])
      | name # parts \<Rightarrow>
          (case lookup (hVfs h) name of
             None \<Rightarrow> Inl ErrNotExist
           | Some b \<Rightarrow> Inr (Some b, join CHR ''/'' parts)))
     \<and> prefix (bPrefix b) (ObjectKey b key)
     \<and> (wf_prefix (bPrefix b) \<longrightarrow> prefix (bPrefix b) (DirPrefix b key))"
proof -
  have "''..'' \<notin> set (clean_parts p)"
    using clean_parts_shape [of p] assms by (auto simp: normal_part_def)
  then show ?thesis using assms
    by (simp add: h_resolve_eq ObjectKey_prefix DirPrefix_prefix split: list.split)
qed

theorem resolve_paths_witness:
  "h_resolve sample_handlers ''/backup/../../media//./a/'' = Inr (Some media, ''a'')"
proof -
  have "rooted ''/backup/../../media//./a/''" by (simp add: rooted_def)
  moreover have "clean_parts ''/backup/../../media//./a/'' = [''media'', ''a'']" by code_simp
  ultimately show ?thesis
    using resolve_paths [of "''/backup/../../media//./a/''" sample_handlers media "[]"]
    by (simp add: sample_lookup)
qed

end
