(* ===== verification/FileProps.thy ===== *)
theory FileProps
  imports Samples
begin

text \<open>The properties of uploads and downloads.\<close>

section \<open>Uploads\<close>

lemma Filewrite_Plain:
  assumes "Filewrite h tmp r = Inr x" 
  shows "\<exists>b key wr. h_resolve h (rFilepath r) = Inr (Some b, key) \<and> key \<noteq> [] \<and> pWrite (hPerms h)
    \<and> wr = \<lparr>wrBackend = b, wrKey = ObjectKey b key, wrFile = [], wrSize = 0, wrMetrics = hMetrics h,
            wrClosed = False, wrMaxFileSize = hMaxFileSize h\<rparr>
    \<and> x = (case hRateLimiter h of None \<Rightarrow> PlainWriter wr | Some lim \<Rightarrow> RateLimitedWriter wr lim)"
  using assms unfolding Filewrite_def require_defs
  by (auto simp: Let_def split: if_splits sum.splits option.splits prod.splits)

text \<open>
  C5: An upload stores the file. Whatever the order, the overlap and the number of the writes
  that cover it, and as long as it is within the size limit, no write fails, and when \<open>Close\<close>
  reports success the object at the path's key has exactly the file's bytes, no other object
  has changed, and the bytes are metered once; closing again does nothing.
\<close>

theorem upload_stores:
  assumes "s3_service api view mounted pending" and "session_ok mounted h"
    and "Filewrite h tmp r = Inr (PlainWriter wr)"
    and "length d < 2 ^ 63" and "hMaxFileSize h \<le> 0 \<or> int (length d) \<le> hMaxFileSize h"
    and "\<forall>on\<in>set os. in_file d on" and "\<Union> (span ` set os) = {..<length d}"
    and "run_writes no_fault (map (slice d) os) wr = (rs, wr1)"
    and "s3Writer_Close seek api wr1 w = (None, wr2, w')"
  shows "(\<forall>x\<in>set rs. snd x = None)
    \<and> (\<exists>b key. h_resolve h (rFilepath r) = Inr (Some b, key)
        \<and> wview view w' = (wview view w)(loc_of b (ObjectKey b key) \<mapsto> d))
    \<and> (hMetrics h \<longrightarrow> uploadBytes (wMetrics w') = uploadBytes (wMetrics w) + int (length d))
    \<and> s3Writer_Close seek' api wr2 x = (None, wr2, x)"
proof -
  note svc = assms(1)
  from Filewrite_Plain [OF assms(3)] obtain b key where
    res: "h_resolve h (rFilepath r) = Inr (Some b, key)"
    and wr: "wr = \<lparr>wrBackend = b, wrKey = ObjectKey b key, wrFile = [], wrSize = 0,
      wrMetrics = hMetrics h, wrClosed = False, wrMaxFileSize = hMaxFileSize h\<rparr>"
    by (auto split: option.splits)
  have "fits wr d" using assms(4,5) by (auto simp: fits_def wr)
  from run_writes_cover [OF this _ _ assms(6,7)] assms(8) have
    rs: "rs = map (\<lambda>on. (int (snd on), None)) os"
    and wr1: "wr1 = wr\<lparr>wrFile := d, wrSize := int (length d)\<rparr>" by (simp_all add: wr)
  have mb: "mounted (bClient (wrBackend wr1)) (bBucket (wrBackend wr1))"
    using s3_service.resolve_mounted(1) [OF svc assms(2) res] by (simp add: wr1 wr)
  have op: "\<not> wrClosed wr1" by (simp add: wr1 wr)
  note cl = s3_service.Close_None [OF svc mb op assms(9)]
  obtain up dr s where up: "api_Upload api (bClient b) (bBucket b) (ObjectKey b key) (d, None)
      (wStore w) = ((up, dr), s)" by (metis prod.collapse)
  have "hMetrics h \<longrightarrow> uploadBytes (wMetrics w') = uploadBytes (wMetrics w) + int (length d)"
    using assms(9) up
    by (cases up) (auto simp: s3Writer_Close_def wr1 wr Let_def recordS3Op_def ObserveS3Op_def
        AddUploadBytes_def split: option.splits)
  moreover have "s3Writer_Close seek' api wr2 x = (None, wr2, x)"
    by (simp add: cl(2) s3Writer_Close_def)
  moreover have "wview view w' = (wview view w)(loc_of b (ObjectKey b key) \<mapsto> d)"
    using cl(1) by (simp add: wr1 wr)
  ultimately show ?thesis using res rs by auto
qed

definition sample_writer :: s3Writer where
  "sample_writer = \<lparr>wrBackend = media, wrKey = ''u/d/e'', wrFile = [], wrSize = 0, wrMetrics = True,
     wrClosed = False, wrMaxFileSize = 100\<rparr>"

definition sample_pieces :: "(nat \<times> nat) list" where
  "sample_pieces = [(3, 2), (0, 4)]"

theorem upload_stores_witness:
  "wview fake_view (snd (snd (s3Writer_Close None fake_api
      (snd (run_writes no_fault (map (slice ''hello'') sample_pieces) sample_writer)) sample_world)))
    = (wview fake_view sample_world)(loc_of media (ObjectKey media ''d/e'') \<mapsto> ''hello'')"
proof -
  let ?ws = "run_writes no_fault (map (slice ''hello'') sample_pieces) sample_writer"
  let ?c = "s3Writer_Close None fake_api (snd ?ws) sample_world"
  have fw: "Filewrite sample_handlers (\<lambda>_. None) \<lparr>rMethod = ''Put'', rFilepath = ''/media/d/e'', rTarget = []\<rparr>
      = Inr (PlainWriter sample_writer)" by code_simp
  have "fst ?c = None" by code_simp
  then have cl: "?c = (None, fst (snd ?c), snd (snd ?c))" by (metis prod.collapse)
  have cover: "\<Union> (span ` set sample_pieces) = {..<length ''hello''}"
    by (auto simp: sample_pieces_def span_def)
  have "\<exists>b key. h_resolve sample_handlers ''/media/d/e'' = Inr (Some b, key)
      \<and> wview fake_view (snd (snd ?c)) = (wview fake_view sample_world)(loc_of b (ObjectKey b key) \<mapsto> ''hello'')"
    using upload_stores [OF fake.s3_service_axioms sample_session fw _ _ _ cover prod.collapse [symmetric] cl]
    by (simp add: sample_pieces_def in_file_def sample_handlers_def NewS3Handlers_def)
  then show ?thesis using sample_resolve(3) by auto
qed

text \<open>
  C26: The size limit of an upload. As long as offset and length of a write together do not
  overflow \<open>int64\<close>, no write, however it ends and wherever it goes, makes a buffered file that
  is within a positive limit longer than the limit; a write that would end beyond it is refused
  and changes nothing. A write whose offset and length overflow slips through the guard: it is
  done as if there were no limit.
\<close>

theorem upload_limited:
  assumes "is_i64 off" and "int (length p) < 2 ^ 63" and "0 < wrMaxFileSize w"
    and "int (length (wrFile w)) \<le> wrMaxFileSize w"
    and "s3Writer_WriteAt disk p off w = (res, w')"
  shows "wrMaxFileSize w' = wrMaxFileSize w
    \<and> (off + int (length p) < 2 ^ 63 \<longrightarrow> int (length (wrFile w')) \<le> wrMaxFileSize w
        \<and> (wrMaxFileSize w < off + int (length p) \<longrightarrow> w' = w
            \<and> res = (0, Some (Errorf ''file exceeds maximum allowed size'' []))))
    \<and> (2 ^ 63 \<le> off + int (length p) \<longrightarrow>
        s3Writer_WriteAt disk p off (w\<lparr>wrMaxFileSize := 0\<rparr>) = (res, w'\<lparr>wrMaxFileSize := 0\<rparr>))"
proof (intro conjI impI)
  have fit: "is_i64 (off + int (length p))" if "off + int (length p) < 2 ^ 63"
    using assms(1) that by (simp add: is_i64_def)
  show "wrMaxFileSize w' = wrMaxFileSize w" using WriteAt_fixed [OF assms(5)] by simp
  show "int (length (wrFile w')) \<le> wrMaxFileSize w" if "off + int (length p) < 2 ^ 63"
    using WriteAt_limit [OF _ fit [OF that] assms(5)] WriteAt_fixed [OF assms(5)] assms(3,4)
    by (simp add: within_limit_def)
  show "w' = w" "res = (0, Some (Errorf ''file exceeds maximum allowed size'' []))"
    if "off + int (length p) < 2 ^ 63" "wrMaxFileSize w < off + int (length p)"
    using assms(3,5) that i64_id [OF fit] by (simp_all add: s3Writer_WriteAt_def)
  show "s3Writer_WriteAt disk p off (w\<lparr>wrMaxFileSize := 0\<rparr>) = (res, w'\<lparr>wrMaxFileSize := 0\<rparr>)"
    if "2 ^ 63 \<le> off + int (length p)"
  proof -
    obtain r x where run: "s3Writer_WriteAt disk p off (w\<lparr>wrMaxFileSize := 0\<rparr>) = (r, x)" by fastforce
    from WriteAt_fixed [OF run] have "wrMaxFileSize x = 0" by simp
    then have "x = x\<lparr>wrMaxFileSize := 0\<rparr>" by (cases x) simp
    with WriteAt_overflow [OF assms(1,2) that assms(3), of disk] run assms(5) show ?thesis by simp
  qed
qed

theorem upload_limited_witness:
  "s3Writer_WriteAt no_fault ''xyz'' 98 sample_writer
     = ((0, Some (Errorf ''file exceeds maximum allowed size'' [])), sample_writer)
   \<and> int (length (wrFile (snd (s3Writer_WriteAt no_fault ''xyz'' 97 sample_writer)))) \<le> 100"
proof -
  have i: "is_i64 98" "is_i64 97" "int (length ''xyz'') < 2 ^ 63" by (simp_all add: is_i64_def)
  have w: "0 < wrMaxFileSize sample_writer" "int (length (wrFile sample_writer)) \<le> wrMaxFileSize sample_writer"
    by (simp_all add: sample_writer_def)
  from upload_limited [OF i(1,3) w prod.collapse [symmetric], of no_fault]
    upload_limited [OF i(2,3) w prod.collapse [symmetric], of no_fault]
  show ?thesis by (auto simp: sample_writer_def prod_eq_iff)
qed

text \<open>
  C34: The upload of a rate-limited user is never stored, and the client is told it succeeded.
  When the file that \<open>Filewrite\<close> gave is closed after any writes, nothing has happened in the
  world and no error is reported if the user has a limiter: the wrapper's method set has no
  \<open>Close\<close>. For a user without one, the upload is what \<open>s3Writer.Close\<close> makes of the writes.
\<close>

theorem limited_upload_never_stored:
  assumes "Filewrite h tmp r = Inr x" and "upload_session lib disk seek api ws x L w = (rs, err, w')"
  shows "case hRateLimiter h of
      Some lim \<Rightarrow> err = None \<and> w' = w
    | None \<Rightarrow> \<exists>wr wr' fin. x = PlainWriter wr \<and> run_writes disk ws wr = (rs, wr')
        \<and> s3Writer_Close seek api wr' w = (err, fin, w')"
proof (cases "hRateLimiter h")
  case None
  then obtain wr where x: "x = PlainWriter wr" using Filewrite_Plain [OF assms(1)] by auto
  have "as_closer (PlainWriter y) = Some y" for y
    by (simp add: as_closer_def implements_def dynamic_type_def type_s3Writer_def)
  with assms(2) None x show ?thesis
    by (fastforce simp: upload_session_def sftp_close_def sftp_writes_plain prod_eq_iff split: prod.splits)
next
  case (Some lim)
  then obtain wr where x: "x = RateLimitedWriter wr lim" using Filewrite_Plain [OF assms(1)] by auto
  obtain rs' wr' L' where "sftp_writes lib disk ws (x, L) = (rs', RateLimitedWriter wr' lim, L')"
    using sftp_writes_limited x by blast
  moreover have "as_closer (RateLimitedWriter y lim) = None" for y
    by (simp add: as_closer_def implements_def dynamic_type_def type_RateLimitedWriter_def io_WriterAt_def)
  ultimately show ?thesis using assms(2) Some by (simp add: upload_session_def sftp_close_def)
qed

definition free_lib :: "unit rate_lib" where
  "free_lib = \<lparr>rate_NewLimiter = (\<lambda>_ _. ()), rate_SetLimit = (\<lambda>_ l. l), rate_SetBurst = (\<lambda>_ l. l),
     rate_WaitN = (\<lambda>_ l. (None, l))\<rparr>"

theorem limited_upload_never_stored_witness:
  "\<exists>x. Filewrite (sample_handlers\<lparr>hRateLimiter := Some 0\<rparr>) (\<lambda>_. None)
      \<lparr>rMethod = ''Put'', rFilepath = ''/media/d/e'', rTarget = []\<rparr> = Inr x
    \<and> upload_session free_lib no_fault None fake_api [(''hello'', 0)] x (\<lambda>_. ()) sample_world
        = ([(5, None)], None, sample_world)"
proof -
  let ?h = "sample_handlers\<lparr>hRateLimiter := Some 0\<rparr>" and ?x = "RateLimitedWriter sample_writer 0"
  let ?u = "upload_session free_lib no_fault None fake_api [(''hello'', 0)] ?x (\<lambda>_. ()) sample_world"
  have fw: "Filewrite ?h (\<lambda>_. None) \<lparr>rMethod = ''Put'', rFilepath = ''/media/d/e'', rTarget = []\<rparr> = Inr ?x"
    by code_simp
  have "fst ?u = [(5, None)]" by code_simp
  moreover have "?u = (fst ?u, fst (snd ?u), snd (snd ?u))" by simp
  from limited_upload_never_stored [OF fw this] have "fst (snd ?u) = None \<and> snd (snd ?u) = sample_world"
    by simp
  ultimately show ?thesis using fw by (metis prod.collapse)
qed

section \<open>Downloads\<close>

text \<open>
  C13: A read gives bytes of the object at the path's key, at the offset asked for: always a
  prefix of the range, and the whole range (cut at the object's end) when there is no error.
  Opening and reading change no object.
\<close>

theorem download_reads:
  assumes "s3_service api view mounted pending" and "session_ok mounted h" and "honours_range api view"
    and "Fileread h api r w = (Inr (PlainReader rd), w1)"
    and "0 \<le> off" and "0 \<le> len" and "off + len < 2 ^ 63"
    and "s3Reader_ReadAt api rd len off w1 = ((bs, err), w2)"
  shows "\<exists>b key d. h_resolve h (rFilepath r) = Inr (Some b, key)
    \<and> wview view w (loc_of b (ObjectKey b key)) = Some d
    \<and> prefix bs (take (nat len) (drop (nat off) d))
    \<and> (err = None \<longrightarrow> bs = take (nat len) (drop (nat off) d))
    \<and> wview view w2 = wview view w"
proof -
  note svc = assms(1)
  have mm: "mounted (bClient b) (bBucket b)" if "lookup (hVfs h) name = Some b" for name b
    using that assms(2) by (auto simp: session_ok_def mounts_def)
  have "\<exists>b key d. h_resolve h (rFilepath r) = Inr (Some b, key)
      \<and> wview view w (loc_of b (ObjectKey b key)) = Some d \<and> wview view w1 = wview view w
      \<and> rd = \<lparr>rdBackend = b, rdKey = ObjectKey b key, rdSize = int (length d),
          rdMetrics = hMetrics h, rdMaxReadSize = hMaxReadSize h\<rparr>"
    using s3_service.Fileread_Inr [OF svc _ assms(4)] mm by fastforce
  then obtain b key d where
    res: "h_resolve h (rFilepath r) = Inr (Some b, key)"
    and d: "wview view w (loc_of b (ObjectKey b key)) = Some d"
    and v1: "wview view w1 = wview view w"
    and rd: "rd = \<lparr>rdBackend = b, rdKey = ObjectKey b key, rdSize = int (length d),
      rdMetrics = hMetrics h, rdMaxReadSize = hMaxReadSize h\<rparr>" by blast
  have "mounted (bClient (rdBackend rd)) (bBucket (rdBackend rd))"
    using s3_service.resolve_mounted(1) [OF svc assms(2) res] by (simp add: rd)
  moreover have "wview view w1 (loc_of (rdBackend rd) (rdKey rd)) = Some d" using d v1 by (simp add: rd)
  moreover have "rdSize rd = int (length d)" by (simp add: rd)
  ultimately show ?thesis
    using s3_service.ReadAt_spec [OF svc assms(3) _ _ _ assms(5-8)] res d v1 by metis
qed

definition sample_open :: "(go_error + sftp_reader) \<times> fake_world world" where
  "sample_open = Fileread sample_handlers net_api
     \<lparr>rMethod = ''Get'', rFilepath = ''/media/a'', rTarget = []\<rparr> sample_world"

definition sample_reader :: s3Reader where
  "sample_reader = \<lparr>rdBackend = media, rdKey = ''u/a'', rdSize = 5, rdMetrics = True, rdMaxReadSize = 0\<rparr>"

theorem download_reads_witness:
  "fst (s3Reader_ReadAt net_api sample_reader 10 1 (snd sample_open)) = (''ello'', None)
   \<and> wview fake_view (snd (s3Reader_ReadAt net_api sample_reader 10 1 (snd sample_open)))
      = wview fake_view sample_world"
proof
  show "fst (s3Reader_ReadAt net_api sample_reader 10 1 (snd sample_open)) = (''ello'', None)"
    by code_simp
  then have rd: "s3Reader_ReadAt net_api sample_reader 10 1 (snd sample_open)
      = ((''ello'', None), snd (s3Reader_ReadAt net_api sample_reader 10 1 (snd sample_open)))"
    by (rule fst_run)
  have "fst sample_open = Inr (PlainReader sample_reader)" by code_simp
  then have op: "Fileread sample_handlers net_api
      \<lparr>rMethod = ''Get'', rFilepath = ''/media/a'', rTarget = []\<rparr> sample_world
      = (Inr (PlainReader sample_reader), snd sample_open)"
    unfolding sample_open_def by (rule fst_run)
  from download_reads [OF net.s3_service_axioms sample_session net_honours_range op _ _ _ rd]
  show "wview fake_view (snd (s3Reader_ReadAt net_api sample_reader 10 1 (snd sample_open)))
      = wview fake_view sample_world" by auto
qed

end
