(* ===== verification/StoreProps.thy ===== *)
theory StoreProps
  imports Samples
begin

text \<open>The properties of the storage operations, the VFS and the fake S3.\<close>

section \<open>Storage operations\<close>

text \<open>
  C19: When \<open>DeletePrefix\<close> reports success, every object under the prefix is gone, however many
  pages and batches it took, apart from those whose deletion the service has refused in an
  answer of this run: they may still be there, as they were (\<open>DeletePrefix\<close> does not look at the
  refusals). With fewer objects under the prefix than \<open>n\<close>, \<open>n\<close> pages of the listing are enough.
  It never touches an object elsewhere, and never changes one, whatever happens.
\<close>

theorem delete_prefix_exact:
  assumes "s3_service api view mounted pending" and "mounted (bClient b) (bBucket b)"
    and "DeletePrefix n api b p s = (r, t)"
  shows "(r = Inr () \<longrightarrow> (\<forall>l\<in>locs b (under p). view t l = None
      \<or> l \<in> refused_under n api b p s \<and> view t l = view s l))
    \<and> (card (keys_of (view s) b \<inter> under p) < n \<longrightarrow> r \<noteq> Inl OutOfFuel)
    \<and> (\<forall>l. view t l = view s l \<or> l \<in> locs b (under p) \<and> view t l = None)"
proof (intro conjI impI)
  note svc = assms(1)
  show "\<forall>l\<in>locs b (under p). view t l = None
      \<or> l \<in> refused_under n api b p s \<and> view t l = view s l" if "r = Inr ()"
    using s3_service.DeletePrefix_refused [OF svc assms(2)] assms(3) that
    unfolding cleared_def by (metis (full_types))
  show "r \<noteq> Inl OutOfFuel" if "card (keys_of (view s) b \<inter> under p) < n"
    using s3_service.DeletePrefix_fuel [OF svc assms(2) that] assms(3) by blast
  show "\<forall>l. view t l = view s l \<or> l \<in> locs b (under p) \<and> view t l = None"
    using withinD [OF s3_service.DeletePrefix_erases [OF svc assms(2)] assms(3)]
    unfolding erased_def .
qed

theorem delete_prefix_exact_witness:
  "fake_view (snd (DeletePrefix 2 fake_api media ''u/d/'' sample_store))
     = fake_view sample_store |` (- locs media (under ''u/d/''))"
proof -
  have "fst (DeletePrefix 2 fake_api media ''u/d/'' sample_store) = Inr ()" by code_simp
  then have "DeletePrefix 2 fake_api media ''u/d/'' sample_store
      = (Inr (), snd (DeletePrefix 2 fake_api media ''u/d/'' sample_store))" by (rule fst_run)
  from delete_prefix_exact [OF fake.s3_service_axioms sample_mounted(1) this]
  have gone: "\<forall>l\<in>locs media (under ''u/d/''). fake_view
      (snd (DeletePrefix 2 fake_api media ''u/d/'' sample_store)) l = None
      \<or> l \<in> refused_under 2 fake_api media ''u/d/'' sample_store
        \<and> fake_view (snd (DeletePrefix 2 fake_api media ''u/d/'' sample_store)) l = fake_view sample_store l"
    and kept: "\<forall>l. fake_view (snd (DeletePrefix 2 fake_api media ''u/d/'' sample_store)) l
        = fake_view sample_store l \<or> l \<in> locs media (under ''u/d/'')
        \<and> fake_view (snd (DeletePrefix 2 fake_api media ''u/d/'' sample_store)) l = None"
    by simp_all
  have "refused_under 2 fake_api media ''u/d/'' sample_store = {}" by code_simp
  with gone kept show ?thesis unfolding restrict_map_def by (intro ext) (metis ComplD ComplI empty_iff)
qed

text \<open>A service that refuses to delete any key of a batch, as S3 reports it: in the answer.\<close>

definition refusing_api :: "fake_world s3_api" where
  "refusing_api = fake_api\<lparr>api_DeleteObjects := (\<lambda>c b ks s. (Inr ks, s))\<rparr>"

text \<open>
  \<open>DeletePrefix\<close> does not look at the keys the service reports as not deleted: over a
  service that refuses every deletion it reports success, and the objects are still there.
\<close>

lemma delete_prefix_ignores_refusals:
  "fst (DeletePrefix 2 refusing_api media ''u/'' sample_store) = Inr ()
   \<and> fake_view (snd (DeletePrefix 2 refusing_api media ''u/'' sample_store)) (loc_of media ''u/a'') = Some ''hello''"
  by (intro conjI) code_simp+

text \<open>
  C38: A copy within a bucket finds its source for every key, whatever bytes it has: the
  source's key survives the escaping in the \<open>x-amz-copy-source\<close> header and the service's
  unescaping.
\<close>

theorem copy_source_survives:
  "bBucket b = ''bucket'' \<Longrightarrow> \<not> fkFail (s (bClient b)) \<Longrightarrow>
   CopyObject fake_api b src dst s =
     (case map_of (fkObjects (s (bClient b))) src of
        None \<Rightarrow> (Inl (S3 NotFound), s)
      | Some d \<Rightarrow> (Inr (), s(bClient b := (s (bClient b))\<lparr>fkObjects :=
                      gm_put dst d (fkObjects (s (bClient b)))\<rparr>)))"
proof -
  assume b: "bBucket b = ''bucket''" and ok: "\<not> fkFail (s (bClient b))"
  have "parse_copy_source (''/'' @ ''bucket'' @ ''/'' @ path_escape src) = Some (''bucket'', src)"
    by (rule parse_copy_source_escape) simp
  from fake_copy_eq [OF this, of "bClient b" dst s] b ok show ?thesis
    by (simp add: CopyObject_def s3call_def split: option.split)
qed

definition odd_store :: fake_world where
  "odd_store c = NewFakeS3 [(''a b%2F/c?d'', ''x'')]"

theorem copy_source_survives_witness:
  "fst (CopyObject fake_api media ''a b%2F/c?d'' ''e'' odd_store) = Inr ()"
proof -
  have 1: "bBucket media = ''bucket''" by (simp add: media_def)
  have 2: "\<not> fkFail (odd_store (bClient media))" by (simp add: odd_store_def NewFakeS3_def)
  show ?thesis
    unfolding copy_source_survives [of media odd_store "''a b%2F/c?d''" "''e''", OF 1 2]
    by (simp add: odd_store_def NewFakeS3_def)
qed

section \<open>The VFS\<close>

lemma new_vfs_loop_dom:
  "new_vfs_loop (NewBackend la co) bcs m = Inr m' \<Longrightarrow>
     (map_of m' k \<noteq> None) \<longleftrightarrow> (map_of m k \<noteq> None \<or> k \<in> bcName ` set bcs)"
proof (induction bcs arbitrary: m)
  case (Cons bc bcs)
  from Cons.prems obtain b where "new_vfs_loop (NewBackend la co) bcs (gm_put (bcName bc) b m) = Inr m'"
    by (cases "NewBackend la co bc") simp_all
  from Cons.IH [OF this] show ?case by auto
qed simp

text \<open>
  C20: A new VFS has a backend for exactly the configured names, each stored under its own
  name with a prefix that is empty or ends in a slash; what a session makes of it keeps that:
  after \<open>Filter\<close> and \<open>WithBackendPrefixes\<close> it has the allowed backends only, each with its
  prefix extended by the user's.
\<close>

theorem session_vfs:
  assumes "NewVFS la co bcs = Inr v"
    and s_def: "s = WithBackendPrefixes pfxs (vfs_Filter names v)"
  shows "(lookup v k \<noteq> None \<longleftrightarrow> k \<in> bcName ` set bcs)
    \<and> wf_vfs s \<and> named_vfs s
    \<and> lookup s k = (if names = [] \<or> k \<in> set names
         then map_option (extend_prefix (prefix_for pfxs k)) (lookup v k) else None)
    \<and> (\<forall>b. lookup s k = Some b \<longrightarrow> (\<exists>b0. lookup v k = Some b0 \<and> prefix (bPrefix b0) (bPrefix b)))"
proof -
  have v: "wf_vfs v" "named_vfs v" using NewVFS_Inr [OF assms(1)] by (auto simp: named_vfs_def)
  from assms(1) obtain m where "new_vfs_loop (NewBackend la co) bcs [] = Inr m" and "v = \<lparr>Backends = m\<rparr>"
    by (auto simp: NewVFS_def split: sum.splits)
  then have "lookup v k \<noteq> None \<longleftrightarrow> k \<in> bcName ` set bcs"
    using new_vfs_loop_dom [of la co bcs "[]" m k] by (simp add: lookup_def)
  moreover have l: "lookup s k = (if names = [] \<or> k \<in> set names
      then map_option (extend_prefix (prefix_for pfxs k)) (lookup v k) else None)"
    by (simp add: s_def lookup_WithBackendPrefixes lookup_Filter)
  moreover have "wf_vfs s" "named_vfs s"
    using v by (simp_all add: s_def wf_vfs_WithBackendPrefixes wf_vfs_Filter
        named_vfs_WithBackendPrefixes named_vfs_Filter)
  ultimately show ?thesis by (auto simp: bPrefix_extend split: if_splits)
qed

definition sample_config :: "string \<Rightarrow> string \<Rightarrow> backendConfig" where
  "sample_config name pfx = \<lparr>bcName = name, bcEndpointURL = [], bcRegion = [], bcAccessKeyID = [],
     bcSecretAccessKey = [], bcBucket = ''bucket'', bcPrefix = pfx, bcUsePathStyle = False,
     bcPathStyleLegacy = False, bcPartSize = 5, bcTimeout = []\<rparr>"

theorem session_vfs_witness:
  "map_option bPrefix (lookup (WithBackendPrefixes [(''*'', ''/alice/'')]
      (vfs_Filter [''a''] (projr (NewVFS (\<lambda>_. None) (\<lambda>_. 0) [sample_config ''a'' ''/x/'', sample_config ''b'' []])))) ''a'')
    = Some ''x/alice/''"
proof -
  have "\<not> isl (NewVFS (\<lambda>_. None) (\<lambda>_. 0) [sample_config ''a'' ''/x/'', sample_config ''b'' []])"
    by code_simp
  then have "NewVFS (\<lambda>_. None) (\<lambda>_. 0) [sample_config ''a'' ''/x/'', sample_config ''b'' []]
      = Inr (projr (NewVFS (\<lambda>_. None) (\<lambda>_. 0) [sample_config ''a'' ''/x/'', sample_config ''b'' []]))"
    by (cases "NewVFS (\<lambda>_. None) (\<lambda>_. 0) [sample_config ''a'' ''/x/'', sample_config ''b'' []]") simp_all
  from session_vfs [OF this refl, of "''a''" "[(''*'', ''/alice/'')]" "[''a'']"]
  have "lookup (WithBackendPrefixes [(''*'', ''/alice/'')] (vfs_Filter [''a'']
      (projr (NewVFS (\<lambda>_. None) (\<lambda>_. 0) [sample_config ''a'' ''/x/'', sample_config ''b'' []])))) ''a''
    = (if [''a''] = [] \<or> ''a'' \<in> set [''a''] then map_option (extend_prefix (prefix_for [(''*'', ''/alice/'')] ''a''))
        (lookup (projr (NewVFS (\<lambda>_. None) (\<lambda>_. 0) [sample_config ''a'' ''/x/'', sample_config ''b'' []])) ''a'') else None)"
    by (elim conjE)
  moreover have "map_option bPrefix (map_option (extend_prefix (prefix_for [(''*'', ''/alice/'')] ''a''))
      (lookup (projr (NewVFS (\<lambda>_. None) (\<lambda>_. 0) [sample_config ''a'' ''/x/'', sample_config ''b'' []])) ''a''))
    = Some ''x/alice/''" by code_simp
  ultimately show ?thesis by simp
qed

section \<open>The fake\<close>

text \<open>
  C21: The in-memory S3 of the tests keeps the contract the handlers are verified against: a
  client wired to it meets every law of \<open>s3_service\<close>, deletes every key of a batch, and gives
  bodies that outlive their context.
\<close>

theorem fake_keeps_contract:
  "s3_service fake_api fake_view fake_mounted fake_pending \<and> deletes_all fake_api
   \<and> body_outlives_cancel fake_api"
  by (intro conjI fake.s3_service_axioms fake_deletes_all fake_body_outlives_cancel)

end
