(* ===== verification/LimitProps.thy ===== *)
theory LimitProps
  imports Ratelimit
begin

text \<open>The properties of the connection limiter and the registry of rate limiters.\<close>

section \<open>Connections per user\<close>

text \<open>
  The life of a user's connections at a limiter: a connection is opened when \<open>Acquire\<close> lets it
  in, and one that is open may be closed, which releases it. The state is the limiter and the
  users of the open connections.
\<close>

context session_limiter
begin

inductive conn_step :: "'l \<times> string list \<Rightarrow> 'l \<times> string list \<Rightarrow> bool" where
  opened: "acquire u l = (True, l') \<Longrightarrow> conn_step (l, us) (l', u # us)"
| refused: "acquire u l = (False, l') \<Longrightarrow> conn_step (l, us) (l', us)"
| closed: "u \<in> set us \<Longrightarrow> conn_step (l, us) (release u l, remove1 u us)"

inductive_cases conn_stepE: "conn_step (l, us) (l', us')"

definition conn_inv :: "('l \<times> string list) \<Rightarrow> bool" where
  "conn_inv x \<longleftrightarrow> (\<forall>u m. cap (fst x) u = Some m \<longrightarrow>
     active (fst x) u = int (count_list (snd x) u) \<and> int (count_list (snd x) u) \<le> max m 0)"

lemma count_remove1: "u \<in> set us \<Longrightarrow>
    int (count_list (remove1 u us) v) = int (count_list us v) - (if u = v then 1 else 0)"
proof (induction us)
  case (Cons x xs)
  then show ?case
    by (cases "x = u") (auto simp: of_nat_diff)
qed simp

lemma acquire_cases:
  assumes "acquire u l = (ok, l')"
  shows "cap l' = cap l"
    and "ok \<Longrightarrow> active l' = (if cap l u = None then active l else (active l)(u := active l u + 1))"
    and "ok \<Longrightarrow> cap l u = Some m \<Longrightarrow> active l u < m"
    and "\<not> ok \<Longrightarrow> active l' = active l"
proof -
  have "cap l' = cap l
      \<and> (ok \<longrightarrow> active l' = (if cap l u = None then active l else (active l)(u := active l u + 1)))
      \<and> (ok \<longrightarrow> cap l u = Some m \<longrightarrow> active l u < m)
      \<and> (\<not> ok \<longrightarrow> active l' = active l)"
  proof (cases "cap l u")
    case None
    with assms acquire_uncapped [of l u] show ?thesis by simp
  next
    case (Some n)
    show ?thesis
    proof (cases "active l u < n")
      case True
      with assms Some acquire_room [OF Some True] show ?thesis by auto
    next
      case False
      with assms Some acquire_full [OF Some] show ?thesis by simp
    qed
  qed
  then show "cap l' = cap l"
    and "ok \<Longrightarrow> active l' = (if cap l u = None then active l else (active l)(u := active l u + 1))"
    and "ok \<Longrightarrow> cap l u = Some m \<Longrightarrow> active l u < m"
    and "\<not> ok \<Longrightarrow> active l' = active l" by blast+
qed

lemma conn_step_inv: "conn_step x y \<Longrightarrow> conn_inv x \<Longrightarrow> conn_inv y"
proof (induction rule: conn_step.induct)
  case (opened u l l' us)
  note ac = acquire_cases [OF opened.hyps]
  show ?case unfolding conn_inv_def fst_conv snd_conv
  proof (intro allI impI)
    fix v m assume "cap l' v = Some m"
    then have c: "cap l v = Some m" by (simp add: ac(1))
    with opened.prems have i: "active l v = int (count_list us v)" "int (count_list us v) \<le> max m 0"
      by (auto simp: conn_inv_def)
    show "active l' v = int (count_list (u # us) v) \<and> int (count_list (u # us) v) \<le> max m 0"
      using c i ac(2) ac(3) [of m] by (cases "u = v") auto
  qed
next
  case (refused u l l' us)
  note ac = acquire_cases [OF refused.hyps]
  with refused.prems show ?case by (simp add: conn_inv_def)
next
  case (closed u us l)
  show ?case unfolding conn_inv_def fst_conv snd_conv release_cap
  proof (intro allI impI)
    fix v m assume c: "cap l v = Some m"
    with closed.prems have i: "active l v = int (count_list us v)" "int (count_list us v) \<le> max m 0"
      by (auto simp: conn_inv_def)
    have "u = v \<Longrightarrow> 0 < active l v" using i(1) closed.hyps count_list_0_iff [of us u] by auto
    with i show "active (release u l) v = int (count_list (remove1 u us) v)
        \<and> int (count_list (remove1 u us) v) \<le> max m 0"
      unfolding count_remove1 [OF closed.hyps] release_active by auto
  qed
qed

lemma conn_steps_inv: "conn_step\<^sup>*\<^sup>* x y \<Longrightarrow> conn_inv x \<Longrightarrow> conn_inv y"
  by (induction rule: rtranclp_induct) (auto intro: conn_step_inv)

end

text \<open>
  The limiter holds its caps. Starting from a new limiter, after any sequence of
  connections let in, refused and closed, a user with a limit has as many connections counted
  as are open, and never more open than the limit.
\<close>

lemma conn_caps_hold:
  "conns.conn_step\<^sup>*\<^sup>* (NewUserConnLimiter users, []) (l, us) \<Longrightarrow> map_of (clLimits l) u = Some m \<Longrightarrow>
     zget (clCounts l) u = int (count_list us u) \<and> int (count_list us u) \<le> m"
proof -
  assume steps: "conns.conn_step\<^sup>*\<^sup>* (NewUserConnLimiter users, []) (l, us)"
    and m: "map_of (clLimits l) u = Some m"
  have "conns.conn_inv (NewUserConnLimiter users, [])"
    by (simp add: conns.conn_inv_def conn_active_def NewUserConnLimiter_def connLimiter_Update_def zget_def)
  from conns.conn_steps_inv [OF steps this] m
  have i: "zget (clCounts l) u = int (count_list us u) \<and> int (count_list us u) \<le> max m 0"
    by (simp add: conns.conn_inv_def conn_cap_def conn_active_def)
  have "clLimits l = clLimits (NewUserConnLimiter users)"
  proof -
    have step: "clLimits (fst y) = clLimits (fst x)" if "conns.conn_step x y" for x y
      using that
      by (induction rule: conns.conn_step.induct)
        (auto simp: Acquire_def Release_def split: option.splits if_splits)
    have "clLimits (fst y) = clLimits (fst x)" if "conns.conn_step\<^sup>*\<^sup>* x y" for x y
      using that by (induction rule: rtranclp_induct) (auto dest: step)
    from this [OF steps] show ?thesis by simp
  qed
  then have "0 < m"
    using m conn_limits_pos [of "[]" users u m] by (simp add: NewUserConnLimiter_def connLimiter_Update_def)
  with i show ?thesis by simp
qed

definition alice :: "int \<Rightarrow> userConfig" where
  "alice m = \<lparr>uUsername = ''alice'', uPassword = ''pw'', uPasswordHash = [], uBackends = [],
     uAuthorizedKeys = [], uPrefix = [], uBackendPrefixes = [], uPermissions = [], uSSHID = None,
     uMaxConnections = m, uRateLimitBytesPerSec = 0, uMaxFileSize = 0, uMaxReadSize = 0\<rparr>"

theorem conn_caps_hold_witness:
  "zget (clCounts (snd (Acquire ''alice'' (NewUserConnLimiter [alice 1])))) ''alice''
     = int (count_list [''alice''] ''alice'')
   \<and> int (count_list [''alice''] ''alice'') \<le> 1"
proof (rule conn_caps_hold)
  have "fst (Acquire ''alice'' (NewUserConnLimiter [alice 1]))" by code_simp
  then have "Acquire ''alice'' (NewUserConnLimiter [alice 1])
      = (True, snd (Acquire ''alice'' (NewUserConnLimiter [alice 1])))"
    by (metis prod.collapse)
  from conns.conn_step.opened [OF this, of "[]"]
  show "conns.conn_step\<^sup>*\<^sup>* (NewUserConnLimiter [alice 1], [])
      (snd (Acquire ''alice'' (NewUserConnLimiter [alice 1])), [''alice''])" by (rule r_into_rtranclp)
  show "map_of (clLimits (snd (Acquire ''alice'' (NewUserConnLimiter [alice 1])))) ''alice'' = Some 1"
    by code_simp
qed

text \<open>\<open>let_in n u l\<close>: the limiter after \<open>n\<close> connections of a user, if all are let in.\<close>

fun let_in :: "nat \<Rightarrow> string \<Rightarrow> connLimiter \<Rightarrow> connLimiter option" where
  "let_in 0 u l = Some l"
| "let_in (Suc n) u l = (case Acquire u l of (ok, l) \<Rightarrow> if ok then let_in n u l else None)"

lemma let_in_uncapped: "map_of (clLimits l) u = None \<Longrightarrow> let_in n u l = Some l"
  by (induction n) (simp_all add: Acquire_def)

lemma let_in_capped:
  "map_of (clLimits l) u = Some m \<Longrightarrow> zget (clCounts l) u + int n \<le> m \<Longrightarrow>
     \<exists>l'. let_in n u l = Some l' \<and> clLimits l' = clLimits l \<and> zget (clCounts l') u = zget (clCounts l) u + int n"
proof (induction n arbitrary: l)
  case (Suc n)
  let ?l = "l\<lparr>clCounts := gm_put u (zget (clCounts l) u + 1) (clCounts l)\<rparr>"
  have one: "Acquire u l = (True, ?l)" using Suc.prems by (simp add: Acquire_def)
  have c: "zget (clCounts ?l) u = zget (clCounts l) u + 1" by (simp add: zget_put)
  have "map_of (clLimits ?l) u = Some m" "zget (clCounts ?l) u + int n \<le> m"
    unfolding c using Suc.prems by simp_all
  from Suc.IH [OF this] one c show ?case by auto
qed simp

text \<open>
  C36: A cap counts only the connections let in under it. While a user has no limit any number
  \<open>k\<close> of connections is let in and none counted; after a reload that limits the user to \<open>m\<close>,
  another \<open>m\<close> are let in beside them, so that \<open>k + m\<close> are open under a limit of \<open>m\<close>; the next
  one is refused. And the end of any of them, also of one that was not counted, lets one more in.
\<close>

theorem reload_exceeds_cap:
  assumes "map_of (clLimits l) u = None" and "zget (clCounts l) u = 0"
    and "map_of (conn_limits users []) u = Some m"
  shows "let_in k u l = Some l
    \<and> (\<exists>l'. let_in (nat m) u (connLimiter_Update users l) = Some l' \<and> Acquire u l' = (False, l')
        \<and> let_in 1 u (Release u l') \<noteq> None)"
proof -
  have m: "0 < m" using conn_limits_pos [OF _ assms(3)] by simp
  let ?l = "connLimiter_Update users l"
  have lim: "map_of (clLimits ?l) u = Some m" and cnt: "zget (clCounts ?l) u = 0"
    using assms(2,3) by (simp_all add: connLimiter_Update_def)
  obtain l' where l': "let_in (nat m) u ?l = Some l'" "clLimits l' = clLimits ?l" "zget (clCounts l') u = m"
    using let_in_capped [OF lim, of "nat m"] cnt m by auto
  then have full: "Acquire u l' = (False, l')" using lim by (simp add: Acquire_def)
  have "map_of (clLimits (Release u l')) u = Some m" "zget (clCounts (Release u l')) u = m - 1"
    using l' lim m by (simp_all add: Release_def zget_put)
  then have "let_in 1 u (Release u l') \<noteq> None"
    using let_in_capped [of "Release u l'" u m 1] by auto
  with l'(1) full let_in_uncapped [OF assms(1)] show ?thesis by blast
qed

theorem reload_exceeds_cap_witness:
  "\<exists>l'. let_in 1 ''alice'' (connLimiter_Update [alice 1] (NewUserConnLimiter [alice 0])) = Some l'
     \<and> Acquire ''alice'' l' = (False, l')"
proof -
  have "map_of (clLimits (NewUserConnLimiter [alice 0])) ''alice'' = None"
    "zget (clCounts (NewUserConnLimiter [alice 0])) ''alice'' = 0"
    "map_of (conn_limits [alice 1] []) ''alice'' = Some 1" by code_simp+
  from reload_exceeds_cap [OF this] show ?thesis by auto
qed

section \<open>Rate limiters\<close>

text \<open>The bucket that a user's limiter points to, and what an update makes of it.\<close>

definition bucket :: "'l rateRegistry \<Rightarrow> string \<Rightarrow> 'l option" where
  "bucket r u = map_option (rgHeap r) (registry_Limiter r u)"

definition set_bucket :: "'l rate_lib \<Rightarrow> int \<Rightarrow> 'l option \<Rightarrow> 'l" where
  "set_bucket lib n b =
     (case b of
        None \<Rightarrow> rate_NewLimiter lib n (limiterBurst n)
      | Some l \<Rightarrow> rate_SetBurst lib (limiterBurst n) (rate_SetLimit lib n l))"

lemma bucket_set:
  assumes "wf_registry r"
  shows "bucket (registry_set lib r (u, n)) k =
     (if k = u then Some (set_bucket lib n (bucket r u)) else bucket r k)"
proof (cases "map_of (rgLimiters r) u")
  case None
  have "map_of (rgLimiters r) k \<noteq> Some (rgNext r)"
    using assms unfolding wf_registry_def by (metis less_irrefl)
  with None show ?thesis
    by (cases "map_of (rgLimiters r) k")
      (auto simp: bucket_def registry_Limiter_def registry_set_def set_bucket_def)
next
  case (Some p)
  have "k \<noteq> u \<Longrightarrow> map_of (rgLimiters r) k \<noteq> Some p"
    using assms Some unfolding wf_registry_def by metis
  with Some show ?thesis
    by (cases "map_of (rgLimiters r) k")
      (auto simp: bucket_def registry_Limiter_def registry_set_def set_bucket_def)
qed

lemma bucket_foldl:
  "wf_registry r \<Longrightarrow> distinct (map fst xs) \<Longrightarrow>
     bucket (foldl (registry_set lib) r xs) k =
       (case map_of xs k of None \<Rightarrow> bucket r k | Some n \<Rightarrow> Some (set_bucket lib n (bucket r k)))"
proof (induction xs arbitrary: r)
  case (Cons x xs)
  obtain u n where x: "x = (u, n)" by (cases x)
  have "map_of xs u = None" using Cons.prems(2) by (simp add: x map_of_eq_None_iff)
  then show ?case
    using Cons.IH [OF wf_registry_set [OF Cons.prems(1), of lib u n]] Cons.prems(2)
    by (auto simp: x bucket_set [OF Cons.prems(1)] split: option.splits)
qed simp

lemma wf_registry_prune: "wf_registry r \<Longrightarrow> wf_registry (r\<lparr>rgLimiters := prune_limiters new (rgLimiters r)\<rparr>)"
  unfolding wf_registry_def by (auto simp: map_of_prune split: if_splits)

lemma bucket_limits [simp]: "bucket (r\<lparr>rgLimits := m\<rparr>) u = bucket r u"
  by (simp add: bucket_def registry_Limiter_def)

lemma bucket_prune:
  "bucket (r\<lparr>rgLimiters := prune_limiters new (rgLimiters r)\<rparr>) u =
     (if map_of new u = None then None else bucket r u)"
  by (simp add: bucket_def registry_Limiter_def map_of_prune)

lemma registry_Update_bucket:
  assumes "wf_registry r"
  shows "bucket (registry_Update lib users r) u
    = map_option (\<lambda>n. set_bucket lib n (bucket r u)) (map_of (rate_limits users []) u)"
  using bucket_foldl [OF wf_registry_prune [OF assms, of "rate_limits users []"],
      where xs = "gm_range (rate_limits users [])"]
  by (simp add: registry_Update_def Let_def bucket_prune split: option.split)

text \<open>
  C37: A reload of the registry gives every user with a limit a limiter with that limit and no
  other user one. A user who keeps a limit keeps the very limiter, with its rate and burst
  changed in place, so that the connections that hold it follow the new limit; a user new to
  the limits gets a fresh one, shared with nobody.
\<close>

theorem registry_reload:
  assumes "wf_registry r" and "r' = registry_Update lib users r"
  shows "bucket r' u = map_option (\<lambda>n. set_bucket lib n (bucket r u)) (map_of (rate_limits users []) u)
    \<and> (map_of (rate_limits users []) u \<noteq> None \<longrightarrow> registry_Limiter r u = Some p \<longrightarrow>
          registry_Limiter r' u = Some p)
    \<and> wf_registry r'"
proof -
  let ?new = "rate_limits users []"
  let ?r = "r\<lparr>rgLimiters := prune_limiters ?new (rgLimiters r)\<rparr>"
  have r': "r' = (foldl (registry_set lib) ?r (gm_range ?new))\<lparr>rgLimits := ?new\<rparr>"
    by (simp add: assms(2) registry_Update_def Let_def)
  have b: "bucket r' u = map_option (\<lambda>n. set_bucket lib n (bucket r u)) (map_of ?new u)"
    unfolding assms(2) by (rule registry_Update_bucket [OF assms(1)])
  have l: "registry_Limiter r' u = Some p"
    if "map_of ?new u \<noteq> None" "registry_Limiter r u = Some p"
    using that limiters_foldl_keep [of ?r u p lib "gm_range ?new"]
    by (simp add: r' registry_Limiter_def map_of_prune)
  have w: "wf_registry r'" unfolding assms(2) by (rule wf_registry_Update [OF assms(1)])
  from b l w show ?thesis by blast
qed

text \<open>A bucket as its rate and burst, and the reload of a registry with one user.\<close>

definition pair_lib :: "(int \<times> int) rate_lib" where
  "pair_lib = \<lparr>rate_NewLimiter = Pair, rate_SetLimit = (\<lambda>n l. (n, snd l)),
     rate_SetBurst = (\<lambda>n l. (fst l, n)), rate_WaitN = (\<lambda>n l. (None, l))\<rparr>"

definition limited :: "int \<Rightarrow> userConfig list" where
  "limited n = [(alice 0)\<lparr>uRateLimitBytesPerSec := n\<rparr>]"

theorem registry_reload_witness:
  "bucket (registry_Update pair_lib (limited 100000) (NewUserRateRegistry pair_lib (\<lambda>_. (0, 0)) (limited 500)))
     ''alice'' = Some (100000, 100000)"
proof -
  let ?r = "NewUserRateRegistry pair_lib (\<lambda>_. (0, 0)) (limited 500)"
  have wf: "wf_registry ?r"
    unfolding NewUserRateRegistry_def
    by (rule wf_registry_Update) (simp add: wf_registry_def)
  have b: "bucket ?r ''alice'' = Some (500, 65536)" by code_simp
  from registry_reload [OF wf refl, where lib = pair_lib and users = "limited 100000" and u = "''alice''"] b
  show ?thesis
    by (simp add: limited_def alice_def set_bucket_def pair_lib_def limiterBurst_def)
qed

end
