(* ===== verification/Files.thy ===== *)
theory Files
  imports Prelude
begin

text \<open>
  The file system and the clock as the code of \<open>internal/auth\<close>, \<open>internal/config\<close> and
  \<open>internal/server\<close> uses them: whole files read, written and renamed by their path. A file is
  its contents and its modification time; an instant and a duration are \<open>int\<close>s in
  nanoseconds. Every call may fail: the faults are functions of the path.
\<close>

section \<open>Instants\<close>

text \<open>\<open>now.Sub(t)\<close> saturates at the ends of a duration's \<open>int64\<close>.\<close>

definition time_sub :: "int \<Rightarrow> int \<Rightarrow> int" where
  "time_sub now t = min (2 ^ 63 - 1) (max (- (2 ^ 63)) (now - t))"

lemma time_sub_le: "is_i64 d \<Longrightarrow> now - t \<le> d \<Longrightarrow> time_sub now t \<le> d"
  by (auto simp: time_sub_def is_i64_def)

section \<open>Files\<close>

text \<open>
  \<open>fsWriteFault\<close> gives the error of writing a file and how far it got: \<open>None\<close> when the file
  could not be opened, else the number of bytes written before the error (\<open>os.WriteFile\<close>
  truncates the file first, so a failed write leaves just those bytes).
\<close>

record files =
  fsFiles :: "(string, string \<times> int) gomap"
  fsReadFault :: "string \<Rightarrow> go_error option"
  fsWriteFault :: "string \<Rightarrow> (go_error \<times> nat option) option"
  fsRenameFault :: "string \<Rightarrow> go_error option"
  fsMkdirFault :: "string \<Rightarrow> go_error option"

definition os_ReadFile :: "string \<Rightarrow> files \<Rightarrow> go_error + string" where
  "os_ReadFile p f =
     (case map_of (fsFiles f) p of
        None \<Rightarrow> Inl ErrNotExist
      | Some (d, t) \<Rightarrow> (case fsReadFault f p of Some e \<Rightarrow> Inl e | None \<Rightarrow> Inr d))"

text \<open>\<open>os.Stat\<close>, of which the code uses the modification time.\<close>

definition os_Stat :: "string \<Rightarrow> files \<Rightarrow> go_error + int" where
  "os_Stat p f =
     (case map_of (fsFiles f) p of None \<Rightarrow> Inl ErrNotExist | Some (d, t) \<Rightarrow> Inr t)"

definition os_WriteFile :: "int \<Rightarrow> string \<Rightarrow> string \<Rightarrow> (files, unit) act" where
  "os_WriteFile now p data f =
     (case fsWriteFault f p of
        None \<Rightarrow> (Inr (), f\<lparr>fsFiles := gm_put p (data, now) (fsFiles f)\<rparr>)
      | Some (e, None) \<Rightarrow> (Inl e, f)
      | Some (e, Some n) \<Rightarrow> (Inl e, f\<lparr>fsFiles := gm_put p (take n data, now) (fsFiles f)\<rparr>))"

definition os_Rename :: "string \<Rightarrow> string \<Rightarrow> (files, unit) act" where
  "os_Rename old new f =
     (case fsRenameFault f old of
        Some e \<Rightarrow> (Inl e, f)
      | None \<Rightarrow>
          (case map_of (fsFiles f) old of
             None \<Rightarrow> (Inl ErrNotExist, f)
           | Some x \<Rightarrow> (Inr (), f\<lparr>fsFiles := gm_put new x (gm_del old (fsFiles f))\<rparr>)))"

definition os_MkdirAll :: "string \<Rightarrow> (files, unit) act" where
  "os_MkdirAll p f = (case fsMkdirFault f p of None \<Rightarrow> (Inr (), f) | Some e \<Rightarrow> (Inl e, f))"

section \<open>Replacing a file\<close>

text \<open>
  The pattern of \<open>FailureTracker.save\<close> and \<open>sshidResolver.writeCache\<close>: the new contents go to
  \<open>path.tmp\<close>, which is then renamed.
\<close>

definition replace_file :: "int \<Rightarrow> string \<Rightarrow> string \<Rightarrow> (files, unit) act" where
  "replace_file now path data =
     thenE (os_WriteFile now (path @ ''.tmp'') data) (os_Rename (path @ ''.tmp'') path)"

text \<open>The file has the new contents when the call reports success, and else the old ones.\<close>

lemma replace_file_atomic:
  "replace_file now path data f = (r, f') \<Longrightarrow>
     map_of (fsFiles f') path =
       (case r of Inr u \<Rightarrow> Some (data, now) | Inl e \<Rightarrow> map_of (fsFiles f) path)"
  by (auto simp: replace_file_def bindE_def os_WriteFile_def os_Rename_def
      split: option.splits prod.splits sum.splits if_splits)

lemma replace_file_others:
  "replace_file now path data f = (r, f') \<Longrightarrow> q \<noteq> path \<Longrightarrow> q \<noteq> path @ ''.tmp'' \<Longrightarrow>
     map_of (fsFiles f') q = map_of (fsFiles f) q"
  by (auto simp: replace_file_def bindE_def os_WriteFile_def os_Rename_def
      split: option.splits prod.splits sum.splits if_splits)

lemma replace_file_faults:
  "replace_file now path data f = (r, f') \<Longrightarrow> fsReadFault f' = fsReadFault f"
  by (auto simp: replace_file_def bindE_def os_WriteFile_def os_Rename_def
      split: option.splits prod.splits sum.splits if_splits)

end
