(* ===== verification/AuthFailures.thy ===== *)
theory AuthFailures
  imports Config Files
begin

text \<open>
  \<open>internal/auth/authfailures.go\<close>: the tracker of failed authentications, its blocks, and its
  state file. Each call is given the instants at which the code reads the clock. The JSON of
  the state file is a parameter, the pair of \<open>json.MarshalIndent\<close> and \<open>Decode\<close>.
\<close>

section \<open>The tracker\<close>

record authState =
  asAttempts :: "(string, int list) gomap"
  asBlocked :: "(string, int) gomap"

record failureTracker =
  ftAttempts :: "(string, int list) gomap"
  ftBlocked :: "(string, int) gomap"
  ftMaxAttempts :: int
  ftWindow :: int
  ftBlockDuration :: int
  ftTarpitDelay :: int
  ftStateFile :: string
  ftSaveInterval :: int

definition parseDurationDefault :: "string \<Rightarrow> int \<Rightarrow> go_error + int" where
  "parseDurationDefault s dflt =
     (if s = [] then Inr dflt
      else case parse_duration s of
        Inl e \<Rightarrow> Inl e
      | Inr d \<Rightarrow> if d < 0 then Inl (Errorf ''duration must be non-negative'' []) else Inr d)"

definition IsBlocked :: "string \<Rightarrow> int \<Rightarrow> failureTracker \<Rightarrow> bool \<times> failureTracker" where
  "IsBlocked remote now t =
     (if (case map_of (ftBlocked t) remote of Some until \<Rightarrow> now < until | None \<Rightarrow> False)
      then (True, t)
      else (False, t\<lparr>ftBlocked := gm_del remote (ftBlocked t)\<rparr>))"

text \<open>A missing list of attempts reads as the nil slice.\<close>

definition attempts_of :: "failureTracker \<Rightarrow> string \<Rightarrow> int list" where
  "attempts_of t remote = (case map_of (ftAttempts t) remote of None \<Rightarrow> [] | Some l \<Rightarrow> l)"

definition pruneAttemptsLocked :: "string \<Rightarrow> int \<Rightarrow> failureTracker \<Rightarrow> failureTracker" where
  "pruneAttemptsLocked remote now t =
     (let cutoff = now - ftWindow t;
          kept = filter (\<lambda>when. when > cutoff) (attempts_of t remote)
      in if kept = [] then t\<lparr>ftAttempts := gm_del remote (ftAttempts t)\<rparr>
         else t\<lparr>ftAttempts := gm_put remote kept (ftAttempts t)\<rparr>)"

definition Record :: "string \<Rightarrow> int \<Rightarrow> failureTracker \<Rightarrow> bool \<times> failureTracker" where
  "Record remote now t =
     (let t = pruneAttemptsLocked remote now t;
          t = t\<lparr>ftAttempts := gm_put remote (attempts_of t remote @ [now]) (ftAttempts t)\<rparr>
      in if int (length (attempts_of t remote)) \<ge> ftMaxAttempts t
         then (True, t\<lparr>ftBlocked := gm_put remote (now + ftBlockDuration t) (ftBlocked t),
                        ftAttempts := gm_del remote (ftAttempts t)\<rparr>)
         else (False, t))"

text \<open>\<open>Tarpit\<close> gives the time slept.\<close>

definition Tarpit :: "string \<Rightarrow> int \<Rightarrow> failureTracker \<Rightarrow> int \<times> failureTracker" where
  "Tarpit remote now t =
     (if ftTarpitDelay t \<le> 0 then (0, t)
      else case IsBlocked remote now t of
        (True, t) \<Rightarrow> (ftTarpitDelay t, t)
      | (False, t) \<Rightarrow> (0, t))"

section \<open>The state file\<close>

record state_codec =
  jsonMarshal :: "authState \<Rightarrow> go_error + string"
  jsonDecode :: "string \<Rightarrow> go_error + authState"

definition load_attempts :: "int \<Rightarrow> failureTracker \<Rightarrow> string \<times> int list \<Rightarrow> failureTracker" where
  "load_attempts now t ra =
     (case ra of (remote, attempts) \<Rightarrow>
        let valid = filter (\<lambda>when. time_sub now when \<le> ftWindow t) attempts
        in if length valid > 0 then t\<lparr>ftAttempts := gm_put remote valid (ftAttempts t)\<rparr> else t)"

definition load_blocked :: "int \<Rightarrow> failureTracker \<Rightarrow> string \<times> int \<Rightarrow> failureTracker" where
  "load_blocked now t ru =
     (case ru of (remote, until) \<Rightarrow>
        if now < until then t\<lparr>ftBlocked := gm_put remote until (ftBlocked t)\<rparr> else t)"

definition tracker_load :: "state_codec \<Rightarrow> files \<Rightarrow> int \<Rightarrow> failureTracker
    \<Rightarrow> go_error option \<times> failureTracker" where
  "tracker_load json f now t =
     (case os_ReadFile (ftStateFile t) f of
        Inl e \<Rightarrow> (if e = ErrNotExist then None else Some e, t)
      | Inr data \<Rightarrow>
          (case jsonDecode json data of
             Inl e \<Rightarrow> (Some e, t)
           | Inr s \<Rightarrow>
               (None, foldl (load_blocked now)
                        (foldl (load_attempts now) t (gm_range (asAttempts s)))
                        (gm_range (asBlocked s)))))"

text \<open>\<open>NewFailureTracker\<close> only logs an error of \<open>load\<close>.\<close>

definition wrap_duration :: "string \<Rightarrow> go_error + int \<Rightarrow> go_error + int" where
  "wrap_duration msg r = (case r of Inl e \<Rightarrow> Inl (Wrapf msg [] e) | Inr d \<Rightarrow> Inr d)"

definition NewFailureTracker :: "state_codec \<Rightarrow> files \<Rightarrow> int \<Rightarrow> authFailuresConfig
    \<Rightarrow> go_error + failureTracker" where
  "NewFailureTracker json f now cfg =
     (let maxAttempts = (if afMaxAttempts cfg \<le> 0 then 5 else afMaxAttempts cfg) in
      case wrap_duration ''invalid auth failure window: %w''
             (parseDurationDefault (afWindow cfg) (5 * minutes)) of Inl e \<Rightarrow> Inl e | Inr window \<Rightarrow>
      case wrap_duration ''invalid auth failure block_duration: %w''
             (parseDurationDefault (afBlockDuration cfg) (15 * minutes)) of Inl e \<Rightarrow> Inl e | Inr blockDuration \<Rightarrow>
      case wrap_duration ''invalid auth failure tarpit_delay: %w''
             (parseDurationDefault (afTarpitDelay cfg) 0) of Inl e \<Rightarrow> Inl e | Inr tarpitDelay \<Rightarrow>
      case wrap_duration ''invalid auth failure save_interval: %w''
             (parseDurationDefault (afSaveInterval cfg) minutes) of Inl e \<Rightarrow> Inl e | Inr saveInterval \<Rightarrow>
      let t = \<lparr>ftAttempts = [], ftBlocked = [], ftMaxAttempts = maxAttempts, ftWindow = window,
               ftBlockDuration = blockDuration, ftTarpitDelay = tarpitDelay,
               ftStateFile = afStateFile cfg, ftSaveInterval = saveInterval\<rparr>
      in Inr (if ftStateFile t \<noteq> [] then snd (tracker_load json f now t) else t))"

text \<open>The two loops of \<open>save\<close>, which delete from the maps they range over.\<close>

definition expire_blocked :: "int \<Rightarrow> failureTracker \<Rightarrow> string \<times> int \<Rightarrow> failureTracker" where
  "expire_blocked now t ru =
     (case ru of (remote, until) \<Rightarrow>
        if \<not> now < until then t\<lparr>ftBlocked := gm_del remote (ftBlocked t)\<rparr> else t)"

definition prune_all :: "int \<Rightarrow> failureTracker \<Rightarrow> failureTracker" where
  "prune_all now t =
     (let t = foldl (\<lambda>t remote. pruneAttemptsLocked remote now t) t (gm_keys (ftAttempts t))
      in foldl (expire_blocked now) t (gm_range (ftBlocked t)))"

text \<open>\<open>written\<close> is when the file is written, after the lock is released.\<close>

definition tracker_save :: "state_codec \<Rightarrow> int \<Rightarrow> int \<Rightarrow> failureTracker \<Rightarrow> files
    \<Rightarrow> go_error option \<times> failureTracker \<times> files" where
  "tracker_save json now written t f =
     (if ftStateFile t = [] then (None, t, f)
      else
        let t = prune_all now t;
            s = \<lparr>asAttempts = ftAttempts t, asBlocked = ftBlocked t\<rparr>
        in case jsonMarshal json s of
             Inl e \<Rightarrow> (Some e, t, f)
           | Inr data \<Rightarrow>
               (case replace_file written (ftStateFile t) data f of
                  (Inl e, f) \<Rightarrow> (Some e, t, f)
                | (Inr _, f) \<Rightarrow> (None, t, f)))"

section \<open>Runs of a tracker\<close>

text \<open>
  What happens to a tracker: the server's callbacks ask and record, and the goroutine that
  \<open>Start\<close> runs when there is a state file and an interval (\<open>saves\<close>) saves at its ticks and
  when its context is done, only logging an error. The mutex makes each call one step.
\<close>

datatype tracker_event =
    AskBlocked string int
  | RecordFailure string int
  | AskTarpit string int
  | SaveTick int int

definition saves :: "failureTracker \<Rightarrow> bool" where
  "saves t \<longleftrightarrow> \<not> (ftStateFile t = [] \<or> ftSaveInterval t \<le> 0)"

fun event_time :: "tracker_event \<Rightarrow> int" where
  "event_time (AskBlocked r now) = now"
| "event_time (RecordFailure r now) = now"
| "event_time (AskTarpit r now) = now"
| "event_time (SaveTick now written) = now"

text \<open>A step gives what the call returned: a boolean as 0 or 1, the time slept, or 0.\<close>

fun tracker_step :: "state_codec \<Rightarrow> tracker_event \<Rightarrow> failureTracker \<times> files
    \<Rightarrow> int \<times> failureTracker \<times> files" where
  "tracker_step json (AskBlocked r now) (t, f) =
     (case IsBlocked r now t of (b, t) \<Rightarrow> (of_bool b, t, f))"
| "tracker_step json (RecordFailure r now) (t, f) =
     (case Record r now t of (b, t) \<Rightarrow> (of_bool b, t, f))"
| "tracker_step json (AskTarpit r now) (t, f) =
     (case Tarpit r now t of (d, t) \<Rightarrow> (d, t, f))"
| "tracker_step json (SaveTick now written) (t, f) =
     (if saves t then (0, snd (tracker_save json now written t f)) else (0, t, f))"

fun tracker_run :: "state_codec \<Rightarrow> tracker_event list \<Rightarrow> failureTracker \<times> files
    \<Rightarrow> int list \<times> failureTracker \<times> files" where
  "tracker_run json [] x = ([], x)"
| "tracker_run json (e # es) x =
     (case tracker_step json e x of (v, x) \<Rightarrow>
      case tracker_run json es x of (vs, x) \<Rightarrow> (v # vs, x))"

section \<open>What the calls do\<close>

definition blocked_at :: "failureTracker \<Rightarrow> string \<Rightarrow> int option" where
  "blocked_at t = map_of (ftBlocked t)"

definition tracker_params :: "failureTracker \<Rightarrow> int \<times> int \<times> int \<times> int \<times> string \<times> int" where
  "tracker_params t = (ftMaxAttempts t, ftWindow t, ftBlockDuration t, ftTarpitDelay t,
     ftStateFile t, ftSaveInterval t)"

text \<open>The attempts of a remote that still count, and the block that still holds.\<close>

definition live_attempts :: "int \<Rightarrow> failureTracker \<Rightarrow> string \<Rightarrow> int list" where
  "live_attempts now t r = filter (\<lambda>w. now - ftWindow t < w) (attempts_of t r)"

definition live_block :: "int \<Rightarrow> failureTracker \<Rightarrow> string \<Rightarrow> int option" where
  "live_block now t r =
     (case blocked_at t r of None \<Rightarrow> None | Some u \<Rightarrow> if now < u then Some u else None)"

named_theorems tracker_sel \<open>the calls of a tracker, by what is read from it\<close>

lemma tracker_upd [simp]:
  "attempts_of (t\<lparr>ftAttempts := gm_put r l (ftAttempts t)\<rparr>) = (attempts_of t)(r := l)"
  "attempts_of (t\<lparr>ftAttempts := gm_del r (ftAttempts t)\<rparr>) = (attempts_of t)(r := [])"
  "attempts_of (t\<lparr>ftAttempts := gm_del r (gm_put r l (ftAttempts t))\<rparr>) = (attempts_of t)(r := [])"
  "attempts_of (t\<lparr>ftBlocked := b, ftAttempts := a\<rparr>) = attempts_of (t\<lparr>ftAttempts := a\<rparr>)"
  "attempts_of (t\<lparr>ftBlocked := b\<rparr>) = attempts_of t"
  "blocked_at (t\<lparr>ftBlocked := gm_put r u (ftBlocked t)\<rparr>) = (blocked_at t)(r \<mapsto> u)"
  "blocked_at (t\<lparr>ftBlocked := gm_del r (ftBlocked t)\<rparr>) = (blocked_at t)(r := None)"
  "blocked_at (t\<lparr>ftAttempts := a\<rparr>) = blocked_at t"
  "tracker_params (t\<lparr>ftAttempts := a\<rparr>) = tracker_params t"
  "tracker_params (t\<lparr>ftBlocked := b\<rparr>) = tracker_params t"
  by (auto simp: attempts_of_def blocked_at_def tracker_params_def fun_eq_iff)

lemma IsBlocked_sel [tracker_sel]:
  "fst (IsBlocked r now t) \<longleftrightarrow> live_block now t r \<noteq> None"
  "attempts_of (snd (IsBlocked r now t)) = attempts_of t"
  "blocked_at (snd (IsBlocked r now t)) =
     (if live_block now t r = None then (blocked_at t)(r := None) else blocked_at t)"
  "tracker_params (snd (IsBlocked r now t)) = tracker_params t"
  by (auto simp: IsBlocked_def live_block_def blocked_at_def attempts_of_def tracker_params_def
      fun_eq_iff split: option.splits)

lemma prune_sel [tracker_sel]:
  "attempts_of (pruneAttemptsLocked r now t) = (attempts_of t)(r := live_attempts now t r)"
  "blocked_at (pruneAttemptsLocked r now t) = blocked_at t"
  "tracker_params (pruneAttemptsLocked r now t) = tracker_params t"
  by (auto simp: pruneAttemptsLocked_def Let_def live_attempts_def)

lemma params_sel:
  "tracker_params t = tracker_params t' \<Longrightarrow> ftWindow t = ftWindow t' \<and> ftMaxAttempts t = ftMaxAttempts t'
     \<and> ftBlockDuration t = ftBlockDuration t' \<and> ftTarpitDelay t = ftTarpitDelay t'
     \<and> ftStateFile t = ftStateFile t' \<and> ftSaveInterval t = ftSaveInterval t'"
  by (simp add: tracker_params_def)

lemma Record_sel [tracker_sel]:
  "fst (Record r now t) \<longleftrightarrow> ftMaxAttempts t \<le> int (length (live_attempts now t r)) + 1"
  "attempts_of (snd (Record r now t)) = (attempts_of t)(r :=
     (if fst (Record r now t) then [] else live_attempts now t r @ [now]))"
  "blocked_at (snd (Record r now t)) = (blocked_at t)(r :=
     (if fst (Record r now t) then Some (now + ftBlockDuration t) else blocked_at t r))"
  "tracker_params (snd (Record r now t)) = tracker_params t"
proof -
  let ?p = "pruneAttemptsLocked r now t"
  let ?q = "?p\<lparr>ftAttempts := gm_put r (attempts_of ?p r @ [now]) (ftAttempts ?p)\<rparr>"
  let ?b = "?q\<lparr>ftBlocked := gm_put r (now + ftBlockDuration t) (ftBlocked ?q)\<rparr>"
  have par: "ftMaxAttempts ?p = ftMaxAttempts t" "ftBlockDuration ?p = ftBlockDuration t"
    using params_sel [OF prune_sel(3)] by simp_all
  have q: "attempts_of ?q = (attempts_of t)(r := live_attempts now t r @ [now])"
    by (simp add: prune_sel)
  have rec: "Record r now t = (if ftMaxAttempts t \<le> int (length (attempts_of ?q r))
       then (True, ?b\<lparr>ftAttempts := gm_del r (ftAttempts ?b)\<rparr>) else (False, ?q))"
    by (simp add: Record_def Let_def par)
  show b: "fst (Record r now t) \<longleftrightarrow> ftMaxAttempts t \<le> int (length (live_attempts now t r)) + 1"
    unfolding rec q by auto
  show "attempts_of (snd (Record r now t)) = (attempts_of t)(r :=
     (if fst (Record r now t) then [] else live_attempts now t r @ [now]))"
    unfolding rec by (simp add: prune_sel)
  show "blocked_at (snd (Record r now t)) = (blocked_at t)(r :=
     (if fst (Record r now t) then Some (now + ftBlockDuration t) else blocked_at t r))"
    unfolding rec by (simp add: prune_sel)
  show "tracker_params (snd (Record r now t)) = tracker_params t"
    unfolding rec by (simp add: prune_sel)
qed

end
