(* ===== verification/TrackerSpec.thy ===== *)
theory TrackerSpec
  imports AuthFailures
begin

text \<open>
  What the tracker of failed authentications promises: two trackers that agree on the live
  attempts and blocks answer alike for ever after, which a restart from the state file keeps;
  and the bound on the guesses that a remote can make.
\<close>

section \<open>Trackers that agree\<close>

definition same_at :: "int \<Rightarrow> failureTracker \<Rightarrow> failureTracker \<Rightarrow> bool" where
  "same_at now a b \<longleftrightarrow> tracker_params a = tracker_params b \<and>
     (\<forall>r. live_attempts now a r = live_attempts now b r \<and> live_block now a r = live_block now b r)"

lemma same_atI:
  "tracker_params a = tracker_params b \<Longrightarrow> (\<And>r. live_attempts now a r = live_attempts now b r) \<Longrightarrow>
     (\<And>r. live_block now a r = live_block now b r) \<Longrightarrow> same_at now a b"
  by (simp add: same_at_def)

lemma same_at_refl [simp]: "same_at now a a"
  by (simp add: same_at_def)

lemma live_attempts_later:
  "now \<le> now' \<Longrightarrow> live_attempts now' t r = filter (\<lambda>w. now' - ftWindow t < w) (live_attempts now t r)"
  unfolding live_attempts_def filter_filter by (rule filter_cong) auto

lemma live_block_later:
  "now \<le> now' \<Longrightarrow> live_block now' t r =
     (case live_block now t r of None \<Rightarrow> None | Some u \<Rightarrow> if now' < u then Some u else None)"
  by (auto simp: live_block_def split: option.split)

lemma same_at_later: "same_at now a b \<Longrightarrow> now \<le> now' \<Longrightarrow> same_at now' a b"
  using params_sel [of a b]
  by (auto simp: same_at_def live_attempts_later [of now now'] live_block_later [of now now'])

lemma same_at_trans: "same_at now a b \<Longrightarrow> same_at now b c \<Longrightarrow> same_at now a c"
  by (simp add: same_at_def)

text \<open>Each call answers alike on trackers that agree, and keeps them in agreement.\<close>

lemma IsBlocked_same:
  assumes "same_at now a b"
  shows "fst (IsBlocked r now a) = fst (IsBlocked r now b)"
    and "same_at now (snd (IsBlocked r now a)) (snd (IsBlocked r now b))"
proof -
  show "fst (IsBlocked r now a) = fst (IsBlocked r now b)"
    using assms by (simp add: IsBlocked_sel same_at_def)
  have "live_attempts now (snd (IsBlocked r now t)) = live_attempts now t"
    and "live_block now (snd (IsBlocked r now t)) = live_block now t" for t
    using params_sel [OF IsBlocked_sel(4) [of r now t]]
    by (auto simp: live_attempts_def IsBlocked_sel fun_eq_iff live_block_def split: option.splits)
  then show "same_at now (snd (IsBlocked r now a)) (snd (IsBlocked r now b))"
    using assms by (simp add: same_at_def IsBlocked_sel)
qed

lemma Record_same:
  assumes "same_at now a b"
  shows "fst (Record r now a) = fst (Record r now b)"
    and "same_at now (snd (Record r now a)) (snd (Record r now b))"
proof -
  have par: "tracker_params a = tracker_params b"
    and la: "\<And>r. live_attempts now a r = live_attempts now b r"
    and lb: "\<And>r. live_block now a r = live_block now b r"
    using assms by (simp_all add: same_at_def)
  show eq: "fst (Record r now a) = fst (Record r now b)"
    using params_sel [OF par] by (simp add: Record_sel(1) la)
  have lat: "live_attempts now (snd (Record r now t)) q =
      (if q = r then if fst (Record r now t) then []
         else live_attempts now t r @ filter (\<lambda>w. now - ftWindow t < w) [now]
       else live_attempts now t q)" for t q
    using params_sel [OF Record_sel(4) [of r now t]]
    by (auto simp: live_attempts_def Record_sel(2))
  have lbt: "live_block now (snd (Record r now t)) q =
      (if q = r \<and> fst (Record r now t)
       then if 0 < ftBlockDuration t then Some (now + ftBlockDuration t) else None
       else live_block now t q)" for t q
    by (auto simp: live_block_def Record_sel(3))
  show "same_at now (snd (Record r now a)) (snd (Record r now b))"
    by (rule same_atI) (use params_sel [OF par] in
      \<open>simp_all add: lat lbt la lb eq Record_sel(4) par\<close>)
qed

lemma Tarpit_same:
  assumes "same_at now a b"
  shows "fst (Tarpit r now a) = fst (Tarpit r now b)"
    and "same_at now (snd (Tarpit r now a)) (snd (Tarpit r now b))"
proof -
  have d: "ftTarpitDelay a = ftTarpitDelay b" using assms params_sel [of a b] by (simp add: same_at_def)
  obtain x a' y b' where x: "IsBlocked r now a = (x, a')" and y: "IsBlocked r now b = (y, b')"
    by fastforce
  note s = IsBlocked_same [OF assms, of r, unfolded x y fst_conv snd_conv]
  have d': "ftTarpitDelay a' = ftTarpitDelay b'"
    using s(2) params_sel [of a' b'] by (simp add: same_at_def)
  show "fst (Tarpit r now a) = fst (Tarpit r now b)"
    using s(1) by (cases y) (simp_all add: Tarpit_def d d' x y)
  show "same_at now (snd (Tarpit r now a)) (snd (Tarpit r now b))"
    using s assms by (cases y) (simp_all add: Tarpit_def d x y)
qed

section \<open>Saving\<close>

lemma prune_all_attempts:
  "attempts_of (foldl (\<lambda>t r. pruneAttemptsLocked r now t) t ks) q =
     (if q \<in> set ks then live_attempts now t q else attempts_of t q)
   \<and> blocked_at (foldl (\<lambda>t r. pruneAttemptsLocked r now t) t ks) = blocked_at t
   \<and> tracker_params (foldl (\<lambda>t r. pruneAttemptsLocked r now t) t ks) = tracker_params t"
proof (induction ks arbitrary: t)
  case (Cons k ks)
  have "live_attempts now (pruneAttemptsLocked k now t) q = live_attempts now t q"
    using params_sel [OF prune_sel(3) [of k now t]]
    by (auto simp: live_attempts_def prune_sel(1))
  with Cons.IH [of "pruneAttemptsLocked k now t"] show ?case
    by (auto simp: prune_sel)
qed simp

lemma expire_all:
  "blocked_at (foldl (expire_blocked now) t xs) q =
     (if \<exists>u. (q, u) \<in> set xs \<and> \<not> now < u then None else blocked_at t q)
   \<and> attempts_of (foldl (expire_blocked now) t xs) = attempts_of t
   \<and> tracker_params (foldl (expire_blocked now) t xs) = tracker_params t"
proof (induction xs arbitrary: t)
  case (Cons x xs)
  obtain r u where x: "x = (r, u)" by (cases x)
  show ?case
    using Cons.IH [of "expire_blocked now t x"]
    by (auto simp: x expire_blocked_def)
qed simp

lemma prune_all_sel:
  "attempts_of (prune_all now t) = live_attempts now t"
  "blocked_at (prune_all now t) = live_block now t"
  "tracker_params (prune_all now t) = tracker_params t"
proof -
  let ?t = "foldl (\<lambda>t r. pruneAttemptsLocked r now t) t (gm_keys (ftAttempts t))"
  have p: "prune_all now t = foldl (expire_blocked now) ?t (gm_range (ftBlocked ?t))"
    by (simp add: prune_all_def Let_def)
  have none: "q \<notin> dom (map_of (ftAttempts t)) \<Longrightarrow> attempts_of t q = []" for q
    by (simp add: attempts_of_def domIff)
  then have "q \<notin> dom (map_of (ftAttempts t)) \<Longrightarrow> live_attempts now t q = []" for q
    by (simp add: live_attempts_def)
  with none have "attempts_of ?t q = live_attempts now t q" for q
    using prune_all_attempts [of now t "gm_keys (ftAttempts t)" q]
    by (simp only: set_gm_keys) (simp split: if_splits)
  then show "attempts_of (prune_all now t) = live_attempts now t"
    by (simp add: p expire_all fun_eq_iff)
  have b: "map_of (ftBlocked ?t) = blocked_at t"
    using prune_all_attempts [of now t "gm_keys (ftAttempts t)"] by (simp add: blocked_at_def)
  show "blocked_at (prune_all now t) = live_block now t"
    unfolding p using expire_all [of now ?t "gm_range (ftBlocked ?t)"] b
    by (auto simp: fun_eq_iff live_block_def set_gm_range blocked_at_def split: option.splits)
  show "tracker_params (prune_all now t) = tracker_params t"
    by (simp add: p expire_all prune_all_attempts)
qed

lemma prune_all_same: "same_at now (prune_all now t) t"
proof (rule same_atI)
  have w: "ftWindow (prune_all now t) = ftWindow t"
    using params_sel [OF prune_all_sel(3)] by simp
  show "live_attempts now (prune_all now t) r = live_attempts now t r" for r
    by (simp add: live_attempts_def prune_all_sel(1) w)
  show "live_block now (prune_all now t) r = live_block now t r" for r
    by (auto simp: live_block_def prune_all_sel(2) split: option.splits)
qed (rule prune_all_sel(3))

lemma tracker_save_same:
  "tracker_save json now written t f = (r, t', f') \<Longrightarrow> same_at now t' t"
  using prune_all_same
  by (auto simp: tracker_save_def Let_def split: if_splits sum.splits prod.splits)

lemma tracker_step_same:
  assumes "same_at (event_time e) a b"
  shows "fst (tracker_step json e (a, f)) = fst (tracker_step json e (b, g))
    \<and> same_at (event_time e) (fst (snd (tracker_step json e (a, f)))) (fst (snd (tracker_step json e (b, g))))"
proof (cases e)
  case (AskBlocked r now)
  then show ?thesis using assms IsBlocked_same [of now a b r]
    by (auto split: prod.split)
next
  case (RecordFailure r now)
  then show ?thesis using assms Record_same [of now a b r]
    by (auto split: prod.split)
next
  case (AskTarpit r now)
  then show ?thesis using assms Tarpit_same [of now a b r]
    by (auto split: prod.split)
next
  case (SaveTick now written)
  have s: "saves a = saves b" using assms params_sel [of a b] by (simp add: saves_def same_at_def)
  obtain r1 a' f' r2 b' g' where x: "tracker_save json now written a f = (r1, a', f')"
    and y: "tracker_save json now written b g = (r2, b', g')" by (metis prod_cases3)
  have "same_at now a' b'"
    using tracker_save_same [OF x] tracker_save_same [OF y] assms SaveTick
    by (simp add: same_at_def)
  then show ?thesis using assms by (simp add: SaveTick s x y)
qed

lemma tracker_run_same:
  "same_at now a b \<Longrightarrow> sorted (map event_time es) \<Longrightarrow> \<forall>e\<in>set es. now \<le> event_time e \<Longrightarrow>
     fst (tracker_run json es (a, f)) = fst (tracker_run json es (b, g))"
proof (induction es arbitrary: now a b f g)
  case (Cons e es)
  have s: "same_at (event_time e) a b"
    using Cons.prems by (auto intro: same_at_later)
  obtain v a' f' where x: "tracker_step json e (a, f) = (v, a', f')" by (metis prod_cases3)
  obtain v' b' g' where y: "tracker_step json e (b, g) = (v', b', g')" by (metis prod_cases3)
  from tracker_step_same [OF s, of json f g] have v: "v' = v" and s': "same_at (event_time e) a' b'"
    by (simp_all add: x y)
  have "fst (tracker_run json es (a', f')) = fst (tracker_run json es (b', g'))"
    using Cons.IH [OF s'] Cons.prems(2) by simp
  then show ?case by (simp add: x y v case_prod_beta)
qed simp

section \<open>Loading\<close>

lemma load_attempts_all:
  "distinct (map fst xs) \<Longrightarrow>
     attempts_of (foldl (load_attempts now) t xs) q =
       (case map_of xs q of None \<Rightarrow> attempts_of t q
        | Some l \<Rightarrow> (case filter (\<lambda>w. time_sub now w \<le> ftWindow t) l of
            [] \<Rightarrow> attempts_of t q | l' \<Rightarrow> l'))
   \<and> blocked_at (foldl (load_attempts now) t xs) = blocked_at t
   \<and> tracker_params (foldl (load_attempts now) t xs) = tracker_params t"
proof (induction xs arbitrary: t)
  case (Cons x xs)
  obtain r l where x: "x = (r, l)" by (cases x)
  let ?t = "load_attempts now t (r, l)"
  have par: "tracker_params ?t = tracker_params t" by (simp add: load_attempts_def Let_def)
  have win: "ftWindow ?t = ftWindow t" using params_sel [OF par] by simp
  have att: "attempts_of ?t = (attempts_of t)(r :=
      (case filter (\<lambda>w. time_sub now w \<le> ftWindow t) l of [] \<Rightarrow> attempts_of t r | l' \<Rightarrow> l'))"
    by (auto simp: load_attempts_def Let_def split: list.split)
  have blk: "blocked_at ?t = blocked_at t" by (simp add: load_attempts_def Let_def)
  have "map_of xs r = None" using Cons.prems by (simp add: x map_of_eq_None_iff)
  then show ?case
    using Cons.IH [of ?t] Cons.prems by (auto simp: par win att blk x split: option.split list.split)
qed simp

lemma load_blocked_all:
  "distinct (map fst xs) \<Longrightarrow>
     blocked_at (foldl (load_blocked now) t xs) q =
       (case map_of xs q of None \<Rightarrow> blocked_at t q
        | Some u \<Rightarrow> if now < u then Some u else blocked_at t q)
   \<and> attempts_of (foldl (load_blocked now) t xs) = attempts_of t
   \<and> tracker_params (foldl (load_blocked now) t xs) = tracker_params t"
proof (induction xs arbitrary: t)
  case (Cons x xs)
  obtain r u where x: "x = (r, u)" by (cases x)
  have "map_of xs r = None" using Cons.prems by (simp add: x map_of_eq_None_iff)
  then show ?case
    using Cons.IH [of "load_blocked now t x"] Cons.prems
    by (auto simp: x load_blocked_def split: option.split)
qed simp

text \<open>What a new tracker is: its parameters come from the configuration alone.\<close>

definition empty_tracker :: "failureTracker \<Rightarrow> failureTracker" where
  "empty_tracker t = t\<lparr>ftAttempts := [], ftBlocked := []\<rparr>"

lemma parseDurationDefault_i64:
  "parseDurationDefault s d = Inr v \<Longrightarrow> is_i64 d \<Longrightarrow> 0 \<le> d \<Longrightarrow> is_i64 v \<and> 0 \<le> v"
  by (auto simp: parseDurationDefault_def dest: parse_duration_i64 split: if_splits sum.splits)

lemma tracker_load_params: "tracker_params (snd (tracker_load json f now t)) = tracker_params t"
  by (auto simp: tracker_load_def load_attempts_all load_blocked_all split: sum.splits)

lemma NewFailureTracker_cases:
  assumes "NewFailureTracker json f now cfg = Inr t"
  shows "\<exists>t0. ftAttempts t0 = [] \<and> ftBlocked t0 = [] \<and> is_i64 (ftWindow t0) \<and> 0 \<le> ftWindow t0
      \<and> 0 < ftMaxAttempts t0 \<and> 0 \<le> ftBlockDuration t0 \<and> ftStateFile t0 = afStateFile cfg
      \<and> (\<forall>json f now t'. NewFailureTracker json f now cfg = Inr t' \<longrightarrow>
          t' = (if afStateFile cfg \<noteq> [] then snd (tracker_load json f now t0) else t0))"
proof -
  let ?max = "if afMaxAttempts cfg \<le> 0 then 5 else afMaxAttempts cfg"
  obtain w b d i where p: "parseDurationDefault (afWindow cfg) (5 * minutes) = Inr w"
      "parseDurationDefault (afBlockDuration cfg) (15 * minutes) = Inr b"
      "parseDurationDefault (afTarpitDelay cfg) 0 = Inr d"
      "parseDurationDefault (afSaveInterval cfg) minutes = Inr i"
    using assms by (auto simp: NewFailureTracker_def wrap_duration_def Let_def split: sum.splits)
  let ?t0 = "\<lparr>ftAttempts = [], ftBlocked = [], ftMaxAttempts = ?max, ftWindow = w,
               ftBlockDuration = b, ftTarpitDelay = d,
               ftStateFile = afStateFile cfg, ftSaveInterval = i\<rparr>"
  have w: "is_i64 w \<and> 0 \<le> w"
    by (rule parseDurationDefault_i64 [OF p(1)]) (simp_all add: minutes_def nsecs_def is_i64_def)
  have b: "is_i64 b \<and> 0 \<le> b"
    by (rule parseDurationDefault_i64 [OF p(2)]) (simp_all add: minutes_def nsecs_def is_i64_def)
  have n: "NewFailureTracker json f now cfg =
      Inr (if afStateFile cfg \<noteq> [] then snd (tracker_load json f now ?t0) else ?t0)" for json f now
    by (simp add: NewFailureTracker_def p wrap_duration_def Let_def)
  show ?thesis
    by (rule exI [of _ ?t0]) (use w b n in auto)
qed

text \<open>
  A tracker made from the state that was saved agrees with the one that saved it. The
  hypothesis on the codec is the documented round trip of \<open>encoding/json\<close>: the decoded maps
  have the entries of the encoded ones, in whatever order.
\<close>

definition json_roundtrip :: "state_codec \<Rightarrow> bool" where
  "json_roundtrip json \<longleftrightarrow>
     (\<forall>s d. jsonMarshal json s = Inr d \<longrightarrow>
        (\<exists>s'. jsonDecode json d = Inr s' \<and> map_of (asAttempts s') = map_of (asAttempts s)
          \<and> map_of (asBlocked s') = map_of (asBlocked s)))"

lemma restart_same:
  assumes json: "json_roundtrip json" and state_file: "afStateFile cfg \<noteq> []"
    and old: "NewFailureTracker json f0 n0 cfg = Inr t0" "tracker_params t = tracker_params t0"
    and save: "tracker_save json s written t f = (None, t1, f1)"
    and read: "fsReadFault f1 (afStateFile cfg) = None"
    and new: "NewFailureTracker json f1 now cfg = Inr t2" and later: "s \<le> now"
  shows "same_at now t2 t"
proof -
  obtain e where e: "ftAttempts e = []" "ftBlocked e = []" "is_i64 (ftWindow e)"
      "ftStateFile e = afStateFile cfg"
    and mk: "\<And>json f now t'. NewFailureTracker json f now cfg = Inr t' \<Longrightarrow>
        t' = snd (tracker_load json f now e)"
    using NewFailureTracker_cases [OF old(1)] state_file by auto
  have par: "tracker_params t = tracker_params e"
    using old(2) mk [OF old(1)] tracker_load_params by simp
  have sf: "ftStateFile t = afStateFile cfg" and win: "ftWindow t = ftWindow e"
    using params_sel [OF par] e(4) by simp_all
  have t1: "t1 = prune_all s t" and data: "\<exists>d. jsonMarshal json \<lparr>asAttempts = ftAttempts t1, asBlocked = ftBlocked t1\<rparr> = Inr d
      \<and> map_of (fsFiles f1) (afStateFile cfg) = Some (d, written)"
    using save state_file params_sel [OF prune_all_sel(3)] replace_file_atomic
    by (auto simp: tracker_save_def sf Let_def split: sum.splits prod.splits if_splits)
  then obtain d st where d: "os_ReadFile (afStateFile cfg) f1 = Inr d"
    and st: "jsonDecode json d = Inr st" "map_of (asAttempts st) = map_of (ftAttempts t1)"
      "map_of (asBlocked st) = map_of (ftBlocked t1)"
    using json read unfolding json_roundtrip_def os_ReadFile_def by fastforce
  let ?a = "foldl (load_attempts now) e (gm_range (asAttempts st))"
  have t2: "t2 = foldl (load_blocked now) ?a (gm_range (asBlocked st))"
    using mk [OF new] d st(1) by (simp add: tracker_load_def e(4))
  have dist: "distinct (map fst (gm_range m))" for m :: "('x, 'y) gomap" by simp
  note la = load_attempts_all [OF dist, of now e "asAttempts st"]
  note lb = load_blocked_all [OF dist, of now ?a "asBlocked st"]
  have att: "attempts_of t2 r = filter (\<lambda>w. time_sub now w \<le> ftWindow t) (attempts_of t1 r)" for r
    using la [of r] lb e(1) st(2)
    by (auto simp: t2 win attempts_of_def split: option.split list.split)
  have blk: "blocked_at t2 r = live_block now t1 r" for r
    using la lb [of r] e(2) st(3)
    by (auto simp: t2 live_block_def blocked_at_def split: option.split)
  have par2: "tracker_params t2 = tracker_params t"
    using mk [OF new] par tracker_load_params by simp
  have win2: "ftWindow t2 = ftWindow t" "ftWindow t1 = ftWindow t"
    using params_sel [OF par2] params_sel [OF prune_all_sel(3)] t1 by simp_all
  have "same_at now t2 t1"
  proof (rule same_atI)
    show "live_attempts now t2 r = live_attempts now t1 r" for r
      unfolding live_attempts_def att win2 filter_filter
      by (rule filter_cong) (use time_sub_le e(3) win in auto)
    show "live_block now t2 r = live_block now t1 r" for r
      unfolding live_block_def [of now t2] blk
      by (auto simp: live_block_def split: option.split)
    show "tracker_params t2 = tracker_params t1" by (simp add: par2 t1 prune_all_sel(3))
  qed
  moreover have "same_at now t1 t"
    unfolding t1 using prune_all_same later by (rule same_at_later)
  ultimately show ?thesis by (rule same_at_trans)
qed

end
