(* ===== verification/AuthGate.thy ===== *)
theory AuthGate
  imports TrackerSpec
begin

text \<open>
  The interface between the server's callbacks and the tracker: an attempt is first checked
  against the blocks, then its credentials are looked at, and a failure is recorded. The locale
  states what the callbacks rely on, and bounds the guesses that get through.
\<close>

text \<open>
  One attempt: the remote, the instants at which the block is checked and the rest is done,
  and whether its credentials are good.
\<close>

datatype outcome = Refused | Accepted | Rejected

type_synonym gate_attempt = "string \<times> int \<times> int \<times> bool"

text \<open>
  Attempts of several connections overlap: an event is the check of the attempt a connection
  makes, or the rest of it. A connection makes one attempt at a time. Attempts under way are
  kept with the answer of their check.
\<close>

datatype gate_event = Check nat gate_attempt | Rest nat

type_synonym gate_flights = "nat \<Rightarrow> (gate_attempt \<times> bool) option"

fun gate_event_step :: "(string \<Rightarrow> int \<Rightarrow> 't \<Rightarrow> bool \<times> 't) \<Rightarrow> (string \<Rightarrow> int \<Rightarrow> 't \<Rightarrow> int \<times> 't)
    \<Rightarrow> (string \<Rightarrow> int \<Rightarrow> 't \<Rightarrow> bool \<times> 't) \<Rightarrow> gate_event \<Rightarrow> 't \<times> gate_flights
    \<Rightarrow> (string \<times> outcome) list \<times> 't \<times> gate_flights" where
  "gate_event_step check tarpit fail (Check c x) (t, fl) =
     (case fl c of
        Some y \<Rightarrow> ([], t, fl)
      | None \<Rightarrow> (case check (fst x) (fst (snd x)) t of (b, t) \<Rightarrow> ([], t, fl(c \<mapsto> (x, b)))))"
| "gate_event_step check tarpit fail (Rest c) (t, fl) =
     (case fl c of
        None \<Rightarrow> ([], t, fl)
      | Some ((r, n1, n2, good), held) \<Rightarrow>
          if held then ([(r, Refused)], snd (tarpit r n2 t), fl(c := None))
          else if good then ([(r, Accepted)], t, fl(c := None))
          else ([(r, Rejected)], snd (fail r n2 t), fl(c := None)))"

fun gate_events :: "(gate_event \<Rightarrow> 't \<times> gate_flights \<Rightarrow> (string \<times> outcome) list \<times> 't \<times> gate_flights)
    \<Rightarrow> gate_event list \<Rightarrow> 't \<times> gate_flights \<Rightarrow> (string \<times> outcome) list" where
  "gate_events step [] st = []"
| "gate_events step (e # es) st = (case step e st of (vs, st) \<Rightarrow> vs @ gate_events step es st)"

text \<open>The attempts of a remote that were looked at and rejected.\<close>

definition guesses :: "string \<Rightarrow> (string \<times> outcome) list \<Rightarrow> nat" where
  "guesses r vs = count_list vs (r, Rejected)"

lemma guesses_simps [simp]:
  "guesses r [] = 0" "guesses r (vs @ ws) = guesses r vs + guesses r ws"
  "guesses r (v # vs) = (if v = (r, Rejected) then 1 else 0) + guesses r vs"
  by (simp_all add: guesses_def)

text \<open>An attempt within a span of time; one of a remote at the connections \<open>C\<close>.\<close>

fun in_span :: "int \<Rightarrow> int \<Rightarrow> gate_attempt \<Rightarrow> bool" where
  "in_span start stop (r, n1, n2, good) \<longleftrightarrow> start \<le> n1 \<and> n1 < stop \<and> start \<le> n2 \<and> n2 < stop"

definition attempt_ok :: "int \<Rightarrow> int \<Rightarrow> string \<Rightarrow> nat set \<Rightarrow> nat \<Rightarrow> gate_attempt \<Rightarrow> bool" where
  "attempt_ok start stop r C c x \<longleftrightarrow> in_span start stop x \<and> (fst x = r \<longrightarrow> c \<in> C)"

definition flights_ok :: "int \<Rightarrow> int \<Rightarrow> string \<Rightarrow> nat set \<Rightarrow> gate_flights \<Rightarrow> bool" where
  "flights_ok start stop r C fl \<longleftrightarrow> (\<forall>c x b. fl c = Some (x, b) \<longrightarrow> attempt_ok start stop r C c x)"

text \<open>The connections whose attempt passed the check.\<close>

definition waiting :: "string \<Rightarrow> gate_flights \<Rightarrow> nat set" where
  "waiting r fl = {c. \<exists>x. fl c = Some (x, False) \<and> fst x = r}"

lemma waiting_ok: "flights_ok start stop r C fl \<Longrightarrow> waiting r fl \<subseteq> C"
  unfolding flights_ok_def attempt_ok_def waiting_def by blast

locale failure_gate =
  fixes check :: "string \<Rightarrow> int \<Rightarrow> 't \<Rightarrow> bool \<times> 't"
    and tarpit :: "string \<Rightarrow> int \<Rightarrow> 't \<Rightarrow> int \<times> 't"
    and fail :: "string \<Rightarrow> int \<Rightarrow> 't \<Rightarrow> bool \<times> 't"
    and failures :: "'t \<Rightarrow> string \<Rightarrow> int list"
    and until :: "'t \<Rightarrow> string \<Rightarrow> int option"
    and limits :: "'t \<Rightarrow> int \<times> int \<times> int"
  assumes check_iff: "fst (check r now t) \<longleftrightarrow> (\<exists>u. until t r = Some u \<and> now < u)"
    and check_keeps: "failures (snd (check r now t)) = failures t"
      "limits (snd (check r now t)) = limits t"
    and check_until: "until (snd (check r now t)) q =
      (if q = r \<and> \<not> fst (check r now t) then None else until t q)"
    and tarpit_keeps: "failures (snd (tarpit r now t)) = failures t"
      "limits (snd (tarpit r now t)) = limits t"
    and tarpit_until: "until t q = Some u \<Longrightarrow> now < u \<Longrightarrow> until (snd (tarpit r now t)) q = Some u"
    and fail_iff: "limits t = (m, w, d) \<Longrightarrow>
      fst (fail r now t) \<longleftrightarrow> m \<le> int (length (filter (\<lambda>x. now - w < x) (failures t r))) + 1"
    and fail_failures: "limits t = (m, w, d) \<Longrightarrow> failures (snd (fail r now t)) =
      (failures t)(r := if fst (fail r now t) then []
         else filter (\<lambda>x. now - w < x) (failures t r) @ [now])"
    and fail_until: "limits t = (m, w, d) \<Longrightarrow> until (snd (fail r now t)) =
      (until t)(r := if fst (fail r now t) then Some (now + d) else until t r)"
    and fail_keeps: "limits (snd (fail r now t)) = limits t"
begin

text \<open>
  How many guesses a remote has left before \<open>stop\<close>, when the failures since \<open>start\<close> count:
  none when it is blocked to the end.
\<close>

definition guesses_left :: "string \<Rightarrow> int \<Rightarrow> int \<Rightarrow> 't \<Rightarrow> int" where
  "guesses_left r start stop t =
     (if \<exists>u. until t r = Some u \<and> stop \<le> u then 0
      else max 1 (fst (limits t) - int (length (filter (\<lambda>x. start \<le> x) (failures t r)))))"

lemma guesses_left_cong:
  "failures t' r = failures t r \<Longrightarrow> limits t' = limits t \<Longrightarrow>
     (\<And>u. until t r = Some u \<Longrightarrow> stop \<le> u \<Longrightarrow> until t' r = Some u) \<Longrightarrow>
     guesses_left r start stop t' \<le> guesses_left r start stop t"
proof (cases "\<exists>u. until t r = Some u \<and> stop \<le> u")
  case True
  assume keep: "\<And>u. until t r = Some u \<Longrightarrow> stop \<le> u \<Longrightarrow> until t' r = Some u"
  from True obtain u where u: "until t r = Some u" "stop \<le> u" by blast
  with keep [OF u] show ?thesis by (simp add: guesses_left_def)
next
  case False
  assume "failures t' r = failures t r" and "limits t' = limits t"
  with False show ?thesis by (auto simp: guesses_left_def le_max_iff_disj)
qed

lemma fail_left:
  assumes lim: "limits t = (m, w, d)" and span: "start \<le> now" "now < stop" "stop - start \<le> w" "stop - start \<le> d"
    and open_gate: "\<not> (\<exists>u. until t r = Some u \<and> stop \<le> u)"
  shows "1 + guesses_left r start stop (snd (fail r now t)) \<le> guesses_left r start stop t"
proof (cases "fst (fail r now t)")
  case True
  have "stop \<le> now + d" using span by simp
  with True have "guesses_left r start stop (snd (fail r now t)) = 0"
    by (simp add: guesses_left_def fail_until [OF lim])
  with open_gate show ?thesis by (simp add: guesses_left_def)
next
  case False
  let ?live = "filter (\<lambda>x. now - w < x) (failures t r)"
  have live: "filter (\<lambda>x. start \<le> x) ?live = filter (\<lambda>x. start \<le> x) (failures t r)"
    unfolding filter_filter by (rule filter_cong) (use span in auto)
  have le: "int (length (filter (\<lambda>x. start \<le> x) (failures t r))) + 1 < m"
    using False fail_iff [OF lim, of r now] length_filter_le [of "\<lambda>x. start \<le> x" ?live]
    unfolding live by linarith
  have "guesses_left r start stop (snd (fail r now t))
      = max 1 (m - (int (length (filter (\<lambda>x. start \<le> x) (failures t r))) + 1))"
    using False open_gate span(1) live
    by (auto simp: guesses_left_def fail_until [OF lim] fail_failures [OF lim] fail_keeps lim)
  with le open_gate lim show ?thesis by (simp add: guesses_left_def)
qed

text \<open>
  With the attempts under way that may still be rejected: all that wait when the remote is
  blocked to the end, else all connections but one.
\<close>

definition shut :: "string \<Rightarrow> int \<Rightarrow> 't \<Rightarrow> bool" where
  "shut r stop t \<longleftrightarrow> (\<exists>u. until t r = Some u \<and> stop \<le> u)"

definition potential :: "string \<Rightarrow> int \<Rightarrow> int \<Rightarrow> nat set \<Rightarrow> 't \<times> gate_flights \<Rightarrow> int" where
  "potential r start stop C st = guesses_left r start stop (fst st)
     + (if shut r stop (fst st) then int (card (waiting r (snd st))) else int (card C) - 1)"

lemma left_shut: "shut r stop t \<Longrightarrow> guesses_left r start stop t = 0"
  and left_open: "\<not> shut r stop t \<Longrightarrow> 1 \<le> guesses_left r start stop t"
  by (auto simp: guesses_left_def shut_def)

lemma potential_keeps:
  assumes "failures t' r = failures t r" and "limits t' = limits t"
    and "\<And>u. until t r = Some u \<Longrightarrow> stop \<le> u \<Longrightarrow> until t' r = Some u"
    and "finite C" and "waiting r fl \<subseteq> C" and "waiting r fl' \<subseteq> C"
    and "shut r stop t \<Longrightarrow> waiting r fl' \<subseteq> waiting r fl"
  shows "potential r start stop C (t', fl') \<le> potential r start stop C (t, fl)"
proof -
  have left: "guesses_left r start stop t' \<le> guesses_left r start stop t"
    using guesses_left_cong [OF assms(1-3)] .
  have fin: "finite (waiting r fl)" using assms(4,5) by (rule rev_finite_subset)
  show ?thesis
  proof (cases "shut r stop t")
    case True
    then have "shut r stop t'" using assms(3) by (auto simp: shut_def)
    then show ?thesis
      using True card_mono [OF fin assms(7) [OF True]] by (simp add: potential_def left_shut)
  next
    case False
    then show ?thesis
      using left left_open [OF False, of start] card_mono [OF assms(4,6)]
      by (auto simp: potential_def left_shut)
  qed
qed

lemma potential_fail:
  assumes lim: "limits t = (m, w, d)" and span: "start \<le> now" "now < stop" "stop - start \<le> w" "stop - start \<le> d"
    and C: "finite C" "waiting r fl \<subseteq> C" and c: "c \<in> waiting r fl"
  shows "1 + potential r start stop C (snd (fail r now t), fl(c := None)) \<le> potential r start stop C (t, fl)"
proof -
  have fin: "finite (waiting r fl)" using C by (rule rev_finite_subset)
  have gone: "waiting r (fl(c := None)) = waiting r fl - {c}" by (auto simp: waiting_def)
  have less: "int (card (waiting r fl - {c})) = int (card (waiting r fl)) - 1"
    using c fin card_gt_0_iff [of "waiting r fl"] by (auto simp: card_Diff_singleton of_nat_diff)
  have le: "card (waiting r fl) \<le> card C" using C by (simp add: card_mono)
  show ?thesis
  proof (cases "shut r stop t")
    case True
    then have "shut r stop (snd (fail r now t))" using span by (auto simp: shut_def fail_until [OF lim])
    then show ?thesis using True by (simp add: potential_def left_shut gone less)
  next
    case False
    then have "1 + guesses_left r start stop (snd (fail r now t)) \<le> guesses_left r start stop t"
      using fail_left [OF lim span] by (simp add: shut_def)
    then show ?thesis using False le by (auto simp: potential_def gone less left_shut)
  qed
qed

lemma check_limits: "check r now t = (b, t') \<Longrightarrow> limits t' = limits t"
  using check_keeps(2) [of r now t] by simp

lemma event_left:
  assumes lim: "limits t = (m, w, d)" and span: "stop - start \<le> w" "stop - start \<le> d" and C: "finite C"
    and fl: "flights_ok start stop r C fl" and e: "\<And>c x. e = Check c x \<Longrightarrow> attempt_ok start stop r C c x"
    and step: "gate_event_step check tarpit fail e (t, fl) = (vs, t', fl')"
  shows "int (guesses r vs) + potential r start stop C (t', fl') \<le> potential r start stop C (t, fl)"
    and "limits t' = limits t" and "flights_ok start stop r C fl'"
proof -
  show lim': "limits t' = limits t"
    using step by (cases e) (auto simp: tarpit_keeps fail_keeps
      split: option.splits prod.splits if_splits dest: check_limits)
  show fl': "flights_ok start stop r C fl'"
    using step fl e by (cases e) (auto simp: flights_ok_def split: option.splits prod.splits if_splits)
  note W = waiting_ok [OF fl] and W' = waiting_ok [OF fl']
  show "int (guesses r vs) + potential r start stop C (t', fl') \<le> potential r start stop C (t, fl)"
  proof (cases e)
    case (Check c x)
    show ?thesis
    proof (cases "fl c")
      case None
      let ?k = "check (fst x) (fst (snd x)) t"
      have t': "vs = []" "t' = snd ?k" "fl' = fl(c \<mapsto> (x, fst ?k))"
        using step None by (auto simp: Check split: prod.splits)
      have n1: "fst (snd x) < stop" using e [OF Check] by (cases x) (simp add: attempt_ok_def)
      have "shut r stop t \<Longrightarrow> waiting r fl' \<subseteq> waiting r fl"
        using n1 by (auto simp: t' waiting_def shut_def check_iff split: if_splits)
      moreover have "until t' r = Some u" if "until t r = Some u" "stop \<le> u" for u
        using that n1 by (auto simp: t' check_until check_iff)
      ultimately show ?thesis
        using potential_keeps [OF _ lim' _ C W W'] by (simp add: t' check_keeps)
    qed (use step Check in simp)
  next
    case (Rest c)
    show ?thesis
    proof (cases "fl c")
      case (Some y)
      obtain r' n1 n2 good held where y: "y = ((r', n1, n2, good), held)" by (metis prod.exhaust)
      have "attempt_ok start stop r C c (r', n1, n2, good)"
        using fl Some unfolding y flights_ok_def by blast
      then have n2: "start \<le> n2" "n2 < stop" by (simp_all add: attempt_ok_def)
      have sub: "waiting r (fl(c := None)) \<subseteq> waiting r fl" by (auto simp: waiting_def)
      show ?thesis
      proof (cases "held \<or> good \<or> r' \<noteq> r")
        case True
        have t': "fl' = fl(c := None)" "guesses r vs = 0" "failures t' r = failures t r"
          "\<And>u. until t r = Some u \<Longrightarrow> stop \<le> u \<Longrightarrow> until t' r = Some u"
          using step Some True n2
          by (auto simp: Rest y tarpit_keeps fail_failures [OF lim] fail_until [OF lim]
              intro: tarpit_until split: if_splits)
        show ?thesis
          using potential_keeps [OF t'(3) lim' t'(4) C W W'] sub t'(1,2) by simp
      next
        case False
        then have "c \<in> waiting r fl" and t': "vs = [(r, Rejected)]" "t' = snd (fail r n2 t)" "fl' = fl(c := None)"
          using step Some by (auto simp: Rest y waiting_def)
        then show ?thesis using potential_fail [OF lim n2 span C W] by simp
      qed
    qed (use step Rest in simp)
  qed
qed

lemma events_left:
  assumes "limits t = (m, w, d)" and "stop - start \<le> w" and "stop - start \<le> d" and "finite C"
    and "flights_ok start stop r C fl" and "\<And>c x. Check c x \<in> set es \<Longrightarrow> attempt_ok start stop r C c x"
  shows "int (guesses r (gate_events (gate_event_step check tarpit fail) es (t, fl)))
    \<le> potential r start stop C (t, fl)"
  using assms
proof (induction es arbitrary: t fl)
  case Nil
  have "waiting r fl \<subseteq> C" using Nil(5) by (rule waiting_ok)
  then show ?case
    using left_open [of r stop t start] by (auto simp: potential_def left_shut)
next
  case (Cons e es)
  obtain vs t' fl' where step: "gate_event_step check tarpit fail e (t, fl) = (vs, t', fl')"
    by (metis prod_cases3)
  note left = event_left [OF Cons.prems(1-5) _ step]
  have e: "attempt_ok start stop r C c x" if "e = Check c x" for c x using Cons.prems(6) that by simp
  have "limits t' = (m, w, d)" using left(2) e Cons.prems(1) by simp
  from Cons.IH [OF this Cons.prems(2-4) left(3) Cons.prems(6)] e
  have "int (guesses r (gate_events (gate_event_step check tarpit fail) es (t', fl')))
      \<le> potential r start stop C (t', fl')" by simp
  with left(1) e show ?case by (simp add: step)
qed

text \<open>
  In a span of time no longer than the window and the block, at most as many guesses of a
  remote are looked at and rejected as the limit says, whatever went before, and one more for
  each further connection the remote has.
\<close>

theorem guess_bound:
  assumes "limits t = (m, w, d)" and "stop - start \<le> w" and "stop - start \<le> d" and "1 \<le> m" and "finite C"
    and "\<And>c x. Check c x \<in> set es \<Longrightarrow> attempt_ok start stop r C c x"
  shows "int (guesses r (gate_events (gate_event_step check tarpit fail) es (t, \<lambda>_. None))) \<le> m + int (card C) - 1"
proof -
  have fl: "flights_ok start stop r C (\<lambda>_. None)" by (simp add: flights_ok_def)
  have "guesses_left r start stop t \<le> m" using assms(1,4) by (simp add: guesses_left_def)
  then have "potential r start stop C (t, \<lambda>_. None) \<le> m + int (card C) - 1"
    using assms(4) by (simp add: potential_def left_shut waiting_def)
  with events_left [OF assms(1-3,5) fl assms(6)] show ?thesis by (rule order_trans)
qed

end

section \<open>The tracker is such a gate\<close>

definition tracker_limits :: "failureTracker \<Rightarrow> int \<times> int \<times> int" where
  "tracker_limits t = (ftMaxAttempts t, ftWindow t, ftBlockDuration t)"

lemma tracker_limits_eq: "tracker_params t = tracker_params t' \<Longrightarrow> tracker_limits t = tracker_limits t'"
  by (simp add: tracker_params_def tracker_limits_def)

lemma Tarpit_sel:
  "snd (Tarpit r now t) = t \<or> snd (Tarpit r now t) = snd (IsBlocked r now t)"
  by (auto simp: Tarpit_def split: prod.split bool.split)

interpretation tracker: failure_gate IsBlocked Tarpit Record attempts_of blocked_at tracker_limits
proof unfold_locales
  fix r q :: string and now u m w d :: int and t :: failureTracker
  show "fst (IsBlocked r now t) \<longleftrightarrow> (\<exists>u. blocked_at t r = Some u \<and> now < u)"
    by (auto simp: IsBlocked_sel live_block_def split: option.splits)
  show "attempts_of (snd (IsBlocked r now t)) = attempts_of t" by (rule IsBlocked_sel)
  show "tracker_limits (snd (IsBlocked r now t)) = tracker_limits t"
    by (rule tracker_limits_eq [OF IsBlocked_sel(4)])
  show "blocked_at (snd (IsBlocked r now t)) q =
      (if q = r \<and> \<not> fst (IsBlocked r now t) then None else blocked_at t q)"
    by (simp add: IsBlocked_sel)
  show "attempts_of (snd (Tarpit r now t)) = attempts_of t"
    using Tarpit_sel [of r now t] IsBlocked_sel(2) by metis
  show "tracker_limits (snd (Tarpit r now t)) = tracker_limits t"
    using Tarpit_sel [of r now t] tracker_limits_eq [OF IsBlocked_sel(4)] by metis
  show "blocked_at (snd (Tarpit r now t)) q = Some u" if "blocked_at t q = Some u" "now < u"
    using Tarpit_sel [of r now t] IsBlocked_sel(3) [of r now t] that
    by (auto simp: live_block_def split: if_splits)
  assume lim: "tracker_limits t = (m, w, d)"
  show "fst (Record r now t) \<longleftrightarrow> m \<le> int (length (filter (\<lambda>x. now - w < x) (attempts_of t r))) + 1"
    using lim by (simp add: Record_sel(1) live_attempts_def tracker_limits_def)
  show "attempts_of (snd (Record r now t)) = (attempts_of t)(r := if fst (Record r now t) then []
         else filter (\<lambda>x. now - w < x) (attempts_of t r) @ [now])"
    using lim by (simp add: Record_sel(2) live_attempts_def tracker_limits_def)
  show "blocked_at (snd (Record r now t)) =
      (blocked_at t)(r := if fst (Record r now t) then Some (now + d) else blocked_at t r)"
    using lim by (simp add: Record_sel(3) tracker_limits_def)
next
  fix r :: string and now :: int and t :: failureTracker
  show "tracker_limits (snd (Record r now t)) = tracker_limits t"
    by (rule tracker_limits_eq [OF Record_sel(4)])
qed

end
