(* ===== verification/AuthKeys.thy ===== *)
theory AuthKeys
  imports Config Files GoPath
begin

text \<open>
  \<open>internal/auth/auth.go\<close>, \<open>passhash.go\<close> and \<open>sshid.go\<close>: authorized keys, passwords, and
  the keys fetched from sshid.io with their cache (\<open>internal/cache/cache.go\<close>). The parser of
  \<open>golang.org/x/crypto/ssh\<close> and \<open>bcrypt\<close> are parameters, and so is the HTTP client.
\<close>

section \<open>The libraries\<close>

record 'k ssh_lib =
  sshParse :: "string \<Rightarrow> go_error + 'k"
  sshMarshal :: "'k \<Rightarrow> string"
  bcryptCompare :: "string \<Rightarrow> string \<Rightarrow> go_error option"
  bcryptGenerate :: "string \<Rightarrow> go_error + string"

section \<open>Authorized keys\<close>

definition KeysEqual :: "'k ssh_lib \<Rightarrow> 'k \<Rightarrow> 'k \<Rightarrow> bool" where
  "KeysEqual lib a b \<longleftrightarrow> sshMarshal lib a = sshMarshal lib b"

definition isLiteralKey :: "string \<Rightarrow> bool" where
  "isLiteralKey s =
     (let s = trim_space s
      in has_prefix s ''ssh-'' \<or> has_prefix s ''ecdsa-sha2-'' \<or> has_prefix s ''sk-''
         \<or> has_prefix s ''ssh-ed25519'')"

text \<open>
  \<open>bufio.Scanner\<close> with its default split function: lines without their line feed (and a
  carriage return before it), no empty last one. A line of \<open>MaxScanTokenSize\<close> bytes or more
  before its line feed ends the scan with an error.
\<close>

definition newline :: char where "newline = CHR 0x0A"

definition scan_pieces :: "string \<Rightarrow> string list" where
  "scan_pieces data =
     (let ps = split newline data in if last ps = [] then butlast ps else ps)"

definition ErrTooLong :: go_error where
  "ErrTooLong = Errorf ''bufio.Scanner: token too long'' []"

fun parse_lines :: "'k ssh_lib \<Rightarrow> string list \<Rightarrow> 'k list \<Rightarrow> go_error + 'k list" where
  "parse_lines lib [] keys = Inr keys"
| "parse_lines lib (l # ls) keys =
     (if 64 * 1024 \<le> length l then Inl ErrTooLong
      else let line = trim_space (trim_suffix l [CHR 0x0D])
           in if line = [] \<or> has_prefix line ''#'' then parse_lines lib ls keys
              else case sshParse lib line of
                Inl e \<Rightarrow> Inl e
              | Inr pub \<Rightarrow> parse_lines lib ls (keys @ [pub]))"

definition parseAuthorizedKeys :: "'k ssh_lib \<Rightarrow> string \<Rightarrow> go_error + 'k list" where
  "parseAuthorizedKeys lib data = parse_lines lib (scan_pieces data) []"

definition read_source :: "files \<Rightarrow> string \<Rightarrow> go_error + string" where
  "read_source f src = (if isLiteralKey src then Inr src else os_ReadFile src f)"

fun load_keys_loop :: "'k ssh_lib \<Rightarrow> files \<Rightarrow> string list \<Rightarrow> 'k list \<Rightarrow> go_error + 'k list" where
  "load_keys_loop lib f [] keys = Inr keys"
| "load_keys_loop lib f (src # srcs) keys =
     (case read_source f src of
        Inl e \<Rightarrow> Inl (Wrapf ''read authorized keys %q: %w'' [src] e)
      | Inr data \<Rightarrow>
          (case parseAuthorizedKeys lib data of
             Inl e \<Rightarrow> Inl (Wrapf ''parse authorized keys %q: %w'' [src] e)
           | Inr parsed \<Rightarrow> load_keys_loop lib f srcs (keys @ parsed)))"

definition LoadAuthorizedKeys :: "'k ssh_lib \<Rightarrow> files \<Rightarrow> string list \<Rightarrow> go_error + 'k list" where
  "LoadAuthorizedKeys lib f sources = load_keys_loop lib f sources []"

section \<open>Passwords\<close>

fun HasAnyPassword :: "userConfig list \<Rightarrow> bool" where
  "HasAnyPassword [] = False"
| "HasAnyPassword (u # us) = (if uPassword u \<noteq> [] then True else HasAnyPassword us)"

definition PasswordMatches :: "'k ssh_lib \<Rightarrow> userConfig \<Rightarrow> string \<Rightarrow> bool" where
  "PasswordMatches lib u pass =
     (if uPasswordHash u \<noteq> [] then bcryptCompare lib (uPasswordHash u) pass = None
      else uPassword u \<noteq> [] \<and> uPassword u = pass)"

text \<open>
  The two password commands. The standard input is a terminal (what \<open>term.ReadPassword\<close>
  gives) or the bytes of a pipe, of which \<open>ReadString\<close> gives the first line, with an error
  when it has no line feed. The commands give their error and the lines they print to the
  standard output.
\<close>

datatype stdin = Terminal string "go_error option" | Piped string

fun readPassword :: "stdin \<Rightarrow> string \<times> go_error option" where
  "readPassword (Terminal b err) = (b, err)"
| "readPassword (Piped s) =
     (if newline \<in> set s then (trim_space (takeWhile (\<lambda>c. c \<noteq> newline) s @ [newline]), None)
      else (trim_space s, Some EOF))"

definition empty_password :: go_error where
  "empty_password = Errorf ''password cannot be empty'' []"

definition RunHashPassword :: "'k ssh_lib \<Rightarrow> stdin \<Rightarrow> int \<Rightarrow> string \<Rightarrow> files
    \<Rightarrow> go_error option \<times> string list \<times> files" where
  "RunHashPassword lib input now outputPath f =
     (case readPassword input of
        (password, Some err) \<Rightarrow> (Some err, [], f)
      | (password, None) \<Rightarrow>
          if password = [] then (Some empty_password, [], f)
          else case bcryptGenerate lib password of
            Inl err \<Rightarrow> (Some err, [], f)
          | Inr hash \<Rightarrow>
              if outputPath = ''-'' then (None, [hash], f)
              else case os_WriteFile now outputPath hash f of
                (Inl err, f) \<Rightarrow> (Some err, [], f)
              | (Inr _, f) \<Rightarrow> (None, [], f))"

definition RunVerifyPassword :: "'k ssh_lib \<Rightarrow> stdin \<Rightarrow> string \<Rightarrow> go_error option \<times> string list" where
  "RunVerifyPassword lib input hash =
     (case readPassword input of
        (password, Some err) \<Rightarrow> (Some err, [])
      | (password, None) \<Rightarrow>
          if password = [] then (Some empty_password, [])
          else if bcryptCompare lib hash password \<noteq> None then (None, [''mismatch''])
          else (None, [''match'']))"

section \<open>Keys of sshid.io\<close>

text \<open>The answer to a request: an error, or the status and the body as it is read.\<close>

type_synonym http_get = "string \<Rightarrow> go_error + nat \<times> (go_error + string)"

definition sshidBaseURL :: string where "sshidBaseURL = ''https://sshid.io''"
definition sshidCacheTTL :: int where "sshidCacheTTL = 60 * minutes"

definition sshidAlgorithmPrefixes :: "(string, string list) gomap" where
  "sshidAlgorithmPrefixes =
     [(''ed25519'', [''ssh-ed25519'']), (''rsa'', [''ssh-rsa'']),
      (''ecdsa'', [''ecdsa-sha2-nistp256'', ''ecdsa-sha2-nistp384'', ''ecdsa-sha2-nistp521''])]"

definition cache_SubDir :: "string \<Rightarrow> string \<Rightarrow> string" where
  "cache_SubDir cacheDir feature = (if cacheDir = [] then [] else filepath_join cacheDir feature)"

record sshidResolver =
  srCacheDir :: string
  srTtl :: int

definition NewSSHIDResolver :: "string \<Rightarrow> sshidResolver" where
  "NewSSHIDResolver cacheDir =
     \<lparr>srCacheDir = cache_SubDir cacheDir ''sshid'', srTtl = sshidCacheTTL\<rparr>"

definition sshid_fetch :: "http_get \<Rightarrow> string \<Rightarrow> go_error + string" where
  "sshid_fetch http url =
     (case http url of
        Inl err \<Rightarrow> Inl err
      | Inr (status, body) \<Rightarrow>
          if status = 404 then Inr []
          else if status \<noteq> 200 then Inl (Errorf ''http %d'' [decimal status])
          else body)"

text \<open>The first of \<open>strings.Fields\<close>, \<open>None\<close> when there is none.\<close>

fun until_space :: "string \<Rightarrow> string" where
  "until_space [] = []"
| "until_space (c # s) =
     (if find (has_prefix (c # s)) space_codes \<noteq> None then [] else c # until_space s)"

definition first_field :: "string \<Rightarrow> string option" where
  "first_field line =
     (let s = trim_left_space line in if s = [] then None else Some (until_space s))"

definition sshidKeyMatchesAlgorithms :: "string \<Rightarrow> string list \<Rightarrow> bool" where
  "sshidKeyMatchesAlgorithms line algorithms =
     (case first_field line of
        None \<Rightarrow> False
      | Some keyType \<Rightarrow>
          list_ex (\<lambda>alg. case map_of sshidAlgorithmPrefixes (to_lower alg) of
              None \<Rightarrow> False
            | Some pfxs \<Rightarrow> list_ex (\<lambda>pfx. keyType = pfx) pfxs) algorithms)"

fun filter_lines :: "string list \<Rightarrow> string list \<Rightarrow> string list" where
  "filter_lines algorithms [] = []"
| "filter_lines algorithms (l # ls) =
     (let line = trim_space l
      in if line = [] \<or> has_prefix line ''#'' then filter_lines algorithms ls
         else if \<not> isLiteralKey line then filter_lines algorithms ls
         else if length algorithms > 0 \<and> \<not> sshidKeyMatchesAlgorithms line algorithms
              then filter_lines algorithms ls
         else line # filter_lines algorithms ls)"

definition filterKeys :: "string \<Rightarrow> string list \<Rightarrow> string list" where
  "filterKeys data algorithms = filter_lines algorithms (split newline data)"

definition readCache :: "sshidResolver \<Rightarrow> int \<Rightarrow> string \<Rightarrow> files \<Rightarrow> string option" where
  "readCache r now path f =
     (case os_Stat path f of
        Inl err \<Rightarrow> None
      | Inr modTime \<Rightarrow>
          if time_sub now modTime > srTtl r then None
          else case os_ReadFile path f of Inl err \<Rightarrow> None | Inr data \<Rightarrow> Some data)"

definition readCacheStale :: "string \<Rightarrow> files \<Rightarrow> string option" where
  "readCacheStale path f = (case os_ReadFile path f of Inl err \<Rightarrow> None | Inr data \<Rightarrow> Some data)"

text \<open>\<open>filepath.Dir\<close> of a path with a slash: what is before the last one, cleaned.\<close>

definition filepath_dir :: "string \<Rightarrow> string" where
  "filepath_dir p = path_clean (rev (dropWhile (\<lambda>c. c \<noteq> CHR ''/'') (rev p)))"

definition writeCache :: "int \<Rightarrow> string \<Rightarrow> string \<Rightarrow> (files, unit) act" where
  "writeCache now path data =
     thenE (os_MkdirAll (filepath_dir path)) (replace_file now path data)"

text \<open>
  How many bytes the next rune of a string takes, as \<open>range\<close> over it decodes UTF-8: one for
  a byte that starts no valid encoding.
\<close>

definition in_range :: "nat \<Rightarrow> nat \<Rightarrow> char \<Rightarrow> bool" where
  "in_range a b c \<longleftrightarrow> a \<le> of_char c \<and> of_char c \<le> b"

fun rune_len :: "string \<Rightarrow> nat" where
  "rune_len (a # b # s) =
     (if in_range 0xC2 0xDF a \<and> in_range 0x80 0xBF b then 2
      else case s of
        [] \<Rightarrow> 1
      | c # s \<Rightarrow>
          if in_range 0x80 0xBF c \<and>
               (a = CHR 0xE0 \<and> in_range 0xA0 0xBF b \<or> a = CHR 0xED \<and> in_range 0x80 0x9F b
                \<or> in_range 0xE1 0xEF a \<and> a \<noteq> CHR 0xED \<and> in_range 0x80 0xBF b) then 3
          else case s of
            [] \<Rightarrow> 1
          | d # s \<Rightarrow>
              if in_range 0x80 0xBF c \<and> in_range 0x80 0xBF d \<and>
                   (a = CHR 0xF0 \<and> in_range 0x90 0xBF b \<or> a = CHR 0xF4 \<and> in_range 0x80 0x8F b
                    \<or> in_range 0xF1 0xF3 a \<and> in_range 0x80 0xBF b) then 4
              else 1)"
| "rune_len s = 1"

definition safe_char :: "char \<Rightarrow> bool" where
  "safe_char r \<longleftrightarrow> in_range 97 122 r \<or> in_range 65 90 r \<or> in_range 48 57 r
     \<or> r = CHR ''-'' \<or> r = CHR ''_'' \<or> r = CHR ''.''"

function safeFileName :: "string \<Rightarrow> string" where
  "safeFileName [] = []"
| "safeFileName (r # s) =
     (if safe_char r then r # safeFileName s
      else CHR ''_'' # safeFileName (drop (rune_len (r # s) - 1) s))"
  by pat_completeness auto
termination
  by (relation "measure length") auto

definition cache_path :: "sshidResolver \<Rightarrow> string \<Rightarrow> string" where
  "cache_path r name = filepath_join (srCacheDir r) (''sshid-'' @ safeFileName name @ ''.keys'')"

definition sshid_Resolve :: "http_get \<Rightarrow> sshidResolver \<Rightarrow> int \<Rightarrow> sshidConfig option
    \<Rightarrow> (files, string list) act" where
  "sshid_Resolve http r now cfg f =
     (case cfg of None \<Rightarrow> (Inr [], f)
      | Some c \<Rightarrow>
        if sshUsername c = [] then (Inr [], f)
        else
          let cached = srCacheDir r \<noteq> []; path = cache_path r (sshUsername c) in
          case (if cached then readCache r now path f else None) of
            Some data \<Rightarrow> (Inr (filterKeys data (sshAlgorithms c)), f)
          | None \<Rightarrow>
              (case sshid_fetch http (sshidBaseURL @ ''/'' @ sshUsername c) of
                 Inl err \<Rightarrow>
                   (case (if cached then readCacheStale path f else None) of
                      Some old \<Rightarrow> (Inr (filterKeys old (sshAlgorithms c)), f)
                    | None \<Rightarrow> (Inl err, f))
               | Inr data \<Rightarrow>
                   (Inr (filterKeys data (sshAlgorithms c)),
                    if cached then snd (writeCache now path data f) else f)))"

text \<open>
  The loop over the users of a configuration; \<open>clock\<close> gives the instant at which the keys of
  the user with an index are resolved. On an error the code returns with the users before it
  changed in place; the caller drops the configuration, and so does the model.
\<close>

fun resolve_users :: "http_get \<Rightarrow> sshidResolver \<Rightarrow> (nat \<Rightarrow> int) \<Rightarrow> nat \<Rightarrow> userConfig list
    \<Rightarrow> (files, userConfig list) act" where
  "resolve_users http r clock i [] = retE []"
| "resolve_users http r clock i (u # us) = (\<lambda>f.
     if (case uSSHID u of None \<Rightarrow> True | Some c \<Rightarrow> sshUsername c = [])
     then bindE (resolve_users http r clock (i + 1) us) (\<lambda>us. retE (u # us)) f
     else case sshid_Resolve http r (clock i) (uSSHID u) f of
       (Inl err, f) \<Rightarrow> (Inl (Wrapf ''user %q sshid: %w'' [uUsername u] err), f)
     | (Inr keys, f) \<Rightarrow>
         bindE (resolve_users http r clock (i + 1) us)
           (\<lambda>us. retE (u\<lparr>uAuthorizedKeys := uAuthorizedKeys u @ keys\<rparr> # us)) f)"

definition ResolveSSHIDKeys :: "http_get \<Rightarrow> (nat \<Rightarrow> int) \<Rightarrow> config \<Rightarrow> (files, config) act" where
  "ResolveSSHIDKeys http clock cfg =
     bindE (resolve_users http (NewSSHIDResolver (sCacheDir (cServer cfg))) clock 0 (cUsers cfg))
       (\<lambda>us. retE (cfg\<lparr>cUsers := us\<rparr>))"

end
