(* ===== verification/SSHConfig.thy ===== *)
theory SSHConfig
  imports AuthGate AuthKeys Metrics
begin

text \<open>
  \<open>NewSSHServerConfig\<close> of \<open>internal/server/server.go\<close>: the configuration of the SSH server
  with its two authentication callbacks. A callback runs on the state it shares with the other
  connections, the tracker and the metrics (each nil when \<open>None\<close>), and is given the two
  instants at which it reads the clock: for the check of the block, and for what follows it.
\<close>

section \<open>The configuration\<close>

record 'k ssh_config =
  scKeyExchanges :: "string list"
  scCiphers :: "string list"
  scMACs :: "string list"
  scUsers :: "userConfig list"
  scUserKeys :: "(string, 'k list) gomap"
  scPasswordCallback :: bool
  scPublicKeyCallback :: bool

fun user_keys_loop :: "'k ssh_lib \<Rightarrow> files \<Rightarrow> userConfig list \<Rightarrow> (string, 'k list) gomap
    \<Rightarrow> go_error + (string, 'k list) gomap" where
  "user_keys_loop lib f [] m = Inr m"
| "user_keys_loop lib f (u # us) m =
     (if length (uAuthorizedKeys u) = 0 then user_keys_loop lib f us m
      else case LoadAuthorizedKeys lib f (uAuthorizedKeys u) of
        Inl err \<Rightarrow> Inl (Wrapf ''user %q: %w'' [uUsername u] err)
      | Inr keys \<Rightarrow>
          user_keys_loop lib f us (if length keys > 0 then gm_put (uUsername u) keys m else m))"

definition NewSSHServerConfig :: "'k ssh_lib \<Rightarrow> files \<Rightarrow> userConfig list
    \<Rightarrow> go_error + 'k ssh_config" where
  "NewSSHServerConfig lib f users =
     (case user_keys_loop lib f users [] of
        Inl err \<Rightarrow> Inl err
      | Inr userKeys \<Rightarrow>
          Inr \<lparr>scKeyExchanges =
                 [''curve25519-sha256'', ''curve25519-sha256@libssh.org'', ''ecdh-sha2-nistp521'',
                  ''ecdh-sha2-nistp384'', ''ecdh-sha2-nistp256'',
                  ''diffie-hellman-group-exchange-sha256''],
               scCiphers =
                 [''aes256-gcm@openssh.com'', ''aes128-gcm@openssh.com'', ''aes256-ctr'',
                  ''aes192-ctr'', ''aes128-ctr''],
               scMACs =
                 [''hmac-sha2-256-etm@openssh.com'', ''hmac-sha2-512-etm@openssh.com'',
                  ''hmac-sha2-256'', ''hmac-sha2-512''],
               scUsers = users, scUserKeys = userKeys,
               scPasswordCallback = HasAnyPassword users,
               scPublicKeyCallback = (userKeys \<noteq> [])\<rparr>)"

section \<open>The callbacks\<close>

record auth_state =
  auTracker :: "failureTracker option"
  auMetrics :: "metrics option"

text \<open>The connection as a callback sees it: its remote address and the name of its user.\<close>

record conn_metadata =
  cmRemote :: string
  cmUser :: string

text \<open>
  The start of both callbacks: a remote that is blocked is delayed and refused. It is first
  asked for, then delayed; together they give whether it is blocked, and the time slept.
\<close>

definition ask_blocked :: "string \<Rightarrow> int \<Rightarrow> auth_state \<Rightarrow> bool \<times> auth_state" where
  "ask_blocked remote n1 s =
     (case auTracker s of
        None \<Rightarrow> (False, s)
      | Some t \<Rightarrow> (case IsBlocked remote n1 t of (b, t) \<Rightarrow> (b, s\<lparr>auTracker := Some t\<rparr>)))"

definition delay_blocked :: "string \<Rightarrow> int \<Rightarrow> auth_state \<Rightarrow> int \<times> auth_state" where
  "delay_blocked remote n2 s =
     (case auTracker s of
        None \<Rightarrow> (0, s)
      | Some t \<Rightarrow> (case Tarpit remote n2 t of (d, t) \<Rightarrow> (d, s\<lparr>auTracker := Some t\<rparr>)))"

definition refuse_blocked :: "string \<Rightarrow> int \<Rightarrow> int \<Rightarrow> auth_state \<Rightarrow> (bool \<times> int) \<times> auth_state" where
  "refuse_blocked remote n1 n2 s =
     (case ask_blocked remote n1 s of
        (False, s) \<Rightarrow> ((False, 0), s)
      | (True, s) \<Rightarrow> (case delay_blocked remote n2 s of (d, s) \<Rightarrow> ((True, d), s)))"

lemma refuse_blocked_eq: "refuse_blocked remote n1 n2 s =
     (case auTracker s of
        None \<Rightarrow> ((False, 0), s)
      | Some t \<Rightarrow>
          (case IsBlocked remote n1 t of
             (False, t) \<Rightarrow> ((False, 0), s\<lparr>auTracker := Some t\<rparr>)
           | (True, t) \<Rightarrow>
               (case Tarpit remote n2 t of
                  (d, t) \<Rightarrow> ((True, d), s\<lparr>auTracker := Some t\<rparr>))))"
  by (simp add: refuse_blocked_def ask_blocked_def delay_blocked_def split: option.split prod.split bool.split)

text \<open>Their end, for credentials that are no good.\<close>

definition record_failure :: "string \<Rightarrow> int \<Rightarrow> auth_state \<Rightarrow> auth_state" where
  "record_failure remote n2 s =
     s\<lparr>auTracker := map_option (\<lambda>t. snd (Record remote n2 t)) (auTracker s),
       auMetrics := map_option IncAuthFailures (auMetrics s)\<rparr>"

fun password_loop :: "'k ssh_lib \<Rightarrow> userConfig list \<Rightarrow> string \<Rightarrow> string \<Rightarrow> bool" where
  "password_loop lib [] user pass = False"
| "password_loop lib (u # us) user pass =
     (if uUsername u \<noteq> user then password_loop lib us user pass
      else if PasswordMatches lib u pass then True
      else password_loop lib us user pass)"

text \<open>A callback gives its error, \<open>None\<close> when it accepts.\<close>

definition blocked_error :: go_error where "blocked_error = Errorf ''blocked'' []"

definition PasswordCallback :: "'k ssh_lib \<Rightarrow> 'k ssh_config \<Rightarrow> conn_metadata \<Rightarrow> int \<Rightarrow> int \<Rightarrow> string
    \<Rightarrow> auth_state \<Rightarrow> go_error option \<times> auth_state" where
  "PasswordCallback lib cfg c n1 n2 pass s =
     (case refuse_blocked (cmRemote c) n1 n2 s of
        ((True, d), s) \<Rightarrow> (Some blocked_error, s)
      | ((False, d), s) \<Rightarrow>
          if password_loop lib (scUsers cfg) (cmUser c) pass then (None, s)
          else (Some (Errorf ''invalid credentials'' []), record_failure (cmRemote c) n2 s))"

text \<open>A user without keys has the nil slice.\<close>

definition keys_of_user :: "'k ssh_config \<Rightarrow> string \<Rightarrow> 'k list" where
  "keys_of_user cfg user =
     (case map_of (scUserKeys cfg) user of None \<Rightarrow> [] | Some ks \<Rightarrow> ks)"

definition PublicKeyCallback :: "'k ssh_lib \<Rightarrow> 'k ssh_config \<Rightarrow> conn_metadata \<Rightarrow> int \<Rightarrow> int \<Rightarrow> 'k
    \<Rightarrow> auth_state \<Rightarrow> go_error option \<times> auth_state" where
  "PublicKeyCallback lib cfg c n1 n2 pubKey s =
     (case refuse_blocked (cmRemote c) n1 n2 s of
        ((True, d), s) \<Rightarrow> (Some blocked_error, s)
      | ((False, d), s) \<Rightarrow>
          if list_ex (\<lambda>authorized. KeysEqual lib authorized pubKey) (keys_of_user cfg (cmUser c))
          then (None, s)
          else (Some (Errorf ''public key not authorized'' []), record_failure (cmRemote c) n2 s))"

section \<open>Attempts\<close>

text \<open>
  An attempt of a client to authenticate. The SSH library calls a callback only when it is
  installed; without it the method is refused before the tracker sees the attempt.
\<close>

datatype 'k credential = Password string | PublicKey 'k

record 'k auth_attempt =
  atConn :: conn_metadata
  atCheck :: int
  atRest :: int
  atCredential :: "'k credential"

definition no_method :: go_error where "no_method = Errorf ''ssh: unsupported method'' []"

definition authenticate :: "'k ssh_lib \<Rightarrow> 'k ssh_config \<Rightarrow> 'k auth_attempt \<Rightarrow> auth_state
    \<Rightarrow> go_error option \<times> auth_state" where
  "authenticate lib cfg a s =
     (case atCredential a of
        Password p \<Rightarrow>
          if scPasswordCallback cfg then PasswordCallback lib cfg (atConn a) (atCheck a) (atRest a) p s
          else (Some no_method, s)
      | PublicKey k \<Rightarrow>
          if scPublicKeyCallback cfg then PublicKeyCallback lib cfg (atConn a) (atCheck a) (atRest a) k s
          else (Some no_method, s))"

text \<open>
  Connections authenticate at the same time, each with one callback at a time. The mutex of the
  tracker makes a question to it a step; between the check of a remote and the verdict on its
  attempt, which takes the time of a hash, the callbacks of other connections run. An event is
  the arrival of an attempt at a connection, or the rest of its callback. Attempts under way
  are kept with the answer of their check, verdicts are listed as they are given.
\<close>

datatype 'k auth_event = Arrive nat "'k auth_attempt" | Proceed nat

type_synonym 'k flights = "nat \<Rightarrow> ('k auth_attempt \<times> bool) option"

type_synonym 'k verdict = "'k auth_attempt \<times> go_error option"

definition has_callback :: "'k ssh_config \<Rightarrow> 'k credential \<Rightarrow> bool" where
  "has_callback cfg cr =
     (case cr of Password p \<Rightarrow> scPasswordCallback cfg | PublicKey k \<Rightarrow> scPublicKeyCallback cfg)"

definition look_at :: "'k ssh_lib \<Rightarrow> 'k ssh_config \<Rightarrow> string \<Rightarrow> 'k credential \<Rightarrow> go_error option" where
  "look_at lib cfg user cr =
     (case cr of
        Password p \<Rightarrow> if password_loop lib (scUsers cfg) user p then None
          else Some (Errorf ''invalid credentials'' [])
      | PublicKey k \<Rightarrow> if list_ex (\<lambda>authorized. KeysEqual lib authorized k) (keys_of_user cfg user) then None
          else Some (Errorf ''public key not authorized'' []))"

fun auth_event_step :: "'k ssh_lib \<Rightarrow> 'k ssh_config \<Rightarrow> 'k auth_event \<Rightarrow> auth_state \<times> 'k flights
    \<Rightarrow> 'k verdict list \<times> auth_state \<times> 'k flights" where
  "auth_event_step lib cfg (Arrive c a) (s, fl) =
     (case fl c of
        Some x \<Rightarrow> ([], s, fl)
      | None \<Rightarrow>
          if \<not> has_callback cfg (atCredential a) then ([(a, Some no_method)], s, fl)
          else (case ask_blocked (cmRemote (atConn a)) (atCheck a) s of (b, s) \<Rightarrow> ([], s, fl(c \<mapsto> (a, b)))))"
| "auth_event_step lib cfg (Proceed c) (s, fl) =
     (case fl c of
        None \<Rightarrow> ([], s, fl)
      | Some (a, b) \<Rightarrow>
          if b then (case delay_blocked (cmRemote (atConn a)) (atRest a) s of
            (d, s) \<Rightarrow> ([(a, Some blocked_error)], s, fl(c := None)))
          else (case look_at lib cfg (cmUser (atConn a)) (atCredential a) of
            None \<Rightarrow> ([(a, None)], s, fl(c := None))
          | Some e \<Rightarrow> ([(a, Some e)], record_failure (cmRemote (atConn a)) (atRest a) s, fl(c := None))))"

fun auth_events :: "'k ssh_lib \<Rightarrow> 'k ssh_config \<Rightarrow> 'k auth_event list \<Rightarrow> auth_state \<times> 'k flights
    \<Rightarrow> 'k verdict list \<times> auth_state \<times> 'k flights" where
  "auth_events lib cfg [] st = ([], st)"
| "auth_events lib cfg (e # es) st =
     (case auth_event_step lib cfg e st of (vs, st) \<Rightarrow>
      case auth_events lib cfg es st of (ws, st) \<Rightarrow> (vs @ ws, st))"

text \<open>An attempt whose two events follow each other is a call of its callback.\<close>

lemma auth_events_one:
  assumes "fl c = None" and "authenticate lib cfg a s = (r, s')"
  shows "auth_events lib cfg [Arrive c a, Proceed c] (s, fl) = ([(a, r)], s', fl)"
proof -
  have "fl(c := None) = fl" using assms(1) by auto
  with assms show ?thesis
    by (cases "atCredential a")
      (auto simp: authenticate_def has_callback_def look_at_def PasswordCallback_def
        PublicKeyCallback_def refuse_blocked_def split: prod.splits bool.splits if_splits)
qed

section \<open>What the callbacks decide\<close>

lemma HasAnyPassword_iff: "HasAnyPassword us \<longleftrightarrow> (\<exists>u\<in>set us. uPassword u \<noteq> [])"
  by (induction us) auto

lemma password_loop_iff:
  "password_loop lib us user pass \<longleftrightarrow>
     (\<exists>u\<in>set us. uUsername u = user \<and> PasswordMatches lib u pass)"
  by (induction us) auto

text \<open>The credentials alone: the method is offered, and they are those of the user.\<close>

definition offered :: "'k ssh_config \<Rightarrow> 'k auth_attempt \<Rightarrow> bool" where
  "offered cfg a \<longleftrightarrow> has_callback cfg (atCredential a)"

definition good :: "'k ssh_lib \<Rightarrow> 'k ssh_config \<Rightarrow> 'k auth_attempt \<Rightarrow> bool" where
  "good lib cfg a \<longleftrightarrow>
     (case atCredential a of
        Password p \<Rightarrow> \<exists>u\<in>set (scUsers cfg). uUsername u = cmUser (atConn a) \<and> PasswordMatches lib u p
      | PublicKey k \<Rightarrow> \<exists>k'\<in>set (keys_of_user cfg (cmUser (atConn a))). sshMarshal lib k' = sshMarshal lib k)"

definition refusal :: "'k auth_attempt \<Rightarrow> go_error" where
  "refusal a = (case atCredential a of
     Password p \<Rightarrow> Errorf ''invalid credentials'' []
   | PublicKey k \<Rightarrow> Errorf ''public key not authorized'' [])"

lemma refusal_not_blocked: "refusal a \<noteq> blocked_error" "refusal a \<noteq> no_method"
  by (auto simp: refusal_def blocked_error_def no_method_def split: credential.split)

lemma authenticate_eq:
  "offered cfg a \<Longrightarrow> authenticate lib cfg a s =
     (case refuse_blocked (cmRemote (atConn a)) (atCheck a) (atRest a) s of
        ((True, d), s) \<Rightarrow> (Some blocked_error, s)
      | ((False, d), s) \<Rightarrow>
          if good lib cfg a then (None, s)
          else (Some (refusal a), record_failure (cmRemote (atConn a)) (atRest a) s))"
  by (cases "atCredential a")
    (auto simp: authenticate_def offered_def has_callback_def good_def refusal_def PasswordCallback_def
      PublicKeyCallback_def password_loop_iff KeysEqual_def list_ex_iff
      split: prod.splits bool.splits)

lemma authenticate_not_offered: "\<not> offered cfg a \<Longrightarrow> authenticate lib cfg a s = (Some no_method, s)"
  by (cases "atCredential a") (simp_all add: authenticate_def offered_def has_callback_def)

lemma look_at_eq: "look_at lib cfg (cmUser (atConn a)) (atCredential a) =
    (if good lib cfg a then None else Some (refusal a))"
  by (cases "atCredential a")
    (auto simp: look_at_def good_def refusal_def password_loop_iff KeysEqual_def list_ex_iff)

text \<open>With a tracker, the events are events of its gate.\<close>

definition gate_of :: "'k ssh_lib \<Rightarrow> 'k ssh_config \<Rightarrow> 'k auth_attempt \<Rightarrow> gate_attempt" where
  "gate_of lib cfg a = (cmRemote (atConn a), atCheck a, atRest a, good lib cfg a)"

definition outcome_of :: "go_error option \<Rightarrow> outcome" where
  "outcome_of r = (case r of None \<Rightarrow> Accepted | Some e \<Rightarrow> if e = blocked_error then Refused else Rejected)"

fun gate_event_of :: "'k ssh_lib \<Rightarrow> 'k ssh_config \<Rightarrow> 'k auth_event \<Rightarrow> gate_event list" where
  "gate_event_of lib cfg (Arrive c a) = (if offered cfg a then [Check c (gate_of lib cfg a)] else [])"
| "gate_event_of lib cfg (Proceed c) = [Rest c]"

definition gate_flights_of :: "'k ssh_lib \<Rightarrow> 'k ssh_config \<Rightarrow> 'k flights \<Rightarrow> gate_flights" where
  "gate_flights_of lib cfg fl c = map_option (map_prod (gate_of lib cfg) id) (fl c)"

lemma gate_flights_upd [simp]:
  "gate_flights_of lib cfg (fl(c := x)) = (gate_flights_of lib cfg fl)(c := map_option (map_prod (gate_of lib cfg) id) x)"
  by (auto simp: gate_flights_of_def)

text \<open>The verdicts the gate sees: all but those of a method that is not offered.\<close>

definition gate_verdicts :: "'k verdict list \<Rightarrow> (string \<times> outcome) list" where
  "gate_verdicts vs =
     map (\<lambda>(a, r). (cmRemote (atConn a), outcome_of r)) (filter (\<lambda>(a, r). r \<noteq> Some no_method) vs)"

lemma gate_verdicts_append [simp]: "gate_verdicts (vs @ ws) = gate_verdicts vs @ gate_verdicts ws"
  by (simp add: gate_verdicts_def)

lemma auth_event_gate:
  assumes "auTracker s = Some t" and "auth_event_step lib cfg e (s, fl) = (vs, s', fl')"
  shows "\<exists>t'. auTracker s' = Some t' \<and>
    (\<forall>es. gate_events (gate_event_step IsBlocked Tarpit Record) (gate_event_of lib cfg e @ es) (t, gate_flights_of lib cfg fl)
      = gate_verdicts vs @ gate_events (gate_event_step IsBlocked Tarpit Record) es (t', gate_flights_of lib cfg fl'))"
proof (cases e)
  case (Arrive c a)
  show ?thesis
  proof (cases "fl c")
    case None
    then have "gate_flights_of lib cfg fl c = None" by (simp add: gate_flights_of_def)
    with assms None show ?thesis
      by (auto simp: Arrive offered_def ask_blocked_def gate_verdicts_def gate_of_def split: prod.splits if_splits)
  next
    case (Some x)
    then have "gate_flights_of lib cfg fl c \<noteq> None" by (simp add: gate_flights_of_def)
    with assms Some show ?thesis by (auto simp: Arrive gate_verdicts_def)
  qed
next
  case (Proceed c)
  show ?thesis
  proof (cases "fl c")
    case None
    then have "gate_flights_of lib cfg fl c = None" by (simp add: gate_flights_of_def)
    with assms None show ?thesis by (auto simp: Proceed gate_verdicts_def)
  next
    case (Some x)
    obtain a b where x: "x = (a, b)" by (cases x)
    have "gate_flights_of lib cfg fl c = Some (gate_of lib cfg a, b)" using Some by (simp add: x gate_flights_of_def)
    with assms Some refusal_not_blocked [of a] show ?thesis
      by (auto simp: Proceed x gate_of_def gate_verdicts_def outcome_of_def delay_blocked_def look_at_eq
          record_failure_def no_method_def blocked_error_def split: prod.splits if_splits)
  qed
qed

lemma auth_events_gate:
  "auTracker s = Some t \<Longrightarrow> auth_events lib cfg es (s, fl) = (vs, st) \<Longrightarrow>
     gate_events (gate_event_step IsBlocked Tarpit Record) (concat (map (gate_event_of lib cfg) es))
       (t, gate_flights_of lib cfg fl) = gate_verdicts vs"
proof (induction es arbitrary: s t fl vs st)
  case (Cons e es)
  obtain us s' fl' where step: "auth_event_step lib cfg e (s, fl) = (us, s', fl')" by (metis prod_cases3)
  obtain ws st' where rest: "auth_events lib cfg es (s', fl') = (ws, st')" by (metis prod.exhaust)
  from auth_event_gate [OF Cons.prems(1) step] obtain t' where t': "auTracker s' = Some t'"
    and g: "\<And>es. gate_events (gate_event_step IsBlocked Tarpit Record) (gate_event_of lib cfg e @ es) (t, gate_flights_of lib cfg fl)
      = gate_verdicts us @ gate_events (gate_event_step IsBlocked Tarpit Record) es (t', gate_flights_of lib cfg fl')"
    by blast
  from Cons.IH [OF t' rest] Cons.prems(2) show ?case by (auto simp: g step rest)
qed (simp add: gate_verdicts_def)

end
