(* ===== verification/AuthProps.thy ===== *)
theory AuthProps
  imports SSHConfig
begin

text \<open>The properties of authentication: who gets in, who is blocked, and the state file.\<close>

section \<open>Who gets in\<close>

text \<open>The keys that the sources of a user hold.\<close>

definition loaded_keys :: "'k ssh_lib \<Rightarrow> files \<Rightarrow> userConfig list \<Rightarrow> string \<Rightarrow> 'k set" where
  "loaded_keys lib f us n =
     (\<Union>u\<in>{u \<in> set us. uUsername u = n}.
        case LoadAuthorizedKeys lib f (uAuthorizedKeys u) of Inl e \<Rightarrow> {} | Inr ks \<Rightarrow> set ks)"

lemma loaded_keys_Nil [simp]: "loaded_keys lib f [] n = {}"
  by (simp add: loaded_keys_def)

lemma loaded_keys_Cons: "loaded_keys lib f (u # us) n =
    (if uUsername u = n
     then (case LoadAuthorizedKeys lib f (uAuthorizedKeys u) of Inl e \<Rightarrow> {} | Inr ks \<Rightarrow> set ks)
     else {}) \<union> loaded_keys lib f us n"
  by (auto simp: loaded_keys_def)

lemma loaded_keys_other: "n \<notin> uUsername ` set us \<Longrightarrow> loaded_keys lib f us n = {}"
  by (auto simp: loaded_keys_def)

definition key_set :: "(string, 'k list) gomap \<Rightarrow> string \<Rightarrow> 'k set" where
  "key_set m n = (case map_of m n of None \<Rightarrow> {} | Some ks \<Rightarrow> set ks)"

lemma user_keys_loop_set:
  "user_keys_loop lib f us m = Inr m' \<Longrightarrow> distinct (map uUsername us) \<Longrightarrow>
     (\<And>u. u \<in> set us \<Longrightarrow> map_of m (uUsername u) = None) \<Longrightarrow>
     key_set m' n = key_set m n \<union> loaded_keys lib f us n"
proof (induction us arbitrary: m)
  case (Cons u us)
  show ?case
  proof (cases "uAuthorizedKeys u = []")
    case True
    then have "LoadAuthorizedKeys lib f (uAuthorizedKeys u) = Inr []"
      by (simp add: LoadAuthorizedKeys_def)
    with True Cons show ?thesis by (auto simp: loaded_keys_Cons)
  next
    case False
    with Cons.prems(1) obtain ks where ks: "LoadAuthorizedKeys lib f (uAuthorizedKeys u) = Inr ks"
      by (auto split: sum.splits)
    let ?m = "if length ks > 0 then gm_put (uUsername u) ks m else m"
    have run: "user_keys_loop lib f us ?m = Inr m'"
      using Cons.prems(1) False ks by simp
    have new: "map_of ?m (uUsername v) = None" if "v \<in> set us" for v
      using Cons.prems(2,3) that by (auto simp: image_iff)
    have "key_set m' n = key_set ?m n \<union> loaded_keys lib f us n"
      using Cons.IH [OF run _ new] Cons.prems(2) by simp
    moreover have "key_set ?m n = key_set m n \<union> (if uUsername u = n then set ks else {})"
      using Cons.prems(3) [of u] by (auto simp: key_set_def)
    ultimately show ?thesis by (auto simp: loaded_keys_Cons ks)
  qed
qed simp

lemma NewSSHServerConfig_sel:
  assumes "NewSSHServerConfig lib f users = Inr cfg" and "distinct (map uUsername users)"
  shows "scUsers cfg = users" and "scPasswordCallback cfg \<longleftrightarrow> (\<exists>u\<in>set users. uPassword u \<noteq> [])"
    and "set (keys_of_user cfg n) = loaded_keys lib f users n"
proof -
  obtain m where m: "user_keys_loop lib f users [] = Inr m" and cfg: "scUserKeys cfg = m"
      "scUsers cfg = users" "scPasswordCallback cfg = HasAnyPassword users"
    using assms(1) by (auto simp: NewSSHServerConfig_def split: sum.splits)
  show "scUsers cfg = users" by (rule cfg)
  show "scPasswordCallback cfg \<longleftrightarrow> (\<exists>u\<in>set users. uPassword u \<noteq> [])"
    by (simp add: cfg(3) HasAnyPassword_iff)
  have "key_set m n = loaded_keys lib f users n"
    using user_keys_loop_set [OF m assms(2)] by (simp add: key_set_def)
  then show "set (keys_of_user cfg n) = loaded_keys lib f users n"
    by (simp add: key_set_def keys_of_user_def cfg(1) split: option.splits)
qed

text \<open>What the configuration says about an attempt.\<close>

definition entitled :: "'k ssh_lib \<Rightarrow> files \<Rightarrow> userConfig list \<Rightarrow> 'k auth_attempt \<Rightarrow> bool" where
  "entitled lib f users a \<longleftrightarrow>
     (case atCredential a of
        Password p \<Rightarrow> (\<exists>u\<in>set users. uPassword u \<noteq> []) \<and>
          (\<exists>u\<in>set users. uUsername u = cmUser (atConn a) \<and> PasswordMatches lib u p)
      | PublicKey k \<Rightarrow> \<exists>k'\<in>loaded_keys lib f users (cmUser (atConn a)). sshMarshal lib k' = sshMarshal lib k)"

lemma offered_good:
  assumes "NewSSHServerConfig lib f users = Inr cfg" and "distinct (map uUsername users)"
  shows "offered cfg a \<and> good lib cfg a \<longleftrightarrow> entitled lib f users a"
proof (cases "atCredential a")
  case (Password p)
  then show ?thesis
    by (simp add: offered_def has_callback_def good_def entitled_def NewSSHServerConfig_sel [OF assms])
next
  case (PublicKey k)
  have "scPublicKeyCallback cfg \<longleftrightarrow> scUserKeys cfg \<noteq> []"
    using assms(1) by (auto simp: NewSSHServerConfig_def split: sum.splits)
  then have "k' \<in> set (keys_of_user cfg n) \<Longrightarrow> scPublicKeyCallback cfg" for k' n
    by (auto simp: keys_of_user_def)
  with PublicKey show ?thesis
    by (auto simp: offered_def has_callback_def good_def entitled_def
        simp flip: NewSSHServerConfig_sel(3) [OF assms])
qed

text \<open>
  C3: Who gets in. A client is accepted exactly when its remote is not blocked and the
  configuration entitles it: by a password that matches the one of a user of that name, as long
  as some user has a plain password, or by a key that the sources of the user hold. An attempt
  that is looked at and rejected counts one authentication failure and one attempt of its
  remote, an attempt that is accepted counts none, and no attempt touches what is kept of
  another remote.
\<close>

theorem auth_decides:
  assumes "NewSSHServerConfig lib f users = Inr cfg" and "distinct (map uUsername users)"
    and "auTracker s = Some t" and "auMetrics s = Some m" and "offered cfg a"
    and "remote = cmRemote (atConn a)"
    and "authenticate lib cfg a s = (r, s')"
  shows "(r = None \<longleftrightarrow> live_block (atCheck a) t remote = None \<and> entitled lib f users a)
    \<and> (\<exists>t'. auTracker s' = Some t'
        \<and> attempts_of t' remote = (if outcome_of r \<noteq> Rejected then attempts_of t remote
            else if ftMaxAttempts t \<le> int (length (live_attempts (atRest a) t remote)) + 1 then []
            else live_attempts (atRest a) t remote @ [atRest a])
        \<and> (\<forall>q. q \<noteq> remote \<longrightarrow> attempts_of t' q = attempts_of t q \<and> blocked_at t' q = blocked_at t q))
    \<and> auMetrics s' = Some (if outcome_of r = Rejected then IncAuthFailures m else m)"
proof -
  let ?c = "snd (IsBlocked remote (atCheck a) t)"
  have ent: "good lib cfg a \<longleftrightarrow> entitled lib f users a"
    using offered_good [OF assms(1,2), of a] assms(5) by simp
  have blk: "fst (IsBlocked remote (atCheck a) t) \<longleftrightarrow> live_block (atCheck a) t remote \<noteq> None"
    by (rule IsBlocked_sel)
  have c: "attempts_of ?c = attempts_of t" "\<And>q. q \<noteq> remote \<Longrightarrow> blocked_at ?c q = blocked_at t q"
      "ftMaxAttempts ?c = ftMaxAttempts t" "ftWindow ?c = ftWindow t"
    using params_sel [OF IsBlocked_sel(4) [of remote "atCheck a" t]] by (simp_all add: IsBlocked_sel)
  have live: "live_attempts n ?c q = live_attempts n t q" for n q
    by (simp add: live_attempts_def c)
  show ?thesis
  proof (cases "live_block (atCheck a) t remote = None")
    case False
    then have ref: "fst (IsBlocked remote (atCheck a) t)" by (simp add: blk)
    let ?d = "snd (Tarpit remote (atRest a) ?c)"
    have r: "r = Some blocked_error" "s' = s\<lparr>auTracker := Some ?d\<rparr>"
      using assms(3,5-7) ref
      by (auto simp: authenticate_eq refuse_blocked_eq split: prod.splits bool.splits)
    have "attempts_of ?d = attempts_of t" "\<And>q. q \<noteq> remote \<Longrightarrow> blocked_at ?d q = blocked_at t q"
      using Tarpit_sel [of remote "atRest a" ?c] c IsBlocked_sel(2,3) by (auto split: if_splits)
    with False r assms(4) show ?thesis by (simp add: outcome_of_def)
  next
    case free: True
    then have nref: "\<not> fst (IsBlocked remote (atCheck a) t)" by (simp add: blk)
    show ?thesis
    proof (cases "good lib cfg a")
      case True
      then have r: "r = None" "s' = s\<lparr>auTracker := Some ?c\<rparr>"
        using assms(3,5-7) nref
        by (auto simp: authenticate_eq refuse_blocked_eq split: prod.splits bool.splits)
      with True free ent assms(4) c show ?thesis by (simp add: outcome_of_def)
    next
      case False
      let ?d = "snd (Record remote (atRest a) ?c)"
      have r: "r = Some (refusal a)" "s' = s\<lparr>auTracker := Some ?d, auMetrics := Some (IncAuthFailures m)\<rparr>"
        using assms(3-7) nref False
        by (auto simp: authenticate_eq refuse_blocked_eq record_failure_def split: prod.splits bool.splits)
      have out: "outcome_of (Some (refusal a)) = Rejected"
        using refusal_not_blocked [of a] by (simp add: outcome_of_def)
      show ?thesis
        using False ent by (simp add: out r Record_sel live c)
    qed
  qed
qed

text \<open>
  A library for the witnesses, with keys as their lines and a hash that is the password's
  reverse, and the attempts of one remote on the account of one user.
\<close>

definition plain_lib :: "string ssh_lib" where
  "plain_lib = \<lparr>sshParse = Inr, sshMarshal = id,
     bcryptCompare = (\<lambda>h p. if h = rev p then None else Some (Errorf ''mismatch'' [])),
     bcryptGenerate = (\<lambda>p. Inr (rev p))\<rparr>"

definition no_files :: files where
  "no_files = \<lparr>fsFiles = [], fsReadFault = (\<lambda>_. None), fsWriteFault = (\<lambda>_. None),
     fsRenameFault = (\<lambda>_. None), fsMkdirFault = (\<lambda>_. None)\<rparr>"

definition sample_user :: "string \<Rightarrow> string \<Rightarrow> userConfig" where
  "sample_user name pw = \<lparr>uUsername = name, uPassword = pw, uPasswordHash = [], uBackends = [],
     uAuthorizedKeys = [], uPrefix = [], uBackendPrefixes = [], uPermissions = [], uSSHID = None,
     uMaxConnections = 0, uRateLimitBytesPerSec = 0, uMaxFileSize = 0, uMaxReadSize = 0\<rparr>"

definition sample_users :: "userConfig list" where
  "sample_users = [sample_user ''alice'' ''secret'']"

definition sample_ssh :: "string ssh_config" where
  "sample_ssh = projr (NewSSHServerConfig plain_lib no_files sample_users)"

definition sample_tracker :: failureTracker where
  "sample_tracker = \<lparr>ftAttempts = [], ftBlocked = [], ftMaxAttempts = 2, ftWindow = 100,
     ftBlockDuration = 100, ftTarpitDelay = 0, ftStateFile = ''state'', ftSaveInterval = 60\<rparr>"

definition sample_auth :: auth_state where
  "sample_auth = \<lparr>auTracker = Some sample_tracker, auMetrics = Some NewMetrics\<rparr>"

definition try_password :: "string \<Rightarrow> int \<Rightarrow> string auth_attempt" where
  "try_password p now = \<lparr>atConn = \<lparr>cmRemote = ''10.0.0.1:99'', cmUser = ''alice''\<rparr>,
     atCheck = now, atRest = now, atCredential = Password p\<rparr>"

lemma sample_ssh_eq: "NewSSHServerConfig plain_lib no_files sample_users = Inr sample_ssh"
proof -
  have "\<not> isl (NewSSHServerConfig plain_lib no_files sample_users)" by code_simp
  then show ?thesis by (cases "NewSSHServerConfig plain_lib no_files sample_users") (simp_all add: sample_ssh_def)
qed

theorem auth_decides_witness:
  "fst (authenticate plain_lib sample_ssh (try_password ''secret'' 5) sample_auth) = None
   \<and> live_block 5 sample_tracker ''10.0.0.1:99'' = None
   \<and> entitled plain_lib no_files sample_users (try_password ''secret'' 5)"
proof -
  let ?a = "try_password ''secret'' 5"
  obtain r s where run: "authenticate plain_lib sample_ssh ?a sample_auth = (r, s)" by fastforce
  have d: "distinct (map uUsername sample_users)" by code_simp
  have t: "auTracker sample_auth = Some sample_tracker" "auMetrics sample_auth = Some NewMetrics"
    by (simp_all add: sample_auth_def)
  have o: "offered sample_ssh ?a" by code_simp
  have rem: "''10.0.0.1:99'' = cmRemote (atConn ?a)" by (simp add: try_password_def)
  have "fst (authenticate plain_lib sample_ssh ?a sample_auth) = None" by code_simp
  with auth_decides [OF sample_ssh_eq d t o rem run] run show ?thesis
    by (simp add: try_password_def)
qed

section \<open>Guessing\<close>

text \<open>The attempts from a remote whose credentials were looked at and rejected.\<close>

definition rejected_from :: "string \<Rightarrow> 'k verdict list \<Rightarrow> nat" where
  "rejected_from remote vs =
     length (filter (\<lambda>(a, r). cmRemote (atConn a) = remote \<and> r = Some (refusal a)) vs)"

lemma rejected_guesses: "rejected_from remote vs \<le> guesses remote (gate_verdicts vs)"
  by (induction vs)
    (auto simp: rejected_from_def gate_verdicts_def outcome_of_def refusal_not_blocked)

text \<open>
  C4: The bound on guessing. In any span of time no longer than the window and the block
  duration, whatever the tracker held before, whatever attempts there are by password or by
  key and however those of all connections overlap: of a remote with \<open>k\<close> connections at most
  \<open>max_attempts + k - 1\<close> attempts have their credentials looked at and rejected. The address of
  a remote has its port, so that it is the address of one connection at a time: with one, the
  bound is \<open>max_attempts\<close>.
\<close>

theorem brute_force_bound:
  assumes "auTracker s = Some t" and "1 \<le> ftMaxAttempts t"
    and "stop - start \<le> ftWindow t" and "stop - start \<le> ftBlockDuration t" and "finite C"
    and "\<And>c a. Arrive c a \<in> set es \<Longrightarrow> start \<le> atCheck a \<and> atCheck a < stop \<and> start \<le> atRest a
      \<and> atRest a < stop \<and> (cmRemote (atConn a) = remote \<longrightarrow> c \<in> C)"
  shows "int (rejected_from remote (fst (auth_events lib cfg es (s, \<lambda>_. None))))
    \<le> ftMaxAttempts t + int (card C) - 1"
proof -
  let ?gs = "concat (map (gate_event_of lib cfg) es)"
  obtain vs st where run: "auth_events lib cfg es (s, \<lambda>_. None) = (vs, st)" by (metis prod.exhaust)
  have lim: "tracker_limits t = (ftMaxAttempts t, ftWindow t, ftBlockDuration t)"
    by (simp add: tracker_limits_def)
  have "attempt_ok start stop remote C c x" if gs: "Check c x \<in> set ?gs" for c x
  proof -
    from gs obtain e where e: "e \<in> set es" "Check c x \<in> set (gate_event_of lib cfg e)" by auto
    then obtain a where "Arrive c a \<in> set es" "x = gate_of lib cfg a"
      by (cases e rule: auth_event.exhaust) (auto split: if_splits)
    with assms(6) show ?thesis by (simp add: gate_of_def attempt_ok_def)
  qed
  from tracker.guess_bound [OF lim assms(3,4,2,5) this]
  have "int (guesses remote (gate_events (gate_event_step IsBlocked Tarpit Record) ?gs (t, \<lambda>_. None)))
      \<le> ftMaxAttempts t + int (card C) - 1" .
  moreover have "gate_flights_of lib cfg (\<lambda>_. None) = (\<lambda>_. None)" by (simp add: gate_flights_of_def fun_eq_iff)
  ultimately show ?thesis
    using auth_events_gate [OF assms(1) run] rejected_guesses [of remote vs] run by simp
qed

text \<open>Two connections of one remote overlap and get one guess more.\<close>

definition sample_overlap :: "string auth_event list" where
  "sample_overlap = [Arrive 0 (try_password ''a'' 1), Proceed 0, Arrive 0 (try_password ''b'' 2),
     Arrive 1 (try_password ''c'' 3), Proceed 0, Proceed 1, Arrive 0 (try_password ''d'' 4), Proceed 0]"

theorem brute_force_bound_witness:
  "int (rejected_from ''10.0.0.1:99'' (fst (auth_events plain_lib sample_ssh sample_overlap (sample_auth, \<lambda>_. None)))) \<le> 3
   \<and> map (\<lambda>(a, r). outcome_of r) (fst (auth_events plain_lib sample_ssh sample_overlap (sample_auth, \<lambda>_. None)))
     = [Rejected, Rejected, Rejected, Refused]"
proof -
  have t: "auTracker sample_auth = Some sample_tracker" by (simp add: sample_auth_def)
  have lims: "1 \<le> ftMaxAttempts sample_tracker" "100 - 0 \<le> ftWindow sample_tracker"
    "100 - 0 \<le> ftBlockDuration sample_tracker" by (simp_all add: sample_tracker_def)
  have fin: "finite {0::nat, 1}" by simp
  have span: "0 \<le> atCheck a \<and> atCheck a < 100 \<and> 0 \<le> atRest a \<and> atRest a < 100
      \<and> (cmRemote (atConn a) = ''10.0.0.1:99'' \<longrightarrow> c \<in> {0, 1})" if "Arrive c a \<in> set sample_overlap" for c a
    using that by (auto simp: sample_overlap_def try_password_def)
  have "int (rejected_from ''10.0.0.1:99'' (fst (auth_events plain_lib sample_ssh sample_overlap (sample_auth, \<lambda>_. None))))
      \<le> ftMaxAttempts sample_tracker + int (card {0::nat, 1}) - 1"
    by (rule brute_force_bound [OF t lims fin span])
  moreover have "map (\<lambda>(a, r). outcome_of r) (fst (auth_events plain_lib sample_ssh sample_overlap (sample_auth, \<lambda>_. None)))
     = [Rejected, Rejected, Rejected, Refused]" by code_simp
  ultimately show ?thesis by (simp add: sample_tracker_def)
qed

section \<open>Users with a password hash only\<close>

text \<open>
  C33: A password hash alone lets nobody in: when no user has a plain password the server
  installs no password callback, and every attempt with a password is refused, whatever hash
  it matches.
\<close>

theorem hash_only_locked_out:
  assumes "NewSSHServerConfig lib f users = Inr cfg" and "\<forall>u\<in>set users. uPassword u = []"
    and "atCredential a = Password p"
  shows "authenticate lib cfg a s = (Some no_method, s)"
proof -
  have "scPasswordCallback cfg = HasAnyPassword users"
    using assms(1) by (auto simp: NewSSHServerConfig_def split: sum.splits)
  with assms(2,3) have "\<not> offered cfg a"
    by (simp add: offered_def has_callback_def HasAnyPassword_iff)
  then show ?thesis by (rule authenticate_not_offered)
qed

definition hash_user :: userConfig where
  "hash_user = (sample_user ''alice'' [])\<lparr>uPasswordHash := ''terces''\<rparr>"

theorem hash_only_locked_out_witness:
  "authenticate plain_lib (projr (NewSSHServerConfig plain_lib no_files [hash_user]))
      (try_password ''secret'' 5) sample_auth = (Some no_method, sample_auth)
   \<and> PasswordMatches plain_lib hash_user ''secret''"
proof -
  have cfg: "NewSSHServerConfig plain_lib no_files [hash_user]
      = Inr (projr (NewSSHServerConfig plain_lib no_files [hash_user]))"
    by (simp add: NewSSHServerConfig_def hash_user_def sample_user_def)
  have p: "\<forall>u\<in>set [hash_user]. uPassword u = []" by (simp add: hash_user_def sample_user_def)
  have a: "atCredential (try_password ''secret'' 5) = Password ''secret''" by (simp add: try_password_def)
  have "PasswordMatches plain_lib hash_user ''secret''" by code_simp
  with hash_only_locked_out [OF cfg p a] show ?thesis by simp
qed

end
