(* ===== verification/TrackerProps.thy ===== *)
theory TrackerProps
  imports AuthProps
begin

text \<open>
  The property of the tracker's state file, and for its witness a codec of states: numbers in
  unary with a stop, strings and lists with their lengths in front.
\<close>

section \<open>A restart changes nothing\<close>

lemma tracker_step_params: "tracker_params (fst (snd (tracker_step json e (t, f)))) = tracker_params t"
proof (cases e)
  case (AskBlocked r now)
  then show ?thesis by (simp add: case_prod_beta IsBlocked_sel)
next
  case (RecordFailure r now)
  then show ?thesis by (simp add: case_prod_beta Record_sel)
next
  case (AskTarpit r now)
  then show ?thesis using Tarpit_sel [of r now t] IsBlocked_sel(4) [of r now t] by (auto simp: case_prod_beta)
next
  case (SaveTick now written)
  obtain r t' f' where s: "tracker_save json now written t f = (r, t', f')" by (metis prod_cases3)
  then have "tracker_params t' = tracker_params t"
    using tracker_save_same [OF s] by (simp add: same_at_def)
  with s SaveTick show ?thesis by simp
qed

lemma tracker_run_params: "tracker_params (fst (snd (tracker_run json es (t, f)))) = tracker_params t"
proof (induction es arbitrary: t f)
  case (Cons e es)
  obtain v t' f' where s: "tracker_step json e (t, f) = (v, t', f')" by (metis prod_cases3)
  then show ?case
    using Cons.IH [of t' f'] tracker_step_params [of json e t f] by (simp add: case_prod_beta)
qed simp

text \<open>
  C10: A restart forgets nothing. After any run of a tracker and a save that reports success, a
  tracker made from the same configuration and the saved file answers every later question and
  records every later failure with the same results as the tracker that was saved would have:
  no block is lifted early and no counted attempt is lost.
\<close>

theorem tracker_restart:
  assumes "json_roundtrip json" and "afStateFile cfg \<noteq> []"
    and "NewFailureTracker json f0 n0 cfg = Inr t0" and "tracker_run json past (t0, f0) = (vs, t, f)"
    and "tracker_save json saved written t f = (None, t1, f1)"
    and "fsReadFault f1 (afStateFile cfg) = None"
    and "NewFailureTracker json f1 now cfg = Inr t2" and "saved \<le> now"
    and "sorted (map event_time es)" and "\<forall>e\<in>set es. now \<le> event_time e"
  shows "fst (tracker_run json es (t2, g)) = fst (tracker_run json es (t, f))"
proof -
  have "tracker_params t = tracker_params t0"
    using tracker_run_params [of json past t0 f0] assms(4) by simp
  from restart_same [OF assms(1-3) this assms(5-8)] show ?thesis
    using assms(9,10) by (rule tracker_run_same)
qed

section \<open>A codec\<close>

definition codes :: "('a \<Rightarrow> string) \<Rightarrow> (string \<Rightarrow> ('a \<times> string) option) \<Rightarrow> bool" where
  "codes enc dec \<longleftrightarrow> (\<forall>x r. dec (enc x @ r) = Some (x, r))"

lemma codesD: "codes enc dec \<Longrightarrow> dec (enc x @ r) = Some (x, r)"
  by (simp add: codes_def)

definition enc_nat :: "nat \<Rightarrow> string" where
  "enc_nat n = replicate n (CHR ''1'') @ ''.''"

definition dec_nat :: "string \<Rightarrow> (nat \<times> string) option" where
  "dec_nat s = Some (length (takeWhile (\<lambda>c. c = CHR ''1'') s), tl (dropWhile (\<lambda>c. c = CHR ''1'') s))"

lemma codes_nat: "codes enc_nat dec_nat"
proof -
  have "takeWhile (\<lambda>c. c = CHR ''1'') (replicate n (CHR ''1'') @ CHR ''.'' # r) = replicate n (CHR ''1'')"
    and "dropWhile (\<lambda>c. c = CHR ''1'') (replicate n (CHR ''1'') @ CHR ''.'' # r) = CHR ''.'' # r" for n r
    by (induction n) auto
  then show ?thesis by (simp add: codes_def enc_nat_def dec_nat_def)
qed

definition enc_int :: "int \<Rightarrow> string" where
  "enc_int i = enc_nat (nat i) @ enc_nat (nat (- i))"

definition dec_int :: "string \<Rightarrow> (int \<times> string) option" where
  "dec_int s =
     (case dec_nat s of None \<Rightarrow> None | Some (a, s) \<Rightarrow>
      case dec_nat s of None \<Rightarrow> None | Some (b, s) \<Rightarrow> Some (int a - int b, s))"

lemma codes_int: "codes enc_int dec_int"
  by (auto simp: codes_def enc_int_def dec_int_def codesD [OF codes_nat])

definition enc_list :: "('a \<Rightarrow> string) \<Rightarrow> 'a list \<Rightarrow> string" where
  "enc_list enc xs = enc_nat (length xs) @ concat (map enc xs)"

fun dec_many :: "(string \<Rightarrow> ('a \<times> string) option) \<Rightarrow> nat \<Rightarrow> string \<Rightarrow> ('a list \<times> string) option" where
  "dec_many dec 0 s = Some ([], s)"
| "dec_many dec (Suc n) s =
     (case dec s of None \<Rightarrow> None | Some (x, s) \<Rightarrow>
      case dec_many dec n s of None \<Rightarrow> None | Some (xs, s) \<Rightarrow> Some (x # xs, s))"

definition dec_list :: "(string \<Rightarrow> ('a \<times> string) option) \<Rightarrow> string \<Rightarrow> ('a list \<times> string) option" where
  "dec_list dec s = (case dec_nat s of None \<Rightarrow> None | Some (n, s) \<Rightarrow> dec_many dec n s)"

lemma codes_list:
  assumes "codes enc dec" shows "codes (enc_list enc) (dec_list dec)"
proof -
  have "dec_many dec (length xs) (concat (map enc xs) @ r) = Some (xs, r)" for xs r
    by (induction xs) (simp_all add: codesD [OF assms])
  then show ?thesis by (simp add: codes_def enc_list_def dec_list_def codesD [OF codes_nat])
qed

definition enc_pair :: "('a \<Rightarrow> string) \<Rightarrow> ('b \<Rightarrow> string) \<Rightarrow> 'a \<times> 'b \<Rightarrow> string" where
  "enc_pair ea eb x = ea (fst x) @ eb (snd x)"

definition dec_pair :: "(string \<Rightarrow> ('a \<times> string) option) \<Rightarrow> (string \<Rightarrow> ('b \<times> string) option)
    \<Rightarrow> string \<Rightarrow> (('a \<times> 'b) \<times> string) option" where
  "dec_pair da db s =
     (case da s of None \<Rightarrow> None | Some (a, s) \<Rightarrow>
      case db s of None \<Rightarrow> None | Some (b, s) \<Rightarrow> Some ((a, b), s))"

lemma codes_pair: "codes ea da \<Longrightarrow> codes eb db \<Longrightarrow> codes (enc_pair ea eb) (dec_pair da db)"
  by (simp add: codes_def enc_pair_def dec_pair_def)

definition enc_char :: "char \<Rightarrow> string" where "enc_char c = [c]"

fun dec_char :: "string \<Rightarrow> (char \<times> string) option" where
  "dec_char [] = None"
| "dec_char (c # s) = Some (c, s)"

lemma codes_char: "codes enc_char dec_char"
  by (simp add: codes_def enc_char_def)

lemmas codes_intros = codes_nat codes_int codes_char codes_list codes_pair

definition enc_state :: "(string \<times> int list) list \<times> (string \<times> int) list \<Rightarrow> string" where
  "enc_state = enc_pair (enc_list (enc_pair (enc_list enc_char) (enc_list enc_int)))
     (enc_list (enc_pair (enc_list enc_char) enc_int))"

definition dec_state :: "string \<Rightarrow> (((string \<times> int list) list \<times> (string \<times> int) list) \<times> string) option" where
  "dec_state = dec_pair (dec_list (dec_pair (dec_list dec_char) (dec_list dec_int)))
     (dec_list (dec_pair (dec_list dec_char) dec_int))"

lemma codes_state: "codes enc_state dec_state"
  unfolding enc_state_def dec_state_def by (intro codes_intros)

definition sample_json :: state_codec where
  "sample_json = \<lparr>jsonMarshal = (\<lambda>s. Inr (enc_state (asAttempts s, asBlocked s))),
     jsonDecode = (\<lambda>d. case dec_state d of
         None \<Rightarrow> Inl EOF
       | Some ((a, b), _) \<Rightarrow> Inr \<lparr>asAttempts = a, asBlocked = b\<rparr>)\<rparr>"

lemma sample_json_roundtrip: "json_roundtrip sample_json"
  using codesD [OF codes_state, of _ "[]"]
  by (simp add: json_roundtrip_def sample_json_def)

section \<open>The witness\<close>

definition sample_failures_config :: authFailuresConfig where
  "sample_failures_config = \<lparr>afMaxAttempts = 2, afWindow = [], afBlockDuration = ''9ns'', afTarpitDelay = [],
     afStateFile = ''state'', afSaveInterval = []\<rparr>"

text \<open>Two failures of a remote, which block it, and one of another; then a save.\<close>

definition sample_past :: "tracker_event list" where
  "sample_past = [RecordFailure ''a'' 1, RecordFailure ''a'' 2, RecordFailure ''b'' 3]"

lemma parse_9ns: "parse_duration ''9ns'' = Inr 9"
  by (simp add: parse_duration_def parse_elements.simps parse_element_def fraction_part_def
      is_unit_char_def unit_map_def is_digit_def digit_val_def)

definition fresh_tracker :: failureTracker where
  "fresh_tracker = \<lparr>ftAttempts = [], ftBlocked = [], ftMaxAttempts = 2, ftWindow = 300000000000,
     ftBlockDuration = 9, ftTarpitDelay = 0, ftStateFile = ''state'', ftSaveInterval = 60000000000\<rparr>"

lemma fresh_tracker: "NewFailureTracker sample_json no_files 0 sample_failures_config = Inr fresh_tracker"
  by (simp add: fresh_tracker_def NewFailureTracker_def sample_failures_config_def parseDurationDefault_def
      wrap_duration_def Let_def minutes_def nsecs_def tracker_load_def os_ReadFile_def no_files_def
      parse_9ns)

definition sample_new :: "files \<Rightarrow> int \<Rightarrow> failureTracker" where
  "sample_new f now = projr (NewFailureTracker sample_json f now sample_failures_config)"

definition sample_ran :: "failureTracker \<times> files" where
  "sample_ran = snd (tracker_run sample_json sample_past (fresh_tracker, no_files))"

definition sample_saved :: "go_error option \<times> failureTracker \<times> files" where
  "sample_saved = tracker_save sample_json 4 4 (fst sample_ran) (snd sample_ran)"

definition sample_future :: "tracker_event list" where
  "sample_future = [AskBlocked ''a'' 6, RecordFailure ''b'' 7, AskBlocked ''b'' 8]"

lemma sample_new_eq: "NewFailureTracker sample_json f now sample_failures_config = Inr (sample_new f now)"
  by (simp add: sample_new_def NewFailureTracker_def sample_failures_config_def parseDurationDefault_def
      wrap_duration_def Let_def parse_9ns)

theorem tracker_restart_witness:
  "fst (tracker_run sample_json sample_future (sample_new (snd (snd sample_saved)) 5, no_files)) = [1, 1, 1]
   \<and> fst (tracker_run sample_json sample_future sample_ran) = [1, 1, 1]"
proof -
  have "fst sample_saved = None" by code_simp
  then have save: "tracker_save sample_json 4 4 (fst sample_ran) (snd sample_ran)
      = (None, fst (snd sample_saved), snd (snd sample_saved))"
    by (simp add: sample_saved_def prod_eq_iff)
  have read: "fsReadFault (snd (snd sample_saved)) (afStateFile sample_failures_config) = None"
    by code_simp
  have ran: "tracker_run sample_json sample_past (fresh_tracker, no_files)
      = (fst (tracker_run sample_json sample_past (fresh_tracker, no_files)), fst sample_ran, snd sample_ran)"
    by (simp add: sample_ran_def)
  have sf: "afStateFile sample_failures_config \<noteq> []" by (simp add: sample_failures_config_def)
  have s: "sorted (map event_time sample_future)" and l: "\<forall>e\<in>set sample_future. 5 \<le> event_time e"
    by (simp_all add: sample_future_def)
  have "fst (tracker_run sample_json sample_future sample_ran) = [1, 1, 1]" by code_simp
  with tracker_restart [OF sample_json_roundtrip sf fresh_tracker ran save read sample_new_eq _ s l, of no_files]
  show ?thesis by simp
qed

end
