(* ===== verification/KeyProps.thy ===== *)
theory KeyProps
  imports AuthProps
begin

text \<open>The property of the keys fetched from sshid.io.\<close>

section \<open>Fetched lines\<close>

text \<open>What a line of the answer must be to become a source of keys.\<close>

definition fetched_ok :: "string list \<Rightarrow> string \<Rightarrow> bool" where
  "fetched_ok algorithms line \<longleftrightarrow>
     isLiteralKey line \<and> (algorithms \<noteq> [] \<longrightarrow> sshidKeyMatchesAlgorithms line algorithms)"

lemma filter_lines_ok: "k \<in> set (filter_lines algorithms ls) \<Longrightarrow> fetched_ok algorithms k"
  by (induction ls) (auto simp: Let_def fetched_ok_def split: if_splits)

lemma filterKeys_ok: "k \<in> set (filterKeys data algorithms) \<Longrightarrow> fetched_ok algorithms k"
  unfolding filterKeys_def by (rule filter_lines_ok)

lemma load_literal:
  "\<forall>k\<in>set ks. isLiteralKey k \<Longrightarrow> load_keys_loop lib f ks acc = load_keys_loop lib g ks acc"
  by (induction ks arbitrary: acc) (auto simp: read_source_def split: sum.split)

section \<open>Files of a directory\<close>

text \<open>The elements of the path of a child of a directory.\<close>

lemma split_snoc: "c \<notin> set x \<Longrightarrow> split c (s @ c # x) = split c s @ [x]"
  by (induction s) (auto simp: split_plain split: list.splits)

lemma clean_parts_child:
  assumes "d \<noteq> []" and "normal_part x"
  shows "clean_parts (d @ CHR ''/'' # x) = clean_parts d @ [x]"
    and "rooted (d @ CHR ''/'' # x) = rooted d"
proof -
  show r: "rooted (d @ CHR ''/'' # x) = rooted d" using assms(1) by (simp add: rooted_def)
  have "split CHR ''/'' (d @ CHR ''/'' # x) = split CHR ''/'' d @ [x]"
    by (rule split_snoc) (use assms(2) in \<open>simp add: normal_part_def\<close>)
  then show "clean_parts (d @ CHR ''/'' # x) = clean_parts d @ [x]"
    by (simp add: clean_parts_def r clean_step_normal [OF assms(2)])
qed

lemma foldl_climb:
  "foldl (clean_step False) (replicate j ''..'') (replicate k ''..'') = replicate (k + j) ''..''"
proof (induction k arbitrary: j)
  case (Suc k)
  have "clean_step False (replicate j ''..'') ''..'' = replicate (Suc j) ''..''"
    by (cases j) (simp_all add: clean_step_def)
  with Suc.IH [of "Suc j"] show ?case by simp
qed simp

text \<open>Cleaning changes neither the elements nor whether the path is rooted.\<close>

lemma rooted_clean: "rooted (path_clean p) = rooted p"
proof (cases "rooted p")
  case True
  then show ?thesis by (auto simp: path_clean_def rooted_def Let_def)
next
  case False
  obtain ns k where s: "clean_parts p = replicate k ''..'' @ ns" "\<forall>x\<in>set ns. normal_part x"
    using clean_parts_shape by blast
  have "\<not> rooted (join CHR ''/'' (clean_parts p))"
  proof (cases "clean_parts p")
    case (Cons x xs)
    then have "x \<noteq> [] \<and> CHR ''/'' \<notin> set x" using clean_parts_no_slash [of x p] by simp
    then show ?thesis by (cases xs; cases x) (auto simp: Cons)
  qed (simp add: rooted_def)
  then show ?thesis using False by (auto simp: path_clean_def Let_def rooted_def)
qed

lemma clean_parts_clean: "clean_parts (path_clean p) = clean_parts p"
proof (cases "p = []")
  case True
  have "clean_parts (path_clean []) = clean_parts []" by code_simp
  then show ?thesis by (simp only: True)
next
  case False
  obtain ns k where s: "clean_parts p = replicate k ''..'' @ ns" "\<forall>x\<in>set ns. normal_part x"
    "rooted p \<longrightarrow> k = 0" using clean_parts_shape by blast
  have f: "rev (foldl (clean_step (rooted p)) [] (clean_parts p)) = clean_parts p"
  proof (cases "rooted p")
    case True
    with s show ?thesis by (simp add: foldl_clean_normal)
  next
    case False
    have "foldl (clean_step False) [] (replicate k ''..'') = replicate k ''..''"
      using foldl_climb [of 0 k] by simp
    then show ?thesis using s(2) False by (simp add: s(1) foldl_clean_normal)
  qed
  have e: "clean_step r [] [] = []" "clean_step r [] ''.'' = []" for r by simp_all
  show ?thesis
    using f False e unfolding clean_parts_def [of "path_clean p"] rooted_clean split_path_clean [OF False]
    by (cases "rooted p"; cases "clean_parts p = []") simp_all
qed

lemma join_snoc:
  assumes "x \<noteq> []"
  shows "join c (ys @ [x]) \<noteq> []"
proof (cases ys)
  case (Cons y zs)
  then show ?thesis by (cases "zs @ [x]") simp_all
qed (simp add: assms)

lemma join_parts:
  assumes "d \<noteq> []" and "normal_part x"
  shows "filepath_join d x = (if rooted d then ''/'' else []) @ join CHR ''/'' (clean_parts d @ [x])"
proof -
  have "x \<noteq> []" using assms(2) by (simp add: normal_part_def)
  note ne = join_snoc [OF this]
  have "filepath_join d x = path_clean (d @ CHR ''/'' # x)"
    using assms(1) \<open>x \<noteq> []\<close> by (simp add: filepath_join_def)
  then show ?thesis
    using ne [of "CHR ''/''" "clean_parts d"] unfolding path_clean_def Let_def clean_parts_child [OF assms]
    by simp
qed

lemma join_child:
  assumes "d \<noteq> []" and "normal_part x"
  shows "clean_parts (filepath_join d x) = clean_parts d @ [x]"
    and "rooted (filepath_join d x) = rooted d" and "filepath_join d x \<noteq> []"
proof -
  have "x \<noteq> []" using assms(2) by (simp add: normal_part_def)
  then have e: "filepath_join d x = path_clean (d @ CHR ''/'' # x)"
    using assms(1) by (simp add: filepath_join_def)
  show "clean_parts (filepath_join d x) = clean_parts d @ [x]" "rooted (filepath_join d x) = rooted d"
    unfolding e clean_parts_clean rooted_clean clean_parts_child [OF assms] by simp_all
  show "filepath_join d x \<noteq> []" by (auto simp: e path_clean_def Let_def)
qed

lemma join_last: "join c (ys @ [x]) @ z = join c (ys @ [x @ z])"
proof (induction ys)
  case (Cons y ys)
  then show ?case by (cases "ys @ [x]"; cases "ys @ [x @ z]") auto
qed simp

lemma join_suffix:
  "d \<noteq> [] \<Longrightarrow> normal_part x \<Longrightarrow> normal_part (x @ z) \<Longrightarrow> filepath_join d x @ z = filepath_join d (x @ z)"
  by (simp add: join_parts join_last)

section \<open>What resolving may write\<close>

text \<open>
  \<open>cache_file D p\<close>: the path leads from \<open>D\<close> to its directory \<open>sshid\<close> and there to a file whose
  name starts with \<open>sshid-\<close> and goes no further.
\<close>

definition cache_file :: "string \<Rightarrow> string \<Rightarrow> bool" where
  "cache_file D p \<longleftrightarrow> (rooted p \<longleftrightarrow> rooted D) \<and>
     (\<exists>file. normal_part file \<and> prefix ''sshid-'' file \<and> clean_parts p = clean_parts D @ [''sshid'', file])"

definition cache_only :: "string \<Rightarrow> files \<Rightarrow> files \<Rightarrow> bool" where
  "cache_only D f g \<longleftrightarrow>
     (\<forall>p. map_of (fsFiles g) p \<noteq> map_of (fsFiles f) p \<longrightarrow> D \<noteq> [] \<and> cache_file D p)"

lemma cache_only_refl: "cache_only D f f"
  by (simp add: cache_only_def)

lemma cache_only_trans: "cache_only D f g \<Longrightarrow> cache_only D g h \<Longrightarrow> cache_only D f h"
  unfolding cache_only_def by metis

lemma safe_no_slash: "CHR ''/'' \<notin> set (safeFileName s)"
  by (induction s rule: safeFileName.induct) (auto simp: safe_char_def in_range_def)

lemma cache_files:
  assumes "D \<noteq> []"
  shows "cache_file D (cache_path (NewSSHIDResolver D) name)"
    and "cache_file D (cache_path (NewSSHIDResolver D) name @ ''.tmp'')"
proof -
  let ?file = "''sshid-'' @ safeFileName name @ ''.keys''"
  have n: "normal_part ''sshid''" "normal_part ?file" "normal_part (?file @ ''.tmp'')"
    using safe_no_slash [of name] by (auto simp: normal_part_def)
  note d = join_child [OF assms n(1)]
  have p: "cache_path (NewSSHIDResolver D) name = filepath_join (filepath_join D ''sshid'') ?file"
    using assms by (simp add: cache_path_def NewSSHIDResolver_def cache_SubDir_def)
  have in_cache: "cache_file D (filepath_join (filepath_join D ''sshid'') x)"
    if "normal_part x" "prefix ''sshid-'' x" for x
    using join_child [OF d(3) that(1)] d(1,2) that unfolding cache_file_def by auto
  show "cache_file D (cache_path (NewSSHIDResolver D) name)"
    unfolding p by (rule in_cache [OF n(2)]) simp
  show "cache_file D (cache_path (NewSSHIDResolver D) name @ ''.tmp'')"
    unfolding p join_suffix [OF d(3) n(2,3)] by (rule in_cache [OF n(3)]) simp
qed

lemma writeCache_only:
  assumes "D \<noteq> []"
  shows "cache_only D f (snd (writeCache now (cache_path (NewSSHIDResolver D) name) data f))"
proof -
  let ?p = "cache_path (NewSSHIDResolver D) name"
  obtain m g where m: "os_MkdirAll (filepath_dir ?p) f = (m, g)" by fastforce
  then have g: "fsFiles g = fsFiles f" by (auto simp: os_MkdirAll_def split: option.splits)
  obtain x h where x: "replace_file now ?p data g = (x, h)" by fastforce
  have "snd (writeCache now ?p data f) = (case m of Inl e \<Rightarrow> g | Inr u \<Rightarrow> h)"
    by (cases m) (simp_all add: writeCache_def bindE_def m x)
  moreover have "cache_only D f h"
    using replace_file_others [OF x] cache_files [OF assms, of name] assms g
    unfolding cache_only_def by metis
  moreover have "cache_only D f g" by (simp add: cache_only_def g)
  ultimately show ?thesis by (cases m) simp_all
qed

lemma Resolve_ok:
  assumes "sshid_Resolve http (NewSSHIDResolver D) now cfg f = (res, g)"
  shows "cache_only D f g"
    and "res = Inr ks \<Longrightarrow> k \<in> set ks \<Longrightarrow> \<exists>c. cfg = Some c \<and> fetched_ok (sshAlgorithms c) k"
proof -
  have d: "srCacheDir (NewSSHIDResolver D) \<noteq> [] \<Longrightarrow> D \<noteq> []"
    by (auto simp: NewSSHIDResolver_def cache_SubDir_def)
  show "cache_only D f g"
    using assms writeCache_only d
    by (auto simp: sshid_Resolve_def Let_def cache_only_refl split: option.splits if_splits sum.splits)
  show "\<exists>c. cfg = Some c \<and> fetched_ok (sshAlgorithms c) k" if "res = Inr ks" "k \<in> set ks"
    using assms that filterKeys_ok
    by (auto simp: sshid_Resolve_def Let_def split: option.splits if_splits sum.splits)
qed

text \<open>How a user may change.\<close>

definition keys_added :: "'k ssh_lib \<Rightarrow> userConfig \<Rightarrow> userConfig \<Rightarrow> bool" where
  "keys_added lib u u' \<longleftrightarrow>
     (\<exists>ks. u' = u\<lparr>uAuthorizedKeys := uAuthorizedKeys u @ ks\<rparr>
        \<and> (\<forall>k\<in>set ks. \<exists>c. uSSHID u = Some c \<and> fetched_ok (sshAlgorithms c) k)
        \<and> (\<forall>f g. LoadAuthorizedKeys lib f ks = LoadAuthorizedKeys lib g ks))"

lemma keys_added_refl: "keys_added lib u u"
  unfolding keys_added_def by (rule exI [of _ "[]"]) (simp add: LoadAuthorizedKeys_def)

lemma keys_added_fetched:
  "(\<And>k. k \<in> set ks \<Longrightarrow> \<exists>c. uSSHID u = Some c \<and> fetched_ok (sshAlgorithms c) k) \<Longrightarrow>
     keys_added lib u (u\<lparr>uAuthorizedKeys := uAuthorizedKeys u @ ks\<rparr>)"
proof -
  assume ks: "\<And>k. k \<in> set ks \<Longrightarrow> \<exists>c. uSSHID u = Some c \<and> fetched_ok (sshAlgorithms c) k"
  then have "\<forall>k\<in>set ks. isLiteralKey k" by (auto simp: fetched_ok_def)
  then have "LoadAuthorizedKeys lib f ks = LoadAuthorizedKeys lib g ks" for f g
    unfolding LoadAuthorizedKeys_def by (rule load_literal)
  with ks show ?thesis unfolding keys_added_def by blast
qed

lemma resolve_users_ok:
  "resolve_users http (NewSSHIDResolver D) clock i us f = (res, g) \<Longrightarrow>
     cache_only D f g \<and> (\<forall>us'. res = Inr us' \<longrightarrow> list_all2 (keys_added lib) us us')"
proof (induction us arbitrary: i f res g)
  case Nil
  then show ?case by (auto simp: retE_def cache_only_refl)
next
  case (Cons u us)
  show ?case
  proof (cases "case uSSHID u of None \<Rightarrow> True | Some c \<Rightarrow> sshUsername c = []")
    case True
    obtain x h where x: "resolve_users http (NewSSHIDResolver D) clock (i + 1) us f = (x, h)" by fastforce
    with True Cons.prems Cons.IH [OF x] keys_added_refl [of lib u] show ?thesis
      by (cases x) (auto simp: bindE_def retE_def)
  next
    case False
    obtain y f1 where y: "sshid_Resolve http (NewSSHIDResolver D) (clock i) (uSSHID u) f = (y, f1)" by fastforce
    note ok = Resolve_ok [OF y]
    show ?thesis
    proof (cases y)
      case (Inl e)
      with False Cons.prems y ok(1) show ?thesis by auto
    next
      case (Inr ks)
      obtain x h where x: "resolve_users http (NewSSHIDResolver D) clock (i + 1) us f1 = (x, h)" by fastforce
      have "keys_added lib u (u\<lparr>uAuthorizedKeys := uAuthorizedKeys u @ ks\<rparr>)"
        by (rule keys_added_fetched) (rule ok(2) [OF Inr])
      with False Cons.prems Cons.IH [OF x] x y Inr cache_only_trans [OF ok(1)] show ?thesis
        by (cases x) (auto simp: bindE_def retE_def)
    qed
  qed
qed

text \<open>
  C27: What sshid.io can do to a configuration. Whatever it answers and whatever the cache
  holds, each user keeps all fields and only gains sources at the end of the authorized keys;
  each of them is a literal key, of an accepted algorithm when the user limits them, so that
  loading it reads no file of the server. Nothing is written but files that lie directly in the
  directory \<open>sshid\<close> of the cache directory, whatever user names the configuration has (no \<open>/\<close> or
  \<open>..\<close> of a name leads elsewhere), and nothing at all when there is no cache directory.
\<close>

theorem sshid_keys_safe:
  assumes "ResolveSSHIDKeys http clock cfg f = (res, g)"
  shows "cache_only (sCacheDir (cServer cfg)) f g
    \<and> (\<forall>cfg'. res = Inr cfg' \<longrightarrow> cfg' = cfg\<lparr>cUsers := cUsers cfg'\<rparr>
        \<and> list_all2 (keys_added lib) (cUsers cfg) (cUsers cfg'))"
proof -
  let ?r = "NewSSHIDResolver (sCacheDir (cServer cfg))"
  obtain x h where x: "resolve_users http ?r clock 0 (cUsers cfg) f = (x, h)" by fastforce
  from resolve_users_ok [OF x, of lib] show ?thesis
    using assms x by (cases x) (auto simp: ResolveSSHIDKeys_def bindE_def retE_def)
qed

definition sshid_user :: userConfig where
  "sshid_user = (sample_user ''alice'' [])\<lparr>uSSHID := Some \<lparr>sshUsername = ''al'',
     sshAlgorithms = [''Ed25519''], sshCacheDir = []\<rparr>\<rparr>"

definition sample_server :: serverConfig where
  "sample_server = \<lparr>sHost = [], sPort = 0, sHostKey = [], sHostKeyType = [], sLogLevel = [],
     sLogFormat = [], sShutdownTimeout = [], sMetricsAddr = [], sMetricsCertFile = [],
     sMetricsKeyFile = [], sMetricsToken = [], sCacheDir = ''c'', sBackendHealthInterval = [],
     sAuthFailures = \<lparr>afMaxAttempts = 0, afWindow = [], afBlockDuration = [], afTarpitDelay = [],
       afStateFile = [], afSaveInterval = []\<rparr>,
     sMaxReadSize = 0, sMaxFileSize = 0, sMaxConnectionsPerSecond = 0\<rparr>"

definition sshid_config :: config where
  "sshid_config = \<lparr>cServer = sample_server, cUsers = [sshid_user], cBackends = []\<rparr>"

definition sample_answer :: string where
  "sample_answer = ''/etc/passwd'' @ newline # ''ssh-rsa BBBB'' @ newline # '' ssh-ed25519 AAAA me''"

theorem sshid_keys_safe_witness:
  "map uAuthorizedKeys (cUsers (projr (fst (ResolveSSHIDKeys (\<lambda>url. Inr (200, Inr sample_answer))
      (\<lambda>i. 0) sshid_config no_files)))) = [[''ssh-ed25519 AAAA me'']]
   \<and> cache_only ''c'' no_files (snd (ResolveSSHIDKeys (\<lambda>url. Inr (200, Inr sample_answer))
      (\<lambda>i. 0) sshid_config no_files))"
proof -
  let ?r = "ResolveSSHIDKeys (\<lambda>url. Inr (200, Inr sample_answer)) (\<lambda>i. 0) sshid_config no_files"
  have "map uAuthorizedKeys (cUsers (projr (fst ?r))) = [[''ssh-ed25519 AAAA me'']]" by code_simp
  moreover have "cache_only (sCacheDir (cServer sshid_config)) no_files (snd ?r)"
    using sshid_keys_safe [of _ _ sshid_config no_files "fst ?r" "snd ?r" plain_lib] by simp
  ultimately show ?thesis by (simp add: sshid_config_def sample_server_def)
qed

end
