(* ===== verification/ConfigLoad.thy ===== *)
theory ConfigLoad
  imports Config Files
begin

text \<open>
  Loading the configuration: \<open>Load\<close> of \<open>internal/config/config.go\<close> with the substitution of
  environment variables, the defaults and the checks. The environment, the YAML parser and
  \<open>bcrypt.Cost\<close> are parameters.
\<close>

record config_lib =
  osGetenv :: "string \<Rightarrow> string"
  yamlUnmarshal :: "string \<Rightarrow> go_error + config"
  bcryptCost :: "string \<Rightarrow> go_error + int"

section \<open>Environment variables\<close>

definition parseEnvExpr :: "string \<Rightarrow> string \<times> string \<times> string" where
  "parseEnvExpr inner =
     (case splitn2 CHR '':'' inner of
        [name, rest] \<Rightarrow>
          if has_prefix rest ''-'' then (name, ''-'', drop 1 rest)
          else if has_prefix rest ''?'' then (name, ''?'', drop 1 rest)
          else (name, [], [])
      | parts \<Rightarrow> (hd parts, [], []))"

definition resolveEnv :: "config_lib \<Rightarrow> string \<times> string \<times> string \<Rightarrow> go_error + string" where
  "resolveEnv lib e =
     (case e of (name, md, arg) \<Rightarrow>
        let val = osGetenv lib name
        in if val = [] then
             if md = ''-'' then Inr arg
             else if md = ''?'' then
               Inl (if arg = [] then Errorf ''environment variable %q is required'' [name]
                    else Errorf ''%s'' [arg])
             else Inr val
           else Inr val)"

text \<open>What is written before the rest of the output.\<close>

definition put_out :: "string \<Rightarrow> go_error + string \<Rightarrow> go_error + string" where
  "put_out s r = (case r of Inl e \<Rightarrow> Inl e | Inr out \<Rightarrow> Inr (s @ out))"

function envSubstitute :: "config_lib \<Rightarrow> string \<Rightarrow> go_error + string" where
  "envSubstitute lib data =
     (case data of
        [] \<Rightarrow> Inr []
      | c # s \<Rightarrow>
          if c \<noteq> CHR ''$'' then put_out [c] (envSubstitute lib s)
          else case s of
            [] \<Rightarrow> Inr ''$''
          | d # t \<Rightarrow>
              if d = CHR ''{'' then
                case index_of ''}'' t of
                  None \<Rightarrow> put_out ''$'' (envSubstitute lib s)
                | Some i \<Rightarrow>
                    (case resolveEnv lib (parseEnvExpr (take i t)) of
                       Inl err \<Rightarrow> Inl err
                     | Inr val \<Rightarrow> put_out val (envSubstitute lib (drop (i + 1) t)))
              else put_out ''$'' (envSubstitute lib s))"
  by pat_completeness auto
termination
  by (relation "measure (\<lambda>(lib, data). length data)") auto

declare envSubstitute.simps [simp del]

section \<open>Checks and defaults\<close>

definition isValidBcryptHash :: "config_lib \<Rightarrow> string \<Rightarrow> bool" where
  "isValidBcryptHash lib s =
     (if length s \<noteq> 60 then False
      else if \<not> has_prefix s ''$2'' then False
      else if s ! 3 \<noteq> CHR ''$'' then False
      else if s ! 2 = CHR ''a'' \<or> s ! 2 = CHR ''b'' \<or> s ! 2 = CHR ''y''
           then \<not> isl (bcryptCost lib s) else False)"

definition check_user :: "config_lib \<Rightarrow> nat \<Rightarrow> userConfig \<Rightarrow> go_error option" where
  "check_user lib i u =
     (if uUsername u = [] then Some (Errorf ''user %d: username is required'' [decimal i])
      else
        let hasPassword = uPassword u \<noteq> [];
            hasPasswordHash = uPasswordHash u \<noteq> [];
            hasKeys = length (uAuthorizedKeys u) > 0;
            hasSSHID = (case uSSHID u of None \<Rightarrow> False | Some c \<Rightarrow> sshUsername c \<noteq> [])
        in if \<not> hasPassword \<and> \<not> hasPasswordHash \<and> \<not> hasKeys \<and> \<not> hasSSHID
           then Some (Errorf ''user %q: at least one of password, password_hash, authorized_keys, or sshid is required''
             [uUsername u])
           else if hasPasswordHash \<and> \<not> isValidBcryptHash lib (uPasswordHash u)
           then Some (Errorf ''user %q: password_hash does not look like a valid bcrypt hash (length=%d)''
             [uUsername u, decimal (length (uPasswordHash u))])
           else None)"

fun check_users :: "config_lib \<Rightarrow> nat \<Rightarrow> userConfig list \<Rightarrow> go_error option" where
  "check_users lib i [] = None"
| "check_users lib i (u # us) =
     (case check_user lib i u of Some e \<Rightarrow> Some e | None \<Rightarrow> check_users lib (i + 1) us)"

definition defaultHost :: string where "defaultHost = ''0.0.0.0''"
definition defaultPort :: int where "defaultPort = 2222"
definition defaultHostKey :: string where "defaultHostKey = ''host_ed25519_key''"
definition defaultHostKeyType :: string where "defaultHostKeyType = ''ed25519''"
definition defaultRegion :: string where "defaultRegion = ''us-east-1''"
definition defaultPartSize :: int where "defaultPartSize = 8 * 1024 * 1024"

definition default_str :: "string \<Rightarrow> string \<Rightarrow> string" where
  "default_str s d = (if s = [] then d else s)"

text \<open>The defaults set before the check of the key type, those after it, and the backends'.\<close>

definition server_defaults :: "serverConfig \<Rightarrow> serverConfig" where
  "server_defaults s =
     s\<lparr>sHost := default_str (sHost s) defaultHost,
       sPort := (if sPort s = 0 then defaultPort else sPort s),
       sHostKey := default_str (sHostKey s) defaultHostKey,
       sHostKeyType := default_str (sHostKeyType s) defaultHostKeyType\<rparr>"

definition log_defaults :: "serverConfig \<Rightarrow> serverConfig" where
  "log_defaults s =
     s\<lparr>sLogLevel := default_str (sLogLevel s) ''info'', sLogFormat := default_str (sLogFormat s) ''text''\<rparr>"

definition backend_defaults :: "backendConfig \<Rightarrow> backendConfig" where
  "backend_defaults b =
     b\<lparr>bcRegion := default_str (bcRegion b) defaultRegion,
       bcPartSize := (if bcPartSize b = 0 then defaultPartSize else bcPartSize b)\<rparr>"

definition config_Load :: "config_lib \<Rightarrow> string \<Rightarrow> files \<Rightarrow> go_error + config" where
  "config_Load lib path f =
     (case os_ReadFile path f of Inl err \<Rightarrow> Inl err | Inr b \<Rightarrow>
      case envSubstitute lib b of Inl err \<Rightarrow> Inl (Wrapf ''env substitution: %w'' [] err) | Inr b \<Rightarrow>
      case yamlUnmarshal lib b of Inl err \<Rightarrow> Inl err | Inr cfg \<Rightarrow>
      let cfg = cfg\<lparr>cServer := server_defaults (cServer cfg)\<rparr> in
      if sHostKeyType (cServer cfg) \<noteq> ''ed25519'' \<and> sHostKeyType (cServer cfg) \<noteq> ''rsa''
      then Inl (Errorf ''invalid host_key_type %q (must be ed25519 or rsa)'' [sHostKeyType (cServer cfg)])
      else
        let cfg = cfg\<lparr>cServer := log_defaults (cServer cfg)\<rparr> in
        if length (cUsers cfg) = 0 then Inl (Errorf ''at least one user must be configured'' [])
        else case check_users lib 0 (cUsers cfg) of
          Some err \<Rightarrow> Inl err
        | None \<Rightarrow> Inr (cfg\<lparr>cBackends := map backend_defaults (cBackends cfg)\<rparr>))"

section \<open>Templates\<close>

text \<open>
  A reference for the substitution: a file as pieces of text and expressions. Text may hold a
  dollar sign (as bcrypt hashes do) but not one before an opening brace.
\<close>

datatype piece = Lit string | Var string | VarOr string string | VarNeeds string string

fun show_piece :: "piece \<Rightarrow> string" where
  "show_piece (Lit s) = s"
| "show_piece (Var x) = ''${'' @ x @ ''}''"
| "show_piece (VarOr x d) = ''${'' @ x @ '':-'' @ d @ ''}''"
| "show_piece (VarNeeds x m) = ''${'' @ x @ '':?'' @ m @ ''}''"

fun eval_piece :: "config_lib \<Rightarrow> piece \<Rightarrow> go_error + string" where
  "eval_piece lib (Lit s) = Inr s"
| "eval_piece lib (Var x) = Inr (osGetenv lib x)"
| "eval_piece lib (VarOr x d) = Inr (if osGetenv lib x = [] then d else osGetenv lib x)"
| "eval_piece lib (VarNeeds x m) =
     (if osGetenv lib x \<noteq> [] then Inr (osGetenv lib x)
      else Inl (if m = [] then Errorf ''environment variable %q is required'' [x] else Errorf ''%s'' [m]))"

fun eval_pieces :: "config_lib \<Rightarrow> piece list \<Rightarrow> go_error + string" where
  "eval_pieces lib [] = Inr []"
| "eval_pieces lib (p # ps) =
     (case eval_piece lib p of Inl e \<Rightarrow> Inl e | Inr v \<Rightarrow> put_out v (eval_pieces lib ps))"

fun plain :: "string \<Rightarrow> bool" where
  "plain [] = True"
| "plain [c] = (c \<noteq> CHR ''$'')"
| "plain (c # d # s) = (\<not> (c = CHR ''$'' \<and> d = CHR ''{'') \<and> plain (d # s))"

definition plain_name :: "string \<Rightarrow> bool" where
  "plain_name x \<longleftrightarrow> CHR '':'' \<notin> set x \<and> CHR ''}'' \<notin> set x"

fun piece_ok :: "piece \<Rightarrow> bool" where
  "piece_ok (Lit s) = plain s"
| "piece_ok (Var x) = plain_name x"
| "piece_ok (VarOr x d) = (plain_name x \<and> CHR ''}'' \<notin> set d)"
| "piece_ok (VarNeeds x m) = (plain_name x \<and> CHR ''}'' \<notin> set m)"

lemma put_out_Nil [simp]: "put_out [] r = r"
  by (simp add: put_out_def split: sum.split)

lemma put_out_put_out [simp]: "put_out a (put_out b r) = put_out (a @ b) r"
  by (simp add: put_out_def split: sum.split)

lemma put_out_Inr [simp]: "put_out a (Inr b) = Inr (a @ b)"
  by (simp add: put_out_def)

lemma envSubstitute_Nil [simp]: "envSubstitute lib [] = Inr []"
  by (simp add: envSubstitute.simps)

lemma envSubstitute_other: "c \<noteq> CHR ''$'' \<Longrightarrow> envSubstitute lib (c # s) = put_out [c] (envSubstitute lib s)"
  by (simp add: envSubstitute.simps [of lib "c # s"])

lemma envSubstitute_dollar: "d \<noteq> CHR ''{'' \<Longrightarrow>
    envSubstitute lib (CHR ''$'' # d # s) = put_out ''$'' (envSubstitute lib (d # s))"
  by (simp add: envSubstitute.simps [of lib "CHR ''$'' # d # s"])

lemma envSubstitute_lit: "plain s \<Longrightarrow> envSubstitute lib (s @ r) = put_out s (envSubstitute lib r)"
proof (induction s rule: plain.induct)
  case (3 c d s)
  then show ?case
    by (cases "c = CHR ''$''") (simp_all add: envSubstitute_dollar envSubstitute_other)
qed (simp_all add: envSubstitute_other)

lemma take_until_brace: "CHR ''}'' \<notin> set x \<Longrightarrow> takeWhile ((\<noteq>) CHR ''}'') (x @ CHR ''}'' # r) = x"
  by (induction x) auto

lemma envSubstitute_expr:
  assumes "CHR ''}'' \<notin> set x"
  shows "envSubstitute lib (''${'' @ x @ CHR ''}'' # r) =
     (case resolveEnv lib (parseEnvExpr x) of Inl e \<Rightarrow> Inl e | Inr v \<Rightarrow> put_out v (envSubstitute lib r))"
proof -
  have "index_of ''}'' (x @ CHR ''}'' # r) = Some (length x)"
    by (simp add: index_of_single take_until_brace [OF assms])
  then show ?thesis
    by (simp add: envSubstitute.simps [of lib "CHR ''$'' # CHR ''{'' # x @ CHR ''}'' # r"] split: sum.split)
qed

lemma resolve_piece:
  "plain_name x \<Longrightarrow> resolveEnv lib (parseEnvExpr x) = eval_piece lib (Var x)"
  "plain_name x \<Longrightarrow> resolveEnv lib (parseEnvExpr (x @ CHR '':'' # CHR ''-'' # d)) = eval_piece lib (VarOr x d)"
  "plain_name x \<Longrightarrow> resolveEnv lib (parseEnvExpr (x @ CHR '':'' # CHR ''?'' # m)) = eval_piece lib (VarNeeds x m)"
  by (auto simp: plain_name_def parseEnvExpr_def splitn2_plain splitn2_sep resolveEnv_def Let_def has_prefix_def)

lemma envSubstitute_piece:
  assumes "piece_ok p"
  shows "envSubstitute lib (show_piece p @ r) =
     (case eval_piece lib p of Inl e \<Rightarrow> Inl e | Inr v \<Rightarrow> put_out v (envSubstitute lib r))"
proof (cases p)
  case (Lit s)
  with assms show ?thesis by (simp add: envSubstitute_lit)
next
  case (Var x)
  with assms envSubstitute_expr [of x lib r] show ?thesis
    by (simp add: plain_name_def resolve_piece(1) [unfolded plain_name_def])
next
  case (VarOr x d)
  with assms envSubstitute_expr [of "x @ CHR '':'' # CHR ''-'' # d" lib r] show ?thesis
    by (simp add: plain_name_def resolve_piece(2) [unfolded plain_name_def])
next
  case (VarNeeds x m)
  with assms envSubstitute_expr [of "x @ CHR '':'' # CHR ''?'' # m" lib r] show ?thesis
    by (simp add: plain_name_def resolve_piece(3) [unfolded plain_name_def])
qed

section \<open>What a loaded configuration is\<close>

definition user_ok :: "config_lib \<Rightarrow> userConfig \<Rightarrow> bool" where
  "user_ok lib u \<longleftrightarrow> uUsername u \<noteq> []
     \<and> (uPassword u \<noteq> [] \<or> uPasswordHash u \<noteq> [] \<or> uAuthorizedKeys u \<noteq> []
        \<or> (\<exists>c. uSSHID u = Some c \<and> sshUsername c \<noteq> []))
     \<and> (uPasswordHash u \<noteq> [] \<longrightarrow> isValidBcryptHash lib (uPasswordHash u))"

lemma check_user_iff: "check_user lib i u = None \<longleftrightarrow> user_ok lib u"
  by (auto simp: check_user_def user_ok_def Let_def split: option.splits)

lemma check_users_iff: "check_users lib i us = None \<longleftrightarrow> (\<forall>u\<in>set us. user_ok lib u)"
proof (induction us arbitrary: i)
  case (Cons u us)
  show ?case
    by (cases "check_user lib i u") (simp_all add: Cons.IH flip: check_user_iff [of lib i])
qed simp

text \<open>The configuration with every default filled in.\<close>

definition with_defaults :: "config \<Rightarrow> config" where
  "with_defaults c = c\<lparr>cServer := log_defaults (server_defaults (cServer c)),
     cBackends := map backend_defaults (cBackends c)\<rparr>"

definition complete :: "config_lib \<Rightarrow> config \<Rightarrow> bool" where
  "complete lib c \<longleftrightarrow>
     sHost (cServer c) \<noteq> [] \<and> sPort (cServer c) \<noteq> 0 \<and> sHostKey (cServer c) \<noteq> []
     \<and> (sHostKeyType (cServer c) = ''ed25519'' \<or> sHostKeyType (cServer c) = ''rsa'')
     \<and> sLogLevel (cServer c) \<noteq> [] \<and> sLogFormat (cServer c) \<noteq> []
     \<and> cUsers c \<noteq> [] \<and> (\<forall>u\<in>set (cUsers c). user_ok lib u)
     \<and> (\<forall>b\<in>set (cBackends c). bcRegion b \<noteq> [] \<and> bcPartSize b \<noteq> 0)"

lemmas default_defs = with_defaults_def server_defaults_def log_defaults_def backend_defaults_def
  default_str_def defaultHost_def defaultPort_def defaultHostKey_def defaultHostKeyType_def
  defaultRegion_def defaultPartSize_def

lemma complete_with_defaults:
  "complete lib (with_defaults c) \<longleftrightarrow>
     (sHostKeyType (cServer c) = [] \<or> sHostKeyType (cServer c) = ''ed25519'' \<or> sHostKeyType (cServer c) = ''rsa'')
     \<and> cUsers c \<noteq> [] \<and> (\<forall>u\<in>set (cUsers c). user_ok lib u)"
  by (auto simp: complete_def default_defs)

text \<open>A configuration that is complete is left as it is: loading what was loaded changes nothing.\<close>

lemma with_defaults_idem: "complete lib c \<Longrightarrow> with_defaults c = c"
proof -
  assume c: "complete lib c"
  then have "backend_defaults b = b" if "b \<in> set (cBackends c)" for b
    using that by (auto simp: complete_def default_defs)
  then have "map backend_defaults (cBackends c) = cBackends c" by (simp add: map_idI)
  moreover have "log_defaults (server_defaults (cServer c)) = cServer c"
    using c by (auto simp: complete_def default_defs)
  ultimately show ?thesis by (simp add: with_defaults_def)
qed

lemma config_Load_iff:
  "config_Load lib path f = Inr cfg \<longleftrightarrow>
     (\<exists>b e y. os_ReadFile path f = Inr b \<and> envSubstitute lib b = Inr e \<and> yamlUnmarshal lib e = Inr y
        \<and> cfg = with_defaults y \<and> complete lib cfg)"
  (is "?l = ?r")
proof (cases "\<exists>b e y. os_ReadFile path f = Inr b \<and> envSubstitute lib b = Inr e \<and> yamlUnmarshal lib e = Inr y")
  case False
  then have "\<not> ?l" by (auto simp: config_Load_def split: sum.splits)
  with False show ?thesis by blast
next
  case True
  then obtain b e y where y: "os_ReadFile path f = Inr b" "envSubstitute lib b = Inr e"
    "yamlUnmarshal lib e = Inr y" by blast
  let ?t = "sHostKeyType (server_defaults (cServer y))"
  have t: "?t \<noteq> ''ed25519'' \<and> ?t \<noteq> ''rsa'' \<longleftrightarrow> \<not> (sHostKeyType (cServer y) = []
      \<or> sHostKeyType (cServer y) = ''ed25519'' \<or> sHostKeyType (cServer y) = ''rsa'')"
    by (simp add: default_defs)
  have "?l \<longleftrightarrow> cfg = with_defaults y \<and> complete lib (with_defaults y)"
    unfolding complete_with_defaults
    by (cases "check_users lib 0 (cUsers y)")
      (auto simp: config_Load_def y Let_def t with_defaults_def check_users_iff [of lib 0, symmetric])
  then show ?thesis by (auto simp: y)
qed

end
