(* ===== verification/ConfigProps.thy ===== *)
theory ConfigProps
  imports ConfigLoad
begin

text \<open>The properties of loading the configuration.\<close>

text \<open>
  C14: Loading is exact. It gives a configuration exactly when the file reads, its variables
  resolve, the YAML parses and the parsed configuration with every default filled in is
  complete: a known host key type, at least one user, each user named and with a credential, a
  password hash only of the form bcrypt has. The result is then that configuration, which
  another round of defaults leaves as it is; everything the file sets it keeps.
\<close>

theorem load_exact:
  "config_Load lib path f = Inr cfg \<longleftrightarrow>
     (\<exists>b e y. os_ReadFile path f = Inr b \<and> envSubstitute lib b = Inr e \<and> yamlUnmarshal lib e = Inr y
        \<and> cfg = with_defaults y \<and> complete lib cfg \<and> with_defaults cfg = cfg)"
  using config_Load_iff with_defaults_idem by metis

text \<open>
  C15: Substitution agrees with a reference evaluation of templates. For every file made of
  text and of expressions with a variable, a default or a required variable, the scanner of
  the bytes gives the text with the expressions' values in their places, or the error of the
  first required variable that is empty. Text may hold dollar signs, as bcrypt hashes do.
\<close>

theorem env_substitution:
  assumes "\<forall>p\<in>set ps. piece_ok p"
  shows "envSubstitute lib (concat (map show_piece ps)) = eval_pieces lib ps"
  using assms
proof (induction ps)
  case (Cons p ps)
  then show ?case by (simp add: envSubstitute_piece split: sum.split)
qed simp

definition sample_env :: config_lib where
  "sample_env = \<lparr>osGetenv = (\<lambda>x. if x = ''KEY'' then ''secret'' else []),
     yamlUnmarshal = (\<lambda>_. Inl EOF), bcryptCost = (\<lambda>_. Inr 10)\<rparr>"

theorem env_substitution_witness:
  "envSubstitute sample_env ''a: $2b$10$x ${KEY} ${PORT:-22}'' = Inr ''a: $2b$10$x secret 22''
   \<and> envSubstitute sample_env ''b: ${NAME:?set it}'' = Inl (Errorf ''%s'' [''set it''])"
proof -
  let ?a = "[Lit ''a: $2b$10$x '', Var ''KEY'', Lit '' '', VarOr ''PORT'' ''22'']"
  let ?b = "[Lit ''b: '', VarNeeds ''NAME'' ''set it'']"
  have "\<forall>p\<in>set ?a. piece_ok p" and "\<forall>p\<in>set ?b. piece_ok p"
    by (simp_all add: plain_name_def)
  from env_substitution [OF this(1), of sample_env] env_substitution [OF this(2), of sample_env]
  show ?thesis by (simp add: sample_env_def put_out_def)
qed

end
