(* ===== verification/Hostkey.thy ===== *)
theory Hostkey
  imports Files
begin

text \<open>
  \<open>internal/server/hostkey.go\<close>: loading or making the host key, and the wrapper that takes
  SHA-1 from an RSA key. The key formats and their cryptography are parameters.
\<close>

section \<open>Signers\<close>

text \<open>
  An \<open>ssh.Signer\<close>: the type of its public key, its \<open>Sign\<close>, and its \<open>SignWithAlgorithm\<close> from
  the data and the algorithm, which it has when it is an \<open>AlgorithmSigner\<close>.
\<close>

record signer =
  sgType :: string
  sgSign :: "string \<Rightarrow> go_error + string"
  sgSignWithAlgorithm :: "(string \<Rightarrow> string \<Rightarrow> go_error + string) option"

definition SigAlgoRSA :: string where "SigAlgoRSA = ''ssh-rsa''"
definition KeyAlgoRSA :: string where "KeyAlgoRSA = ''ssh-rsa''"

text \<open>
  \<open>rsaAlgorithmSigner\<close> embeds the \<open>AlgorithmSigner\<close> it wraps and declares \<open>SignWithAlgorithm\<close>;
  its other methods, \<open>Sign\<close> among them, are those of the signer it wraps.
\<close>

definition rsa_SignWithAlgorithm :: "(string \<Rightarrow> string \<Rightarrow> go_error + string)
    \<Rightarrow> string \<Rightarrow> string \<Rightarrow> go_error + string" where
  "rsa_SignWithAlgorithm inner data algorithm =
     (if algorithm = SigAlgoRSA then Inl (Errorf ''ssh-rsa (SHA-1) is disabled'' [])
      else inner data algorithm)"

definition wrapRSASigner :: "signer \<Rightarrow> signer" where
  "wrapRSASigner s =
     (if sgType s \<noteq> KeyAlgoRSA then s
      else case sgSignWithAlgorithm s of
        None \<Rightarrow> s
      | Some inner \<Rightarrow> s\<lparr>sgSignWithAlgorithm := Some (rsa_SignWithAlgorithm inner)\<rparr>)"

section \<open>Files of keys\<close>

text \<open>
  \<open>klGenerateRSA\<close> and \<open>klGenerateEd25519\<close> give a fresh private key or the error of the
  generator; the marshallers give its PEM file.
\<close>

record key_lib =
  klGenerateRSA :: "go_error + string"
  klMarshalRSA :: "string \<Rightarrow> string"
  klGenerateEd25519 :: "go_error + string"
  klMarshalEd25519 :: "string \<Rightarrow> go_error + string"
  klParse :: "string \<Rightarrow> go_error + signer"

definition wrapf :: "string \<Rightarrow> go_error + 'a \<Rightarrow> go_error + 'a" where
  "wrapf msg r = (case r of Inl e \<Rightarrow> Inl (Wrapf msg [] e) | Inr v \<Rightarrow> Inr v)"

text \<open>The error of writing the key, wrapped.\<close>

definition write_key :: "int \<Rightarrow> string \<Rightarrow> string \<Rightarrow> (files, unit) act" where
  "write_key now path pemData f =
     (case os_WriteFile now path pemData f of (r, f) \<Rightarrow> (wrapf ''write host key: %w'' r, f))"

definition generateRSAHostKey :: "key_lib \<Rightarrow> int \<Rightarrow> string \<Rightarrow> (files, signer) act" where
  "generateRSAHostKey lib now path =
     bindE (liftE (wrapf ''generate rsa key: %w'' (klGenerateRSA lib))) (\<lambda>key.
     let pemData = klMarshalRSA lib key in
     thenE (write_key now path pemData)
     (bindE (liftE (wrapf ''parse rsa key: %w'' (klParse lib pemData))) (\<lambda>s.
      retE (wrapRSASigner s))))"

definition generateEd25519HostKey :: "key_lib \<Rightarrow> int \<Rightarrow> string \<Rightarrow> (files, signer) act" where
  "generateEd25519HostKey lib now path =
     bindE (liftE (wrapf ''generate ed25519 key: %w'' (klGenerateEd25519 lib))) (\<lambda>priv.
     bindE (liftE (wrapf ''marshal ed25519 key: %w'' (klMarshalEd25519 lib priv))) (\<lambda>pemData.
     thenE (write_key now path pemData)
     (liftE (klParse lib pemData))))"

definition generateHostKey :: "key_lib \<Rightarrow> int \<Rightarrow> string \<Rightarrow> string \<Rightarrow> (files, signer) act" where
  "generateHostKey lib now path keyType =
     (if keyType = ''rsa'' then generateRSAHostKey lib now path
      else if keyType = ''ed25519'' then generateEd25519HostKey lib now path
      else failE (Errorf ''unsupported host key type %q'' [keyType]))"

definition loadHostKey :: "key_lib \<Rightarrow> string \<Rightarrow> files \<Rightarrow> go_error + signer" where
  "loadHostKey lib path f =
     (case wrapf ''read host key: %w'' (os_ReadFile path f) of Inl e \<Rightarrow> Inl e | Inr b \<Rightarrow>
      case wrapf ''parse host key: %w'' (klParse lib b) of Inl e \<Rightarrow> Inl e | Inr s \<Rightarrow>
      Inr (wrapRSASigner s))"

definition loadOrGenerateHostKey :: "key_lib \<Rightarrow> int \<Rightarrow> string \<Rightarrow> string \<Rightarrow> (files, signer) act" where
  "loadOrGenerateHostKey lib now path keyType f =
     (if os_Stat path f = Inl ErrNotExist then generateHostKey lib now path keyType f
      else (loadHostKey lib path f, f))"

section \<open>What the server signs with\<close>

lemma wrapf_Inr [simp]: "wrapf msg r = Inr v \<longleftrightarrow> r = Inr v" "Inr v = wrapf msg r \<longleftrightarrow> r = Inr v"
  by (auto simp: wrapf_def split: sum.splits)

text \<open>
  What becomes of the key \<open>s0\<close> of a file: the same key, which signs as before but that an RSA
  key asked for a signature with the algorithm \<open>ssh-rsa\<close> refuses. Nothing is refused where no
  algorithm is named: neither \<open>Sign\<close> nor a key that is no \<open>AlgorithmSigner\<close> changes.
\<close>

definition guarded :: "signer \<Rightarrow> signer \<Rightarrow> bool" where
  "guarded s0 s \<longleftrightarrow>
     sgType s = sgType s0 \<and> sgSign s = sgSign s0
     \<and> (case sgSignWithAlgorithm s0 of
          None \<Rightarrow> sgSignWithAlgorithm s = None
        | Some inner \<Rightarrow> \<exists>f. sgSignWithAlgorithm s = Some f \<and>
            (\<forall>d a. if sgType s0 = ''ssh-rsa'' \<and> a = ''ssh-rsa'' then isl (f d a) else f d a = inner d a))"

lemma guarded_wrap: "guarded s (wrapRSASigner s)"
  by (simp add: guarded_def wrapRSASigner_def rsa_SignWithAlgorithm_def SigAlgoRSA_def KeyAlgoRSA_def
      split: option.split)

lemma wrap_other: "sgType s \<noteq> KeyAlgoRSA \<Longrightarrow> wrapRSASigner s = s"
  by (simp add: wrapRSASigner_def)

text \<open>What the library documents of an Ed25519 key: its type is not the RSA one.\<close>

definition ed25519_typed :: "key_lib \<Rightarrow> bool" where
  "ed25519_typed lib \<longleftrightarrow>
     (\<forall>priv pem s. klMarshalEd25519 lib priv = Inr pem \<longrightarrow> klParse lib pem = Inr s \<longrightarrow> sgType s \<noteq> KeyAlgoRSA)"

lemma write_key_Inr: "write_key now path d f = (Inr u, g) \<longleftrightarrow> os_WriteFile now path d f = (Inr u, g)"
  by (auto simp: write_key_def split: prod.splits)

lemma os_WriteFile_Inr:
  "os_WriteFile now p d f = (Inr u, g) \<Longrightarrow> map_of (fsFiles g) p = Some (d, now) \<and> fsReadFault g = fsReadFault f"
  by (auto simp: os_WriteFile_def split: option.splits prod.splits)

lemma generateHostKey_Inr:
  assumes "ed25519_typed lib" and "generateHostKey lib now path keyType f = (Inr s, g)"
  shows "\<exists>pem s0. map_of (fsFiles g) path = Some (pem, now) \<and> fsReadFault g = fsReadFault f
    \<and> klParse lib pem = Inr s0 \<and> s = wrapRSASigner s0"
proof (cases "keyType = ''rsa''")
  case True
  with assms(2) show ?thesis
    by (auto simp: generateHostKey_def generateRSAHostKey_def Let_def act_simps write_key_Inr
        dest!: os_WriteFile_Inr)
next
  case False
  then obtain priv pem where "klMarshalEd25519 lib priv = Inr pem" "klParse lib pem = Inr s"
      and w: "os_WriteFile now path pem f = (Inr (), g)"
    using assms(2)
    by (auto simp: generateHostKey_def generateEd25519HostKey_def act_simps write_key_Inr split: if_splits)
  with assms(1) show ?thesis
    using os_WriteFile_Inr [OF w] wrap_other [of s] by (auto simp: ed25519_typed_def)
qed

lemma loadHostKey_Inr:
  "loadHostKey lib path f = Inr s \<longleftrightarrow>
     (\<exists>b s0. os_ReadFile path f = Inr b \<and> klParse lib b = Inr s0 \<and> s = wrapRSASigner s0)"
  by (auto simp: loadHostKey_def wrapf_def split: sum.splits)

lemma loadOrGenerate_again:
  assumes "ed25519_typed lib" and "loadOrGenerateHostKey lib now path keyType f = (Inr s, g)"
    and "fsReadFault g path = None"
  shows "loadHostKey lib path g = Inr s \<and> os_Stat path g \<noteq> Inl ErrNotExist"
proof (cases "os_Stat path f = Inl ErrNotExist")
  case True
  with assms(2) have "generateHostKey lib now path keyType f = (Inr s, g)"
    by (simp add: loadOrGenerateHostKey_def)
  from generateHostKey_Inr [OF assms(1) this] assms(3) show ?thesis
    by (auto simp: loadHostKey_Inr os_ReadFile_def os_Stat_def)
next
  case False
  with assms(2) show ?thesis by (auto simp: loadOrGenerateHostKey_def)
qed

text \<open>A host key of the server is the guarded key of its file.\<close>

lemma loadHostKey_guarded:
  "loadHostKey lib path f = Inr s \<Longrightarrow>
     \<exists>pem s0. os_ReadFile path f = Inr pem \<and> klParse lib pem = Inr s0 \<and> guarded s0 s"
  using guarded_wrap by (fastforce simp: loadHostKey_Inr)

end
