(* ===== verification/Server.thy ===== *)
theory Server
  imports SSHConfig Hostkey HandlerBase Ratelimit
begin

text \<open>
  \<open>internal/server/server.go\<close>: building the state of the server from a configuration, the
  session of a connection, and the life of connections: accepting, the handshake's end, the
  session's end, and shutdown. What happens on a session is the handlers' part.
\<close>

section \<open>Building the state\<close>

text \<open>
  The state holds the pointer to the metrics; \<open>stMetrics\<close> tells whether it is set, the
  collectors are part of the running server. The VFS and the tracker are values here.
\<close>

record 'k server_state =
  stCfg :: config
  stSigner :: signer
  stSsh :: "'k ssh_config"
  stVfs :: vfs
  stTracker :: failureTracker
  stMetrics :: bool

text \<open>What the building depends on outside the repository.\<close>

record ('k, 's) build_deps =
  bdKeys :: key_lib
  bdHttp :: http_get
  bdLoadAws :: "backendConfig \<Rightarrow> go_error option"
  bdClientOf :: "backendConfig \<Rightarrow> client"
  bdApi :: "'s s3_api"
  bdJson :: state_codec
  bdSsh :: "'k ssh_lib"

record 's build_world =
  bwFiles :: files
  bwStore :: 's

text \<open>An action on the files or the store, its error wrapped.\<close>

definition on_files :: "string \<Rightarrow> (files, 'a) act \<Rightarrow> ('s build_world, 'a) act" where
  "on_files msg m w = (case m (bwFiles w) of (r, f) \<Rightarrow> (wrapf msg r, w\<lparr>bwFiles := f\<rparr>))"

definition on_store :: "string \<Rightarrow> ('s, 'a) act \<Rightarrow> ('s build_world, 'a) act" where
  "on_store msg m w = (case m (bwStore w) of (r, s) \<Rightarrow> (wrapf msg r, w\<lparr>bwStore := s\<rparr>))"

text \<open>
  \<open>now\<close> is the instant of the building, \<open>clock\<close> that of each user's keys. \<open>ResolveSSHIDKeys\<close>
  changes the configuration in place, so the state holds the changed one.
\<close>

definition BuildState :: "('k, 's) build_deps \<Rightarrow> int \<Rightarrow> (nat \<Rightarrow> int) \<Rightarrow> bool \<Rightarrow> config
    \<Rightarrow> ('s build_world, 'k server_state) act" where
  "BuildState d now clock m cfg =
     bindE (on_files ''host key: %w''
       (loadOrGenerateHostKey (bdKeys d) now (sHostKey (cServer cfg)) (sHostKeyType (cServer cfg)))) (\<lambda>signer.
     bindE (on_files ''sshid keys: %w'' (ResolveSSHIDKeys (bdHttp d) clock cfg)) (\<lambda>cfg.
     bindE (liftE (wrapf ''init vfs: %w'' (NewVFS (bdLoadAws d) (bdClientOf d) (cBackends cfg)))) (\<lambda>v.
     thenE (on_store ''backend validation: %w'' (Validate (bdApi d) v))
     (bindE (\<lambda>w. (wrapf ''auth failure tracker: %w''
         (NewFailureTracker (bdJson d) (bwFiles w) now (sAuthFailures (cServer cfg))), w)) (\<lambda>tracker.
     bindE (\<lambda>w. (wrapf ''ssh config: %w''
         (NewSSHServerConfig (bdSsh d) (bwFiles w) (cUsers cfg)), w)) (\<lambda>ssh.
     retE \<lparr>stCfg = cfg, stSigner = signer, stSsh = ssh, stVfs = v, stTracker = tracker, stMetrics = m\<rparr>))))))"

text \<open>\<open>CurrentVFS\<close> of a state that may be nil.\<close>

definition CurrentVFS :: "'k server_state option \<Rightarrow> vfs option" where
  "CurrentVFS s = map_option stVfs s"

section \<open>The session of a user\<close>

fun allowed_loop :: "userConfig list \<Rightarrow> string \<Rightarrow> string list" where
  "allowed_loop [] username = []"
| "allowed_loop (u # us) username =
     (if uUsername u = username then uBackends u else allowed_loop us username)"

definition userAllowedBackends :: "config \<Rightarrow> string \<Rightarrow> string list" where
  "userAllowedBackends cfg username = allowed_loop (cUsers cfg) username"

fun max_file_loop :: "userConfig list \<Rightarrow> string \<Rightarrow> int \<Rightarrow> int" where
  "max_file_loop [] username dflt = dflt"
| "max_file_loop (u # us) username dflt =
     (if uUsername u = username \<and> uMaxFileSize u > 0 then uMaxFileSize u
      else max_file_loop us username dflt)"

definition effectiveMaxFileSize :: "config \<Rightarrow> string \<Rightarrow> int" where
  "effectiveMaxFileSize cfg username = max_file_loop (cUsers cfg) username (sMaxFileSize (cServer cfg))"

fun max_read_loop :: "userConfig list \<Rightarrow> string \<Rightarrow> int \<Rightarrow> int" where
  "max_read_loop [] username dflt = dflt"
| "max_read_loop (u # us) username dflt =
     (if uUsername u = username \<and> uMaxReadSize u > 0 then uMaxReadSize u
      else max_read_loop us username dflt)"

definition effectiveMaxReadSize :: "config \<Rightarrow> string \<Rightarrow> int" where
  "effectiveMaxReadSize cfg username = max_read_loop (cUsers cfg) username (sMaxReadSize (cServer cfg))"

fun prefixes_loop :: "userConfig list \<Rightarrow> string \<Rightarrow> (string, string) gomap" where
  "prefixes_loop [] username = []"
| "prefixes_loop (u # us) username =
     (if uUsername u = username then
        if length (uBackendPrefixes u) > 0 then uBackendPrefixes u
        else if uPrefix u \<noteq> [] then [(''*'', uPrefix u)]
        else []
      else prefixes_loop us username)"

definition userBackendPrefixes :: "config \<Rightarrow> string \<Rightarrow> (string, string) gomap" where
  "userBackendPrefixes cfg username = prefixes_loop (cUsers cfg) username"

definition session_handlers :: "'k server_state \<Rightarrow> 'l rateRegistry option \<Rightarrow> string \<Rightarrow> string \<Rightarrow> handlers" where
  "session_handlers st reg user remoteAddr =
     (let allowed = userAllowedBackends (stCfg st) user;
          backendPrefixes = userBackendPrefixes (stCfg st) user;
          sessionVFS = WithBackendPrefixes backendPrefixes (vfs_Filter allowed (stVfs st));
          perms = GetUserPermissions (stCfg st) user;
          rateLimiter = (case reg of None \<Rightarrow> None | Some r \<Rightarrow> registry_Limiter r user);
          maxFileSize = effectiveMaxFileSize (stCfg st) user;
          maxReadSize = effectiveMaxReadSize (stCfg st) user
      in NewS3Handlers sessionVFS user remoteAddr perms rateLimiter maxFileSize maxReadSize
           (sCacheDir (cServer (stCfg st))) (stMetrics st))"

section \<open>The connection tracker\<close>

text \<open>The set of the connections by their identity.\<close>

record connTracker = ctConns :: "nat list"

definition ct_add :: "nat \<Rightarrow> connTracker \<Rightarrow> connTracker" where
  "ct_add c ct = ct\<lparr>ctConns := List.insert c (ctConns ct)\<rparr>"

definition ct_remove :: "nat \<Rightarrow> connTracker \<Rightarrow> connTracker" where
  "ct_remove c ct = ct\<lparr>ctConns := removeAll c (ctConns ct)\<rparr>"

text \<open>\<open>closeAll\<close> closes each connection of the set: the sockets closed, with those before.\<close>

definition ct_closeAll :: "connTracker \<Rightarrow> nat list \<Rightarrow> nat list" where
  "ct_closeAll ct closed = foldl (\<lambda>closed c. List.insert c closed) closed (ctConns ct)"

section \<open>The running server\<close>

text \<open>
  A connection that was accepted and not yet removed: with the state it was accepted under,
  in its handshake, or serving a user with the handlers of the session.
\<close>

datatype phase = Handshaking | Serving string handlers

record 'k conn =
  cnState :: "'k server_state"
  cnRemote :: string
  cnPhase :: phase

record ('k, 'l) running =
  rnState :: "'k server_state"
  rnPending :: "(nat \<times> string) option"
  rnConns :: "nat \<Rightarrow> 'k conn option"
  rnTracker :: connTracker
  rnClosed :: "nat list"
  rnWait :: int
  rnStopping :: bool
  rnSwept :: bool
  rnListening :: bool
  rnLimiter :: "connLimiter option"
  rnRegistry :: "'l rateRegistry option"
  rnMetrics :: metrics

definition start_running :: "'k server_state \<Rightarrow> connLimiter option \<Rightarrow> 'l rateRegistry option \<Rightarrow> metrics
    \<Rightarrow> ('k, 'l) running" where
  "start_running st lim reg m =
     \<lparr>rnState = st, rnPending = None, rnConns = (\<lambda>_. None), rnTracker = \<lparr>ctConns = []\<rparr>, rnClosed = [],
      rnWait = 0, rnStopping = False, rnSwept = False, rnListening = True,
      rnLimiter = lim, rnRegistry = reg, rnMetrics = m\<rparr>"

text \<open>
  The loop of \<open>Run\<close>. \<open>Accept\<close> gives a connection, which the loop holds (\<open>rnPending\<close>) while it
  waits for the accept limiter; when that gives an error the connection is closed, else it is
  tracked, and handled under the state that is current then. All the while the listener may be
  closed: a connection accepted before can be tracked after it. \<open>rnWait\<close> is the wait group,
  \<open>rnStopping\<close> tells whether the context is done, \<open>rnSwept\<close> whether the one goroutine that
  waits for it has closed the connections tracked then, and \<open>rnListening\<close> whether the listener
  is open.
\<close>

definition conn_arrived :: "nat \<Rightarrow> string \<Rightarrow> ('k, 'l) running \<Rightarrow> ('k, 'l) running" where
  "conn_arrived c remote s = s\<lparr>rnPending := Some (c, remote)\<rparr>"

definition conn_accepted :: "nat \<Rightarrow> string \<Rightarrow> ('k, 'l) running \<Rightarrow> ('k, 'l) running" where
  "conn_accepted c remote s =
     s\<lparr>rnPending := None, rnTracker := ct_add c (rnTracker s), rnWait := rnWait s + 1,
       rnConns := (rnConns s)(c \<mapsto> \<lparr>cnState = rnState s, cnRemote = remote, cnPhase = Handshaking\<rparr>)\<rparr>"

definition conn_throttled :: "nat \<Rightarrow> ('k, 'l) running \<Rightarrow> ('k, 'l) running" where
  "conn_throttled c s = s\<lparr>rnPending := None, rnClosed := List.insert c (rnClosed s)\<rparr>"

text \<open>The end of the goroutine of a connection, its socket closed.\<close>

definition conn_removed :: "nat \<Rightarrow> ('k, 'l) running \<Rightarrow> ('k, 'l) running" where
  "conn_removed c s =
     s\<lparr>rnClosed := List.insert c (rnClosed s), rnTracker := ct_remove c (rnTracker s),
       rnWait := rnWait s - 1, rnConns := (rnConns s)(c := None)\<rparr>"

text \<open>
  \<open>handleConn\<close> after the handshake of a user: the limiter may turn the connection away;
  otherwise it is counted and gets its handlers.
\<close>

definition conn_authenticated :: "nat \<Rightarrow> 'k conn \<Rightarrow> string \<Rightarrow> ('k, 'l) running \<Rightarrow> ('k, 'l) running" where
  "conn_authenticated c cn user s =
     (case (case rnLimiter s of None \<Rightarrow> (True, None)
            | Some l \<Rightarrow> (case Acquire user l of (ok, l) \<Rightarrow> (ok, Some l))) of
        (False, lim) \<Rightarrow> conn_removed c (s\<lparr>rnLimiter := lim\<rparr>)
      | (True, lim) \<Rightarrow>
          s\<lparr>rnLimiter := lim,
            rnMetrics := (if stMetrics (cnState cn) then ConnectionOpened (rnMetrics s) else rnMetrics s),
            rnConns := (rnConns s)(c \<mapsto> cn\<lparr>cnPhase :=
              Serving user (session_handlers (cnState cn) (rnRegistry s) user (cnRemote cn))\<rparr>)\<rparr>)"

text \<open>\<open>handleConn\<close> when the session has ended: its deferred calls, last first.\<close>

definition conn_finished :: "nat \<Rightarrow> 'k conn \<Rightarrow> string \<Rightarrow> ('k, 'l) running \<Rightarrow> ('k, 'l) running" where
  "conn_finished c cn user s =
     conn_removed c
       (s\<lparr>rnMetrics := (if stMetrics (cnState cn) then ConnectionClosed (rnMetrics s) else rnMetrics s),
          rnLimiter := map_option (Release user) (rnLimiter s)\<rparr>)"

text \<open>
  The goroutine that waits for the context: when it is done, all tracked connections are closed
  once, then the listener. \<open>Run\<close> returns when it holds no connection, accepting has failed and
  no connection is waited for, or at the timeout.
\<close>

definition context_done :: "('k, 'l) running \<Rightarrow> ('k, 'l) running" where
  "context_done s = s\<lparr>rnStopping := True\<rparr>"

definition shut_down :: "('k, 'l) running \<Rightarrow> ('k, 'l) running" where
  "shut_down s = s\<lparr>rnSwept := True, rnClosed := ct_closeAll (rnTracker s) (rnClosed s)\<rparr>"

definition close_listener :: "('k, 'l) running \<Rightarrow> ('k, 'l) running" where
  "close_listener s = s\<lparr>rnListening := False\<rparr>"

definition Run_returns :: "bool \<Rightarrow> ('k, 'l) running \<Rightarrow> bool" where
  "Run_returns timeout s \<longleftrightarrow> rnPending s = None \<and> \<not> rnListening s \<and> rnStopping s
     \<and> (rnWait s = 0 \<or> timeout)"

text \<open>A reload that succeeds, as \<open>main\<close> makes it: limits first, then the state.\<close>

definition install_state :: "'l rate_lib \<Rightarrow> userConfig list \<Rightarrow> 'k server_state \<Rightarrow> ('k, 'l) running
    \<Rightarrow> ('k, 'l) running" where
  "install_state lib users st s =
     s\<lparr>rnLimiter := map_option (connLimiter_Update users) (rnLimiter s),
       rnRegistry := map_option (registry_Update lib users) (rnRegistry s),
       rnState := st\<rparr>"

text \<open>The steps, with the kind of each: a user's connection, a reload or a shutdown.\<close>

datatype step_kind = ConnStep | ReloadStep | ShutdownStep

inductive server_step :: "'l rate_lib \<Rightarrow> step_kind \<Rightarrow> ('k, 'l) running \<Rightarrow> ('k, 'l) running \<Rightarrow> bool"
  for lib :: "'l rate_lib" where
  arrive: "rnListening s \<Longrightarrow> rnPending s = None \<Longrightarrow> rnConns s c = None \<Longrightarrow> c \<notin> set (rnClosed s) \<Longrightarrow>
    server_step lib ConnStep s (conn_arrived c remote s)"
| throttled: "rnPending s = Some (c, remote) \<Longrightarrow> server_step lib ConnStep s (conn_throttled c s)"
| accept: "rnPending s = Some (c, remote) \<Longrightarrow> server_step lib ConnStep s (conn_accepted c remote s)"
| handshake_failed: "rnConns s c = Some cn \<Longrightarrow> cnPhase cn = Handshaking \<Longrightarrow>
    server_step lib ConnStep s (conn_removed c s)"
| authenticated: "rnConns s c = Some cn \<Longrightarrow> cnPhase cn = Handshaking \<Longrightarrow>
    server_step lib ConnStep s (conn_authenticated c cn user s)"
| finished: "rnConns s c = Some cn \<Longrightarrow> cnPhase cn = Serving user h \<Longrightarrow>
    server_step lib ConnStep s (conn_finished c cn user s)"
| reloaded: "server_step lib ReloadStep s (install_state lib users st s)"
| stopping: "\<not> rnStopping s \<Longrightarrow> server_step lib ShutdownStep s (context_done s)"
| shutdown: "rnStopping s \<Longrightarrow> \<not> rnSwept s \<Longrightarrow> server_step lib ShutdownStep s (shut_down s)"
| listener_closed: "rnSwept s \<Longrightarrow> rnListening s \<Longrightarrow> server_step lib ShutdownStep s (close_listener s)"

inductive_cases ConnStepE: "server_step lib ConnStep s s'"

definition any_step :: "'l rate_lib \<Rightarrow> ('k, 'l) running \<Rightarrow> ('k, 'l) running \<Rightarrow> bool" where
  "any_step lib s s' \<longleftrightarrow> (\<exists>kd. server_step lib kd s s')"

definition calm_step :: "'l rate_lib \<Rightarrow> ('k, 'l) running \<Rightarrow> ('k, 'l) running \<Rightarrow> bool" where
  "calm_step lib s s' \<longleftrightarrow> (\<exists>kd. kd \<noteq> ReloadStep \<and> server_step lib kd s s')"

section \<open>The channels of a connection\<close>

text \<open>
  The loop of \<open>handleConn\<close> over the channels a client opens, each with its type and whether
  accepting it fails, and the loop of \<open>handleChannel\<close> over the requests of a session channel:
  \<open>subsystem_name\<close> is the SSH library's decoding of a payload. The request server that then
  reads the channel is the SFTP library's; it calls the handlers.
\<close>

datatype channel_fate = ChannelRefused string | ChannelFailed | SessionOpened

fun serve_channels :: "(string \<times> bool) list \<Rightarrow> channel_fate list" where
  "serve_channels [] = []"
| "serve_channels ((typ, fails) # chans) =
     (if typ \<noteq> ''session'' then ChannelRefused ''only session channels allowed'' # serve_channels chans
      else if fails then ChannelFailed # serve_channels chans
      else SessionOpened # serve_channels chans)"

definition channel_reply :: "(string \<Rightarrow> go_error + string) \<Rightarrow> string \<times> string \<Rightarrow> bool" where
  "channel_reply subsystem_name req =
     (case req of (typ, payload) \<Rightarrow>
        if typ = ''subsystem'' then
          (case subsystem_name payload of Inl err \<Rightarrow> False | Inr name \<Rightarrow> name = ''sftp'')
        else False)"

section \<open>Handshake errors\<close>

text \<open>
  \<open>isBenignHandshakeErr\<close>: \<open>is_closed\<close> tells whether the error is or wraps \<open>net.ErrClosed\<close>, and
  \<open>text\<close> is its message; \<open>errors.Is\<close> with \<open>io.EOF\<close> follows the wrapping.
\<close>

fun errors_Is_EOF :: "go_error \<Rightarrow> bool" where
  "errors_Is_EOF EOF = True"
| "errors_Is_EOF (Wrapf f args e) = errors_Is_EOF e"
| "errors_Is_EOF _ = False"

definition isBenignHandshakeErr :: "go_error option \<Rightarrow> (go_error \<Rightarrow> bool) \<Rightarrow> (go_error \<Rightarrow> string) \<Rightarrow> bool" where
  "isBenignHandshakeErr err is_closed text =
     (case err of
        None \<Rightarrow> False
      | Some e \<Rightarrow>
          if errors_Is_EOF e then True
          else if is_closed e then True
          else let s = text e
               in contains s ''EOF'' \<or> contains s ''connection reset'' \<or> contains s ''broken pipe''
                  \<or> contains s ''use of closed network connection'')"

end
