(* ===== verification/Health.thy ===== *)
theory Health
  imports HandlerBase Guarantees
begin

text \<open>
  \<open>internal/health/health.go\<close>: the monitor of the backends, and what the metrics server's
  \<open>/healthz\<close> makes of it. The provider of the VFS is its answer, \<open>None\<close> for nil.
\<close>

section \<open>The monitor\<close>

record healthMonitor =
  hmMetrics :: bool
  hmInterval :: int
  hmStatus :: "(string, bool) gomap"

definition NewHealthMonitor :: "bool \<Rightarrow> int \<Rightarrow> healthMonitor" where
  "NewHealthMonitor metrics interval =
     \<lparr>hmMetrics = metrics, hmInterval = interval, hmStatus = []\<rparr>"

definition health_request :: "backend \<Rightarrow> list_in" where
  "health_request b =
     \<lparr>li_Prefix = bPrefix b, li_Delimiter = [], li_MaxKeys = Some 1, li_Token = None\<rparr>"

definition checkBackend :: "bool \<Rightarrow> 's s3_api \<Rightarrow> backend \<Rightarrow> 's world \<Rightarrow> bool \<times> 's world" where
  "checkBackend metrics api b w =
     (case api_ListObjectsV2 api (bClient b) (bBucket b) (health_request b) (wStore w) of
        (r, s) \<Rightarrow>
          (\<not> isl r,
           if metrics
           then w\<lparr>wStore := s, wMetrics := ObserveS3Op ''HealthCheck'' (bName b) (isl r) (wMetrics w)\<rparr>
           else w\<lparr>wStore := s\<rparr>))"

fun check_loop :: "bool \<Rightarrow> 's s3_api \<Rightarrow> (string \<times> backend) list \<Rightarrow> (string, bool) gomap \<Rightarrow> 's world
    \<Rightarrow> (string, bool) gomap \<times> 's world" where
  "check_loop metrics api [] newStatus w = (newStatus, w)"
| "check_loop metrics api ((name, b) # r) newStatus w =
     (case checkBackend metrics api b w of
        (healthy, w) \<Rightarrow>
          check_loop metrics api r (gm_put name healthy newStatus)
            (if metrics then w\<lparr>wMetrics := SetBackendHealthy name healthy (wMetrics w)\<rparr> else w))"

definition checkAll :: "'s s3_api \<Rightarrow> vfs option \<Rightarrow> healthMonitor \<Rightarrow> 's world \<Rightarrow> healthMonitor \<times> 's world" where
  "checkAll api state m w =
     (case state of
        None \<Rightarrow> (m, w)
      | Some v \<Rightarrow>
          (case check_loop (hmMetrics m) api (gm_range (Backends v)) [] w of
             (newStatus, w) \<Rightarrow> (m\<lparr>hmStatus := newStatus\<rparr>, w)))"

text \<open>\<open>Start\<close>: a check at once and one for each tick; \<open>states\<close> is what the provider gives at each.\<close>

fun check_run :: "'s s3_api \<Rightarrow> vfs option list \<Rightarrow> healthMonitor \<Rightarrow> 's world \<Rightarrow> healthMonitor \<times> 's world" where
  "check_run api [] m w = (m, w)"
| "check_run api (v # vs) m w = (case checkAll api v m w of (m, w) \<Rightarrow> check_run api vs m w)"

definition monitor_Start :: "'s s3_api \<Rightarrow> vfs option \<Rightarrow> vfs option list \<Rightarrow> healthMonitor \<Rightarrow> 's world
    \<Rightarrow> healthMonitor \<times> 's world" where
  "monitor_Start api first ticks m w =
     (if hmInterval m \<le> 0 then (m, w) else check_run api (first # ticks) m w)"

text \<open>A missing name reads as false.\<close>

definition Healthy :: "healthMonitor \<Rightarrow> string \<Rightarrow> bool" where
  "Healthy m name = (case map_of (hmStatus m) name of None \<Rightarrow> False | Some h \<Rightarrow> h)"

definition AllHealthy :: "healthMonitor \<Rightarrow> bool" where
  "AllHealthy m =
     (if length (hmStatus m) = 0 then True
      else list_all (\<lambda>(name, healthy). healthy) (gm_range (hmStatus m)))"

section \<open>What a check leaves\<close>

lemma AllHealthy_iff: "AllHealthy m \<longleftrightarrow> (\<forall>name h. map_of (hmStatus m) name = Some h \<longrightarrow> h)"
proof -
  have "list_all (\<lambda>(name, healthy). healthy) (gm_range (hmStatus m)) \<longleftrightarrow>
      (\<forall>x\<in>set (gm_range (hmStatus m)). snd x)"
    by (simp add: list_all_iff case_prod_beta)
  also have "\<dots> \<longleftrightarrow> (\<forall>name h. map_of (hmStatus m) name = Some h \<longrightarrow> h)"
    unfolding set_gm_range by auto
  finally show ?thesis by (auto simp: AllHealthy_def)
qed

text \<open>The counter of the checks of a backend with a result, and its gauge.\<close>

abbreviation checks :: "metrics \<Rightarrow> string \<Rightarrow> string \<Rightarrow> nat" where
  "checks m name status \<equiv> s3OpsTotal m (''HealthCheck'', name, status)"

text \<open>
  What the backends answer to one list request each, asked in the order of the list.
\<close>

fun answers :: "'s s3_api \<Rightarrow> (string \<times> backend) list \<Rightarrow> 's \<Rightarrow> (string \<times> bool) list \<times> 's" where
  "answers api [] s = ([], s)"
| "answers api ((name, b) # xs) s =
     (case api_ListObjectsV2 api (bClient b) (bBucket b) (health_request b) s of
        (r, s) \<Rightarrow> (case answers api xs s of (rs, s) \<Rightarrow> ((name, \<not> isl r) # rs, s)))"

text \<open>The collectors after the answers \<open>rs\<close> have been counted.\<close>

definition counted :: "(string \<times> bool) list \<Rightarrow> metrics \<Rightarrow> metrics \<Rightarrow> bool" where
  "counted rs m m' \<longleftrightarrow>
     (\<forall>op name status. s3OpsTotal m' (op, name, status) = s3OpsTotal m (op, name, status)
        + (if op = ''HealthCheck'' then length (filter (\<lambda>x. x = (name, status = ''success'')
             \<and> (status = ''success'' \<or> status = ''error'')) rs) else 0))
     \<and> (\<forall>name. backendHealthy m' name =
          (case map_of rs name of None \<Rightarrow> backendHealthy m name | Some h \<Rightarrow> Some (if h then 1 else 0)))"

lemma check_loop_answers:
  "check_loop True api xs st w = (st', w') \<Longrightarrow> \<forall>(k, b)\<in>set xs. bName b = k \<Longrightarrow> distinct (map fst xs) \<Longrightarrow>
     answers api xs (wStore w) = (rs, t) \<Longrightarrow>
     map fst rs = map fst xs \<and> wStore w' = t
   \<and> (\<forall>n. map_of st' n = (case map_of rs n of None \<Rightarrow> map_of st n | Some h \<Rightarrow> Some h))
   \<and> counted rs (wMetrics w) (wMetrics w')"
proof (induction xs arbitrary: st w rs)
  case Nil
  then show ?case by (auto simp: counted_def)
next
  case (Cons x xs)
  obtain k b where x: "x = (k, b)" by (cases x)
  have k: "bName b = k" using Cons.prems(2) by (auto simp: x)
  obtain r s1 where call: "api_ListObjectsV2 api (bClient b) (bBucket b) (health_request b) (wStore w) = (r, s1)"
    by fastforce
  obtain rs1 where rs: "rs = (k, \<not> isl r) # rs1" and an: "answers api xs s1 = (rs1, t)"
    using Cons.prems(4) by (auto simp: x call split: prod.splits)
  define w2 where "w2 = w\<lparr>wStore := s1,
    wMetrics := SetBackendHealthy k (\<not> isl r) (ObserveS3Op ''HealthCheck'' k (isl r) (wMetrics w))\<rparr>"
  have run: "check_loop True api xs (gm_put k (\<not> isl r) st) w2 = (st', w')"
    using Cons.prems(1) by (simp add: x checkBackend_def call k w2_def)
  have ih: "map fst rs1 = map fst xs" "wStore w' = t"
    "\<And>n. map_of st' n = (case map_of rs1 n of None \<Rightarrow> map_of (gm_put k (\<not> isl r) st) n | Some h \<Rightarrow> Some h)"
    "counted rs1 (wMetrics w2) (wMetrics w')"
    using Cons.IH [OF run] Cons.prems(2,3) an by (auto simp: x w2_def)
  have "k \<notin> fst ` set rs1" using Cons.prems(3) ih(1) by (metis distinct.simps(2) fst_conv list.set_map list.simps(9) x)
  then have new: "map_of rs1 k = None" by (simp add: map_of_eq_None_iff)
  have "counted rs (wMetrics w) (wMetrics w')"
    using ih(4) new
    by (auto simp: counted_def rs w2_def ObserveS3Op_def SetBackendHealthy_def Let_def split: option.split)
  with ih(1-3) new show ?case by (auto simp: rs x split: option.split)
qed

end
