(* ===== verification/ReadFence.thy ===== *)
theory ReadFence
  imports Listing FileTransfer
begin

text \<open>
  Which calls of the S3 client reading and listing make. A fence answers the head, get and
  list requests inside it from one client, and all other calls, the writing ones included,
  from another. An operation that does the same behind a fence makes no call across it.
\<close>

definition fenced :: "(client \<Rightarrow> string \<Rightarrow> string \<Rightarrow> bool) \<Rightarrow> 's s3_api \<Rightarrow> 's s3_api \<Rightarrow> 's s3_api" where
  "fenced inside api other = other\<lparr>
     api_HeadObject := (\<lambda>c b k. if inside c b k then api_HeadObject api c b k else api_HeadObject other c b k),
     api_GetObject := (\<lambda>c b k. if inside c b k then api_GetObject api c b k else api_GetObject other c b k),
     api_ListObjectsV2 := (\<lambda>c b r. if inside c b (li_Prefix r) then api_ListObjectsV2 api c b r
       else api_ListObjectsV2 other c b r)\<rparr>"

lemma fenced_in [simp]:
  "inside c b k \<Longrightarrow> api_HeadObject (fenced inside api other) c b k = api_HeadObject api c b k"
  "inside c b k \<Longrightarrow> api_GetObject (fenced inside api other) c b k = api_GetObject api c b k"
  "inside c b (li_Prefix q) \<Longrightarrow> api_ListObjectsV2 (fenced inside api other) c b q = api_ListObjectsV2 api c b q"
  by (simp_all add: fenced_def)

text \<open>A fence that leaves in all keys under the prefixes of a session's backends.\<close>

definition covers :: "(client \<Rightarrow> string \<Rightarrow> string \<Rightarrow> bool) \<Rightarrow> handlers \<Rightarrow> bool" where
  "covers inside h \<longleftrightarrow> (\<forall>name b k. lookup (hVfs h) name = Some b \<longrightarrow> prefix (bPrefix b) k
     \<longrightarrow> inside (bClient b) (bBucket b) k)"

lemma prefix_DirPrefix: "prefix (bPrefix b) (DirPrefix b rel)"
  by (cases rel rule: rev_cases; cases "bPrefix b" rule: rev_cases)
    (auto simp: DirPrefix_def ObjectKey_def trim_suffix_single butlast_append)

lemma resolved_inside:
  assumes "covers inside h" and "h_resolve h p = Inr (Some b, key)"
  shows "inside (bClient b) (bBucket b) (ObjectKey b k)" "inside (bClient b) (bBucket b) (DirPrefix b k)"
  using assms(1) h_resolve_Some [OF assms(2)] ObjectKey_prefix prefix_DirPrefix unfolding covers_def by blast+

text \<open>Two continuations of a resolution that agree on what it gives.\<close>

lemma resolve_cong:
  "(\<And>bo key. h_resolve h p = Inr (bo, key) \<Longrightarrow> f (bo, key) = g (bo, key)) \<Longrightarrow>
     bindE (liftE (h_resolve h p)) f = bindE (liftE (h_resolve h p)) g"
  by (cases "h_resolve h p") (auto simp: bindE_def liftE_def fun_eq_iff)

lemma Fileread_fenced:
  assumes "covers inside h"
  shows "Fileread h (fenced inside api other) r = Fileread h api r"
proof -
  have head: "api_HeadObject (fenced inside api other) (bClient b) (bBucket b) (ObjectKey b k)
      = api_HeadObject api (bClient b) (bBucket b) (ObjectKey b k)"
    if "h_resolve h (rFilepath r) = Inr (Some b, k)" for b k
    using resolved_inside(1) [OF assms that] by simp
  show ?thesis unfolding Fileread_def
    by (intro arg_cong2 [where f = bindE] refl ext if_cong resolve_cong)
      (simp add: head split: option.split)
qed

lemma Filelist_fenced:
  assumes "covers inside h"
  shows "Filelist h n (fenced inside api other) r = Filelist h n api r"
proof -
  let ?f = "fenced inside api other"
  have page: "nextListPage h ?f b (DirPrefix b k) d = nextListPage h api b (DirPrefix b k) d"
    if "h_resolve h p = Inr (Some b, k)" for b k p d
    using resolved_inside(2) [OF assms that]
    by (simp add: nextListPage_def list_page_def list_request_def fun_eq_iff)
  have has: "h_prefixHasEntries h ?f b (DirPrefix b k) = h_prefixHasEntries h api b (DirPrefix b k)"
    and head: "api_HeadObject ?f (bClient b) (bBucket b) (ObjectKey b k)
      = api_HeadObject api (bClient b) (bBucket b) (ObjectKey b k)"
    if "h_resolve h p = Inr (Some b, k)" for b k p
    using resolved_inside [OF assms that] by (simp_all add: h_prefixHasEntries_def PrefixHasEntries_def)
  have "listDirectory h n ?f p = listDirectory h n api p" for p
    unfolding listDirectory_def
    by (rule resolve_cong) (auto simp: page Let_def split: option.split)
  moreover have "statPath h ?f p = statPath h api p" for p
    unfolding statPath_def
    by (rule resolve_cong) (auto simp: has head split: option.split prod.split sum.split)
  ultimately show ?thesis by (simp add: Filelist_def)
qed

text \<open>The reader of an opened file, with or without a rate limit around it.\<close>

fun reader_of :: "sftp_reader \<Rightarrow> s3Reader" where
  "reader_of (PlainReader rd) = rd"
| "reader_of (RateLimitedReader rd lim) = rd"

lemma opened_reader:
  assumes "Fileread h api r w = (Inr x, w')"
  shows "\<exists>b key. h_resolve h (rFilepath r) = Inr (Some b, key) \<and> rdBackend (reader_of x) = b
    \<and> rdKey (reader_of x) = ObjectKey b key"
proof (cases "h_resolve h (rFilepath r)")
  case (Inr y)
  with assms show ?thesis
    by (cases y; cases "fst y")
      (auto simp: Fileread_def act_simps Let_def split: if_splits sum.splits prod.splits option.splits)
next
  case (Inl e)
  with assms show ?thesis by (simp add: Fileread_def act_simps split: if_splits)
qed

lemma ReadAt_fenced:
  assumes "covers inside h" and "Fileread h api r w = (Inr x, w')"
  shows "s3Reader_ReadAt (fenced inside api other) (reader_of x) = s3Reader_ReadAt api (reader_of x)"
proof -
  obtain b key where res: "h_resolve h (rFilepath r) = Inr (Some b, key)" and x: "rdBackend (reader_of x) = b"
    "rdKey (reader_of x) = ObjectKey b key"
    using opened_reader [OF assms(2)] by blast
  have get: "api_GetObject (fenced inside api other) (bClient b) (bBucket b) (ObjectKey b key)
      = api_GetObject api (bClient b) (bBucket b) (ObjectKey b key)"
    using resolved_inside(1) [OF assms(1) res] by simp
  show ?thesis by (intro ext) (simp only: s3Reader_ReadAt_def x Let_def get)
qed

end
