(* ===== verification/ServerProps.thy ===== *)
theory ServerProps
  imports Server Health LimitProps StoreProps KeyProps ReadFence
begin

text \<open>
  The properties of the running server: its books agree with its connections, the caps hold,
  it drains, and a session reaches no further than its user's configuration.
\<close>

section \<open>Who is served\<close>

definition served :: "('k, 'l) running \<Rightarrow> string \<Rightarrow> nat set" where
  "served s u = {c. \<exists>cn h. rnConns s c = Some cn \<and> cnPhase cn = Serving u h}"

definition metered :: "('k, 'l) running \<Rightarrow> nat set" where
  "metered s = {c. \<exists>cn u h. rnConns s c = Some cn \<and> cnPhase cn = Serving u h \<and> stMetrics (cnState cn)}"

definition handshaking :: "('k, 'l) running \<Rightarrow> nat set" where
  "handshaking s = {c. \<exists>cn. rnConns s c = Some cn \<and> cnPhase cn = Handshaking}"

definition books_ok :: "('k, 'l) running \<Rightarrow> bool" where
  "books_ok s \<longleftrightarrow> finite (dom (rnConns s)) \<and> set (ctConns (rnTracker s)) = dom (rnConns s)
     \<and> activeConns (rnMetrics s) = int (card (metered s)) \<and> rnWait s = int (card (dom (rnConns s)))
     \<and> (\<forall>c r. rnPending s = Some (c, r) \<longrightarrow> c \<notin> dom (rnConns s) \<and> c \<notin> set (rnClosed s))
     \<and> (rnSwept s \<longrightarrow> rnStopping s) \<and> (\<not> rnListening s \<longrightarrow> rnSwept s)"

definition caps_ok :: "('k, 'l) running \<Rightarrow> bool" where
  "caps_ok s \<longleftrightarrow> (\<forall>l u m. rnLimiter s = Some l \<longrightarrow> map_of (clLimits l) u = Some m \<longrightarrow>
     zget (clCounts l) u = int (card (served s u)) \<and> int (card (served s u)) \<le> max m 0)"

lemma served_dom: "served s u \<subseteq> dom (rnConns s)" and metered_dom: "metered s \<subseteq> dom (rnConns s)"
  by (auto simp: served_def metered_def)

lemma finite_served: "finite (dom (rnConns s)) \<Longrightarrow> finite (served s u)"
  by (rule finite_subset [OF served_dom])

lemma finite_metered: "finite (dom (rnConns s)) \<Longrightarrow> finite (metered s)"
  by (rule finite_subset [OF metered_dom])

text \<open>What each step does to who is served.\<close>

lemma removed_sel [simp]:
  "served (conn_removed c s) u = served s u - {c}" "metered (conn_removed c s) = metered s - {c}"
  "rnLimiter (conn_removed c s) = rnLimiter s" "rnMetrics (conn_removed c s) = rnMetrics s"
  "rnConns (conn_removed c s) = (rnConns s)(c := None)"
  "set (ctConns (rnTracker (conn_removed c s))) = set (ctConns (rnTracker s)) - {c}"
  "rnWait (conn_removed c s) = rnWait s - 1" "rnListening (conn_removed c s) = rnListening s"
  "rnStopping (conn_removed c s) = rnStopping s" "rnSwept (conn_removed c s) = rnSwept s"
  "rnPending (conn_removed c s) = rnPending s" "set (rnClosed (conn_removed c s)) = insert c (set (rnClosed s))"
  by (auto simp: conn_removed_def served_def metered_def ct_remove_def split: if_splits)

lemma accepted_sel [simp]:
  "rnConns s c = None \<Longrightarrow> served (conn_accepted c r s) u = served s u"
  "rnConns s c = None \<Longrightarrow> metered (conn_accepted c r s) = metered s"
  "rnLimiter (conn_accepted c r s) = rnLimiter s" "rnMetrics (conn_accepted c r s) = rnMetrics s"
  "dom (rnConns (conn_accepted c r s)) = insert c (dom (rnConns s))"
  "set (ctConns (rnTracker (conn_accepted c r s))) = insert c (set (ctConns (rnTracker s)))"
  "rnWait (conn_accepted c r s) = rnWait s + 1" "rnListening (conn_accepted c r s) = rnListening s"
  "rnStopping (conn_accepted c r s) = rnStopping s" "rnSwept (conn_accepted c r s) = rnSwept s"
  "rnPending (conn_accepted c r s) = None" "rnClosed (conn_accepted c r s) = rnClosed s"
  by (auto simp: conn_accepted_def served_def metered_def ct_add_def split: if_splits)

lemma others_sel [simp]:
  "served (s\<lparr>rnLimiter := l\<rparr>) u = served s u" "metered (s\<lparr>rnLimiter := l\<rparr>) = metered s"
  "served (s\<lparr>rnMetrics := m\<rparr>) u = served s u" "metered (s\<lparr>rnMetrics := m\<rparr>) = metered s"
  "served (install_state lib users st s) u = served s u" "metered (install_state lib users st s) = metered s"
  "served (shut_down s) u = served s u" "metered (shut_down s) = metered s"
  "served (close_listener s) u = served s u" "metered (close_listener s) = metered s"
  "served (conn_throttled c s) u = served s u" "metered (conn_throttled c s) = metered s"
  "served (conn_arrived c r s) u = served s u" "metered (conn_arrived c r s) = metered s"
  "served (context_done s) u = served s u" "metered (context_done s) = metered s"
  by (simp_all add: served_def metered_def install_state_def shut_down_def close_listener_def conn_throttled_def
      conn_arrived_def context_done_def)

lemma not_serving:
  "rnConns s c = Some cn \<Longrightarrow> cnPhase cn = Handshaking \<Longrightarrow> c \<notin> served s u \<and> c \<notin> metered s"
  by (simp add: served_def metered_def)

lemma serving:
  "rnConns s c = Some cn \<Longrightarrow> cnPhase cn = Serving u h \<Longrightarrow>
     (c \<in> served s v \<longleftrightarrow> v = u) \<and> (c \<in> metered s \<longleftrightarrow> stMetrics (cnState cn))"
  by (auto simp: served_def metered_def)

text \<open>The two outcomes of an authenticated connection.\<close>

lemma authenticated_cases:
  assumes "rnConns s c = Some cn" and "cnPhase cn = Handshaking"
    and "s' = conn_authenticated c cn user s"
  obtains (turned_away) l l' where "rnLimiter s = Some l" "Acquire user l = (False, l')"
      "s' = conn_removed c (s\<lparr>rnLimiter := Some l'\<rparr>)"
  | (let_in) lim where "case rnLimiter s of None \<Rightarrow> lim = None
      | Some l \<Rightarrow> \<exists>l'. Acquire user l = (True, l') \<and> lim = Some l'"
      "rnLimiter s' = lim" "rnTracker s' = rnTracker s" "dom (rnConns s') = dom (rnConns s)"
      "\<And>v. served s' v = (if v = user then insert c (served s v) else served s v)"
      "metered s' = (if stMetrics (cnState cn) then insert c (metered s) else metered s)"
      "rnMetrics s' = (if stMetrics (cnState cn) then ConnectionOpened (rnMetrics s) else rnMetrics s)"
      "rnWait s' = rnWait s" "rnListening s' = rnListening s" "rnStopping s' = rnStopping s"
      "rnSwept s' = rnSwept s" "rnPending s' = rnPending s" "rnClosed s' = rnClosed s"
      "handshaking s' = handshaking s - {c}"
proof -
  define x where "x = (case rnLimiter s of None \<Rightarrow> (True, None)
            | Some l \<Rightarrow> (case Acquire user l of (ok, l) \<Rightarrow> (ok, Some l)))"
  obtain ok lim where x2: "x = (ok, lim)" by (cases x)
  show ?thesis
  proof (cases ok)
    case False
    with x2 obtain l l' where l: "rnLimiter s = Some l" "Acquire user l = (False, l')" "lim = Some l'"
      by (auto simp: x_def split: option.splits prod.splits)
    have "s' = conn_removed c (s\<lparr>rnLimiter := Some l'\<rparr>)"
      using assms(3) l by (simp add: conn_authenticated_def)
    with l(1,2) show ?thesis by (rule turned_away)
  next
    case True
    have lim: "case rnLimiter s of None \<Rightarrow> lim = None
      | Some l \<Rightarrow> \<exists>l'. Acquire user l = (True, l') \<and> lim = Some l'"
      using x2 True by (auto simp: x_def split: option.splits prod.splits)
    have s': "s' = s\<lparr>rnLimiter := lim,
            rnMetrics := (if stMetrics (cnState cn) then ConnectionOpened (rnMetrics s) else rnMetrics s),
            rnConns := (rnConns s)(c \<mapsto> cn\<lparr>cnPhase :=
              Serving user (session_handlers (cnState cn) (rnRegistry s) user (cnRemote cn))\<rparr>)\<rparr>"
      using assms(3) x2 True by (simp add: conn_authenticated_def flip: x_def)
    show ?thesis
      by (rule let_in [OF lim]) (use assms(1,2) in \<open>auto simp: s' served_def metered_def handshaking_def split: if_splits\<close>)
  qed
qed

section \<open>The books\<close>

lemma foldl_insert: "set (foldl (\<lambda>xs c. List.insert c xs) ys cs) = set cs \<union> set ys"
  by (induction cs arbitrary: ys) auto

lemma card_less: "finite (dom f) \<Longrightarrow> f c = Some x \<Longrightarrow> int (card (dom f - {c})) = int (card (dom f)) - 1"
  using card_gt_0_iff [of "dom f"] by (auto simp: card_Diff_singleton domI of_nat_diff)

lemma books_step: "server_step lib kd s s' \<Longrightarrow> books_ok s \<Longrightarrow> books_ok s'"
proof (induction rule: server_step.induct)
  case (arrive s c remote)
  then show ?case by (auto simp: books_ok_def conn_arrived_def metered_def)
next
  case (throttled s c remote)
  then show ?case by (simp add: books_ok_def conn_throttled_def metered_def)
next
  case (accept s c remote)
  then show ?case by (simp add: books_ok_def domIff)
next
  case (handshake_failed s c cn)
  then show ?case using not_serving [of s c cn] by (auto simp: books_ok_def card_less)
next
  case (authenticated s c cn user)
  obtain s' where s': "s' = conn_authenticated c cn user s" by simp
  from authenticated.hyps s' have "books_ok s'"
  proof (cases rule: authenticated_cases)
    case (turned_away l l')
    then show ?thesis
      using authenticated.prems not_serving [OF authenticated.hyps] authenticated.hyps(1)
      by (auto simp: books_ok_def card_less)
  next
    case (let_in lim)
    then show ?thesis
      using authenticated.prems not_serving [OF authenticated.hyps] finite_metered [of s]
      by (auto simp: books_ok_def ConnectionOpened_def)
  qed
  then show ?case by (simp add: s')
next
  case (finished s c cn user h)
  note sv = serving [OF finished.hyps]
  have fin: "finite (metered s)" using finished.prems finite_metered [of s] by (simp add: books_ok_def)
  have "c \<in> metered s \<Longrightarrow> 0 < card (metered s)" using fin by (auto simp: card_gt_0_iff)
  moreover have "finite (dom (rnConns s)) \<Longrightarrow> 0 < card (dom (rnConns s))"
    using finished.hyps(1) by (auto simp: card_gt_0_iff)
  ultimately show ?case
    using finished.prems sv fin domI [of "rnConns s", OF finished.hyps(1)]
    by (auto simp: books_ok_def conn_finished_def ConnectionClosed_def card_Diff_singleton_if of_nat_diff)
next
  case (reloaded s users st)
  have "rnConns (install_state lib users st s) = rnConns s" "rnTracker (install_state lib users st s) = rnTracker s"
    "rnMetrics (install_state lib users st s) = rnMetrics s" "rnWait (install_state lib users st s) = rnWait s"
    "rnListening (install_state lib users st s) = rnListening s"
    "rnStopping (install_state lib users st s) = rnStopping s" "rnSwept (install_state lib users st s) = rnSwept s"
    "rnPending (install_state lib users st s) = rnPending s" "rnClosed (install_state lib users st s) = rnClosed s"
    by (simp_all add: install_state_def)
  with reloaded show ?case by (simp add: books_ok_def)
next
  case (stopping s)
  then show ?case by (auto simp: books_ok_def context_done_def metered_def)
next
  case (shutdown s)
  have "rnConns (shut_down s) = rnConns s" "rnTracker (shut_down s) = rnTracker s"
    "rnMetrics (shut_down s) = rnMetrics s" "rnWait (shut_down s) = rnWait s" "rnPending (shut_down s) = rnPending s"
    "rnListening (shut_down s) = rnListening s" "rnStopping (shut_down s) = rnStopping s" "rnSwept (shut_down s)"
    "set (rnClosed (shut_down s)) = set (ctConns (rnTracker s)) \<union> set (rnClosed s)"
    by (simp_all add: shut_down_def ct_closeAll_def foldl_insert)
  with shutdown show ?case by (auto simp: books_ok_def domIff)
next
  case (listener_closed s)
  then show ?case by (simp add: books_ok_def close_listener_def metered_def)
qed

section \<open>The caps\<close>

text \<open>How the limiter's answer moves its counts, from the laws of its interface.\<close>

lemma Acquire_counts:
  assumes "Acquire u l = (ok, l')" and "map_of (clLimits l') v = Some m"
  shows "map_of (clLimits l) v = Some m"
    and "zget (clCounts l') v = zget (clCounts l) v + (if ok \<and> v = u then 1 else 0)"
    and "ok \<Longrightarrow> v = u \<Longrightarrow> zget (clCounts l) v < m"
proof -
  note ac = conns.acquire_cases [OF assms(1), unfolded conn_cap_def conn_active_def]
  show m: "map_of (clLimits l) v = Some m" using ac(1) assms(2) by (simp add: fun_eq_iff)
  show "zget (clCounts l') v = zget (clCounts l) v + (if ok \<and> v = u then 1 else 0)"
    using ac(2,4) m by (cases ok; cases "map_of (clLimits l) u") auto
  show "zget (clCounts l) v < m" if "ok" "v = u" using ac(3) m that by auto
qed

lemma ConnStep_cases:
  assumes "server_step lib ConnStep s s'"
  obtains (arrive) c remote where "s' = conn_arrived c remote s" "rnPending s = None" "rnListening s"
  | (throttled) c remote where "s' = conn_throttled c s" "rnPending s = Some (c, remote)"
  | (accept) c remote where "s' = conn_accepted c remote s" "rnPending s = Some (c, remote)"
  | (handshake_failed) c cn where "s' = conn_removed c s" "rnConns s c = Some cn" "cnPhase cn = Handshaking"
  | (authenticated) c cn user where "s' = conn_authenticated c cn user s" "rnConns s c = Some cn"
      "cnPhase cn = Handshaking"
  | (finished) c cn user h where "s' = conn_finished c cn user s" "rnConns s c = Some cn"
      "cnPhase cn = Serving user h"
  using assms by (rule ConnStepE) blast+

lemma caps_step:
  assumes "server_step lib ConnStep s s'" and "books_ok s" and "caps_ok s"
  shows "caps_ok s'"
proof -
  have fin: "finite (dom (rnConns s))" using assms(2) by (simp add: books_ok_def)
  show ?thesis
  using assms(1)
proof (cases rule: ConnStep_cases)
  case (arrive c remote)
  have "rnLimiter (conn_arrived c remote s) = rnLimiter s" by (simp add: conn_arrived_def)
  with arrive show ?thesis using assms(3) by (simp add: caps_ok_def)
next
  case (accept c remote)
  then have "rnConns s c = None" using assms(2) by (auto simp: books_ok_def)
  then show ?thesis using accept assms(3) by (simp add: caps_ok_def)
next
  case (throttled c remote)
  have "rnLimiter (conn_throttled c s) = rnLimiter s" by (simp add: conn_throttled_def)
  with throttled show ?thesis using assms(3) by (simp add: caps_ok_def)
next
  case (handshake_failed c cn)
  then show ?thesis using assms(3) not_serving [of s c cn] by (simp add: caps_ok_def)
next
  case (authenticated c cn user)
  note ns = not_serving [OF authenticated(2,3)]
  from authenticated(2,3,1) show ?thesis
  proof (cases rule: authenticated_cases)
    case (turned_away l l')
    show ?thesis unfolding caps_ok_def
    proof (intro allI impI)
      fix l2 v m assume "rnLimiter s' = Some l2" and m: "map_of (clLimits l2) v = Some m"
      then have "l2 = l'" by (simp add: turned_away)
      with Acquire_counts [OF turned_away(2)] m assms(3) turned_away(1) ns
      show "zget (clCounts l2) v = int (card (served s' v)) \<and> int (card (served s' v)) \<le> max m 0"
        by (simp add: caps_ok_def turned_away(3))
    qed
  next
    case (let_in lim)
    show ?thesis unfolding caps_ok_def
    proof (intro allI impI)
      fix l2 v m assume l2: "rnLimiter s' = Some l2" and m: "map_of (clLimits l2) v = Some m"
      then obtain l where l: "rnLimiter s = Some l" "Acquire user l = (True, l2)"
        using let_in(1,2) by (auto split: option.splits)
      note ac = Acquire_counts [OF l(2) m]
      have old: "zget (clCounts l) v = int (card (served s v)) \<and> int (card (served s v)) \<le> max m 0"
        using assms(3) l(1) ac(1) by (simp add: caps_ok_def)
      show "zget (clCounts l2) v = int (card (served s' v)) \<and> int (card (served s' v)) \<le> max m 0"
        using old ac(2,3) ns finite_served [OF fin, of v] by (auto simp: let_in(5))
    qed
  qed
next
  case (finished c cn user h)
  note sv = serving [OF finished(2,3)]
  show ?thesis unfolding caps_ok_def
  proof (intro allI impI)
    fix l2 v m assume "rnLimiter s' = Some l2" and m: "map_of (clLimits l2) v = Some m"
    then obtain l where l: "rnLimiter s = Some l" "l2 = Release user l"
      by (auto simp: finished(1) conn_finished_def)
    have m': "map_of (clLimits l) v = Some m"
      using m conns.release_cap [of user l] by (simp add: l(2) conn_cap_def fun_eq_iff)
    have old: "zget (clCounts l) v = int (card (served s v)) \<and> int (card (served s v)) \<le> max m 0"
      using assms(3) l(1) m' by (simp add: caps_ok_def)
    have cnt: "zget (clCounts l2) = (if 0 < zget (clCounts l) user
        then (zget (clCounts l))(user := zget (clCounts l) user - 1) else zget (clCounts l))"
      using conns.release_active [of user l] by (simp add: l(2) conn_active_def)
    have new: "served s' v = served s v - {c}" by (simp add: finished(1) conn_finished_def)
    have fin: "finite (served s v)" by (rule finite_served [OF fin])
    show "zget (clCounts l2) v = int (card (served s' v)) \<and> int (card (served s' v)) \<le> max m 0"
    proof (cases "v = user")
      case True
      then have c: "c \<in> served s v" using sv by simp
      with fin have "0 < card (served s v)" by (auto simp: card_gt_0_iff)
      with old True c fin show ?thesis by (auto simp: cnt new [unfolded True] of_nat_diff)
    next
      case False
      then have "c \<notin> served s v" using sv by simp
      with old False show ?thesis by (simp add: cnt new)
    qed
  qed
qed
qed

lemma caps_shutdown:
  "caps_ok s \<Longrightarrow> caps_ok (context_done s) \<and> caps_ok (shut_down s) \<and> caps_ok (close_listener s)"
proof -
  assume "caps_ok s"
  moreover have "rnLimiter (shut_down s) = rnLimiter s" "rnLimiter (close_listener s) = rnLimiter s"
    "rnLimiter (context_done s) = rnLimiter s"
    by (simp_all add: shut_down_def close_listener_def context_done_def)
  ultimately show ?thesis by (simp add: caps_ok_def)
qed

lemma books_steps: "(any_step lib)\<^sup>*\<^sup>* s s' \<Longrightarrow> books_ok s \<Longrightarrow> books_ok s'"
  by (induction rule: rtranclp_induct) (auto simp: any_step_def intro: books_step)

text \<open>Without a reload the limits stay what they were.\<close>

definition limits_are :: "(string, int) gomap \<Rightarrow> ('k, 'l) running \<Rightarrow> bool" where
  "limits_are ls s \<longleftrightarrow> (\<forall>l. rnLimiter s = Some l \<longrightarrow> clLimits l = ls)"

lemma Acquire_limits: "Acquire u l = (ok, l') \<Longrightarrow> clLimits l' = clLimits l"
  by (auto simp: Acquire_def split: option.splits if_splits)

lemma Release_limits: "clLimits (Release u l) = clLimits l"
  by (simp add: Release_def)

lemma limits_step: "server_step lib ConnStep s s' \<Longrightarrow> limits_are ls s \<Longrightarrow> limits_are ls s'"
proof (elim ConnStep_cases)
  fix c cn user assume ls: "limits_are ls s" and c: "rnConns s c = Some cn" "cnPhase cn = Handshaking"
    and s': "s' = conn_authenticated c cn user s"
  from c s' show ?thesis
  proof (cases rule: authenticated_cases)
    case (turned_away l l')
    then show ?thesis using ls Acquire_limits [OF turned_away(2)] by (simp add: limits_are_def)
  next
    case (let_in lim)
    then show ?thesis using ls Acquire_limits by (fastforce simp: limits_are_def split: option.splits)
  qed
qed (auto simp: limits_are_def conn_finished_def conn_throttled_def conn_arrived_def Release_limits)

lemma calm_cases: "calm_step lib s s' \<Longrightarrow> server_step lib ConnStep s s'
    \<or> server_step lib ShutdownStep s s' \<and> (s' = context_done s \<or> s' = shut_down s \<or> s' = close_listener s)"
  unfolding calm_step_def by (auto elim: server_step.cases)

lemma caps_steps:
  "(calm_step lib)\<^sup>*\<^sup>* s s' \<Longrightarrow> books_ok s \<Longrightarrow> caps_ok s \<Longrightarrow> limits_are ls s \<Longrightarrow>
     books_ok s' \<and> caps_ok s' \<and> limits_are ls s'"
proof (induction rule: rtranclp_induct)
  case (step t t')
  then have t: "books_ok t" "caps_ok t" "limits_are ls t" by simp_all
  from calm_cases [OF step.hyps(2)] show ?case
  proof
    assume c: "server_step lib ConnStep t t'"
    with t show ?thesis by (blast intro: books_step caps_step limits_step)
  next
    assume t': "server_step lib ShutdownStep t t' \<and> (t' = context_done t \<or> t' = shut_down t \<or> t' = close_listener t)"
    have "rnLimiter (shut_down t) = rnLimiter t" "rnLimiter (close_listener t) = rnLimiter t"
      "rnLimiter (context_done t) = rnLimiter t"
      by (simp_all add: shut_down_def close_listener_def context_done_def)
    with t t' show ?thesis
      using books_step [of lib ShutdownStep t] caps_shutdown [OF t(2)] by (auto simp: limits_are_def)
  qed
qed simp

lemma start_ok:
  assumes "activeConns m = 0"
  shows "books_ok (start_running st lim reg m)"
    and "caps_ok (start_running st (Some (NewUserConnLimiter users)) reg m)"
    and "limits_are (conn_limits users []) (start_running st (Some (NewUserConnLimiter users)) reg m)"
  using assms
  by (simp_all add: books_ok_def caps_ok_def limits_are_def start_running_def served_def metered_def
      NewUserConnLimiter_def connLimiter_Update_def zget_def)

lemma ConnSteps_calm: "(server_step lib ConnStep)\<^sup>*\<^sup>* s t \<Longrightarrow> (calm_step lib)\<^sup>*\<^sup>* s t"
  by (rule rtranclp_mono [THEN predicate2D]) (auto simp: calm_step_def)

lemma ConnSteps_any: "(server_step lib ConnStep)\<^sup>*\<^sup>* s t \<Longrightarrow> (any_step lib)\<^sup>*\<^sup>* s t"
  by (rule rtranclp_mono [THEN predicate2D]) (auto simp: any_step_def)

text \<open>
  C9: The books of the server. After any run of connections, reloads and a shutdown, the
  connections tracked for the shutdown are those being handled, and the gauge of active
  connections counts the sessions served. Without a reload, each user with a limit has as many
  connections counted by the limiter as sessions served, and never more than the limit.
\<close>

theorem server_books:
  assumes "activeConns m = 0"
    and start: "start = start_running st (Some (NewUserConnLimiter users)) reg m"
    and "(any_step lib)\<^sup>*\<^sup>* start s"
  shows "set (ctConns (rnTracker s)) = dom (rnConns s) \<and> activeConns (rnMetrics s) = int (card (metered s))
    \<and> ((calm_step lib)\<^sup>*\<^sup>* start s \<longrightarrow>
        (\<forall>l u mx. rnLimiter s = Some l \<longrightarrow> map_of (clLimits l) u = Some mx \<longrightarrow>
          zget (clCounts l) u = int (card (served s u)) \<and> int (card (served s u)) \<le> mx))"
proof -
  note ok = start_ok [OF assms(1), where st = st and reg = reg]
  have s: "books_ok s" using books_steps [OF assms(3)] ok(1) by (simp add: start)
  have "zget (clCounts l) u = int (card (served s u)) \<and> int (card (served s u)) \<le> mx"
    if calm: "(calm_step lib)\<^sup>*\<^sup>* start s" and l: "rnLimiter s = Some l" "map_of (clLimits l) u = Some mx"
    for l u mx
  proof -
    have t: "caps_ok s \<and> limits_are (conn_limits users []) s"
      using caps_steps [OF calm [unfolded start] ok] by blast
    then have "0 < mx" using conn_limits_pos [of "[]" users u mx] l by (simp add: limits_are_def)
    with t l show ?thesis unfolding caps_ok_def by fastforce
  qed
  with s show ?thesis unfolding books_ok_def by blast
qed

text \<open>A server in which one user, with a limit of one connection, is served.\<close>

definition sample_state :: "string server_state" where
  "sample_state = \<lparr>stCfg = sshid_config,
     stSigner = \<lparr>sgType = ''ssh-ed25519'', sgSign = Inr, sgSignWithAlgorithm = Some (\<lambda>d a. Inr d)\<rparr>,
     stSsh = sample_ssh, stVfs = \<lparr>Backends = []\<rparr>, stTracker = sample_tracker, stMetrics = True\<rparr>"

definition sample_start :: "(string, int \<times> int) running" where
  "sample_start = start_running sample_state (Some (NewUserConnLimiter [alice 1])) None NewMetrics"

definition sample_tracked :: "(string, int \<times> int) running" where
  "sample_tracked = conn_accepted 7 ''10.0.0.1:99'' (conn_arrived 7 ''10.0.0.1:99'' sample_start)"

definition sample_served :: "(string, int \<times> int) running" where
  "sample_served = conn_authenticated 7
     \<lparr>cnState = sample_state, cnRemote = ''10.0.0.1:99'', cnPhase = Handshaking\<rparr> ''alice'' sample_tracked"

lemma sample_served_run:
  "(server_step pair_lib ConnStep)\<^sup>*\<^sup>* sample_start sample_served"
proof -
  have "server_step pair_lib ConnStep sample_start (conn_arrived 7 ''10.0.0.1:99'' sample_start)"
    by (rule server_step.arrive) (simp_all add: sample_start_def start_running_def)
  moreover have "server_step pair_lib ConnStep (conn_arrived 7 ''10.0.0.1:99'' sample_start) sample_tracked"
    unfolding sample_tracked_def by (rule server_step.accept) (simp add: conn_arrived_def)
  moreover have "server_step pair_lib ConnStep sample_tracked sample_served"
    unfolding sample_served_def
    by (rule server_step.authenticated)
      (simp_all add: sample_tracked_def conn_accepted_def conn_arrived_def sample_start_def start_running_def)
  ultimately show ?thesis by (meson r_into_rtranclp rtranclp.rtrancl_into_rtrancl)
qed

lemma sample_served_limit: "\<exists>l. rnLimiter sample_served = Some l \<and> map_of (clLimits l) ''alice'' = Some 1"
proof -
  have "map_option (\<lambda>l. map_of (clLimits l) ''alice'') (rnLimiter sample_served) = Some (Some 1)"
    by code_simp
  then show ?thesis by auto
qed

theorem server_books_witness:
  "set (ctConns (rnTracker sample_served)) = {7} \<and> int (card (metered sample_served)) = 1
   \<and> int (card (served sample_served ''alice'')) \<le> 1"
proof -
  have m: "activeConns NewMetrics = 0" by (simp add: NewMetrics_def)
  note b = server_books [OF m sample_start_def ConnSteps_any [OF sample_served_run]]
  have "set (ctConns (rnTracker sample_served)) = {7}" by code_simp
  moreover have "activeConns (rnMetrics sample_served) = 1" by code_simp
  ultimately show ?thesis
    using b ConnSteps_calm [OF sample_served_run] sample_served_limit by fastforce
qed

section \<open>Draining\<close>

text \<open>
  The steps left to the connections under way: a connection the loop holds has three, a
  handshake two, a session one.
\<close>

definition work :: "('k, 'l) running \<Rightarrow> nat" where
  "work s = card (dom (rnConns s)) + card (handshaking s) + (if rnPending s = None then 0 else 3)"

lemma handshaking_dom: "handshaking s \<subseteq> dom (rnConns s)"
  by (auto simp: handshaking_def)

lemma removed_handshaking: "handshaking (conn_removed c s) = handshaking s - {c}"
  by (auto simp: handshaking_def conn_removed_def split: if_splits)

lemma accepted_handshaking: "handshaking (conn_accepted c r s) = insert c (handshaking s)"
  by (auto simp: handshaking_def conn_accepted_def split: if_splits)

lemma work_step:
  assumes "server_step lib ConnStep s s'" and "books_ok s" and "\<not> rnListening s"
  shows "work s' < work s" and "\<not> rnListening s'"
proof -
  have fin: "finite (dom (rnConns s))" using assms(2) by (simp add: books_ok_def)
  then have fh: "finite (handshaking s)" by (rule finite_subset [OF handshaking_dom])
  have less: "card (dom (rnConns s) - {c}) < card (dom (rnConns s))" if "rnConns s c = Some cn" for c cn
    using fin that by (intro card_Diff1_less) auto
  have le: "card (handshaking s - {c}) \<le> card (handshaking s)" for c using fh by (intro card_mono) auto
  have "work s' < work s \<and> \<not> rnListening s'"
    using assms(1)
  proof (cases rule: ConnStep_cases)
    case (throttled c remote)
    have "handshaking s' = handshaking s" by (simp add: throttled(1) handshaking_def conn_throttled_def)
    then show ?thesis using assms(3) throttled(2) by (simp add: work_def throttled(1) conn_throttled_def)
  next
    case (accept c remote)
    then have "rnConns s c = None" using assms(2) by (auto simp: books_ok_def)
    then have "c \<notin> dom (rnConns s)" by (simp add: domIff)
    moreover have "c \<notin> handshaking s" using calculation handshaking_dom by blast
    ultimately show ?thesis
      using assms(3) fin fh accept(2) by (simp add: work_def accept(1) accepted_handshaking)
  next
    case (handshake_failed c cn)
    then show ?thesis
      using assms(3) add_less_le_mono [OF less le] by (auto simp: work_def removed_handshaking)
  next
    case (finished c cn u h)
    have "handshaking s' = handshaking s - {c}"
      unfolding finished(1) conn_finished_def removed_handshaking by (simp add: handshaking_def)
    then show ?thesis
      using assms(3) finished add_less_le_mono [OF less le] by (auto simp: work_def conn_finished_def)
  next
    case (authenticated c cn user)
    have hs: "card (handshaking s - {c}) < card (handshaking s)"
      using fh authenticated(2,3) by (intro card_Diff1_less) (auto simp: handshaking_def)
    from authenticated(2,3,1) show ?thesis
    proof (cases rule: authenticated_cases)
      case (turned_away l l')
      have "handshaking s' = handshaking s - {c}"
        unfolding turned_away(3) removed_handshaking by (simp add: handshaking_def)
      then show ?thesis
        using assms(3) add_less_le_mono [OF less le] authenticated(2) by (auto simp: work_def turned_away(3))
    next
      case (let_in lim)
      then show ?thesis using assms(3) hs by (simp add: work_def)
    qed
  qed (use assms(3) in simp_all)
  then show "work s' < work s" and "\<not> rnListening s'" by simp_all
qed

lemma work_steps:
  "(server_step lib ConnStep ^^ n) s t \<Longrightarrow> books_ok s \<Longrightarrow> \<not> rnListening s \<Longrightarrow>
     n + work t \<le> work s \<and> books_ok t \<and> \<not> rnListening t"
proof (induction n arbitrary: t)
  case (Suc n)
  then obtain u where u: "(server_step lib ConnStep ^^ n) s u" "server_step lib ConnStep u t" by auto
  with Suc have "n + work u \<le> work s" "books_ok u" "\<not> rnListening u" by auto
  with work_step [OF u(2)] books_step [OF u(2)] show ?case by auto
qed simp

lemma conn_has_step:
  assumes "rnConns s c = Some cn"
  shows "\<exists>s'. server_step lib ConnStep s s'"
  using assms by (cases "cnPhase cn") (auto intro: server_step.intros)

lemma pending_has_step:
  assumes "rnPending s \<noteq> None"
  shows "\<exists>s'. server_step lib ConnStep s s'"
  using assms by (auto intro: server_step.intros)

text \<open>The sweep of the shutdown: it happens once, and what it has closed stays closed.\<close>

lemma authenticated_closed:
  "rnSwept (conn_authenticated c cn user s) = rnSwept s"
  "set (rnClosed s) \<subseteq> set (rnClosed (conn_authenticated c cn user s))"
  by (auto simp: conn_authenticated_def split: option.split prod.split bool.split)

lemma swept_step:
  "server_step lib kd s s' \<Longrightarrow> rnSwept s' \<Longrightarrow>
     rnSwept s \<or> s' = shut_down s \<and> rnStopping s \<and> \<not> rnSwept s"
  by (induction rule: server_step.induct)
    (auto simp: authenticated_closed conn_finished_def conn_arrived_def conn_throttled_def
      install_state_def context_done_def close_listener_def)

lemma closed_step: "server_step lib kd s s' \<Longrightarrow> set (rnClosed s) \<subseteq> set (rnClosed s')"
  by (induction rule: server_step.induct)
    (auto simp: subsetD [OF authenticated_closed(2)] conn_finished_def conn_arrived_def conn_throttled_def install_state_def
      context_done_def close_listener_def shut_down_def ct_closeAll_def foldl_insert)

lemma closed_steps: "(any_step lib)\<^sup>*\<^sup>* s s' \<Longrightarrow> set (rnClosed s) \<subseteq> set (rnClosed s')"
  by (induction rule: rtranclp_induct) (auto simp: any_step_def dest: closed_step)

lemma swept_once:
  "(any_step lib)\<^sup>*\<^sup>* s s' \<Longrightarrow> \<not> rnSwept s \<Longrightarrow> rnSwept s' \<Longrightarrow>
     \<exists>s0. (any_step lib)\<^sup>*\<^sup>* s s0 \<and> \<not> rnSwept s0 \<and> (any_step lib)\<^sup>*\<^sup>* (shut_down s0) s'"
proof (induction rule: rtranclp_induct)
  case (step t t')
  then obtain kd where kd: "server_step lib kd t t'" by (auto simp: any_step_def)
  show ?case
  proof (cases "rnSwept t")
    case True
    with step show ?thesis by (meson rtranclp.rtrancl_into_rtrancl)
  next
    case False
    with swept_step [OF kd step.prems(2)] have "t' = shut_down t" by blast
    with step.hyps(1) False show ?thesis by blast
  qed
qed simp

text \<open>
  C30: The server drains. From every state it can reach in which the listener is closed, also
  after reloads: however the connections go on, they take no more steps than there are left to
  them, three of one the accept loop still holds, two of a handshake and one of a session; and
  when none is left, \<open>Run\<close> returns without its timeout, nothing is tracked and the gauge of
  active connections is at zero. After a run without a reload the limiter then counts no
  connection of any user with a limit. On the way to such a state the shutdown has closed the
  tracked connections once, and every connection that was being handled then is closed; of one
  that was tracked after that nothing is said (the code does not close it).
\<close>

theorem server_drains:
  assumes "activeConns m = 0"
    and start: "start = start_running st (Some (NewUserConnLimiter users)) reg m"
    and "(any_step lib)\<^sup>*\<^sup>* start s" and "\<not> rnListening s" and "(server_step lib ConnStep ^^ n) s t"
  shows "n \<le> work s
    \<and> (\<exists>s0. (any_step lib)\<^sup>*\<^sup>* start s0 \<and> \<not> rnSwept s0 \<and> (any_step lib)\<^sup>*\<^sup>* (shut_down s0) s
        \<and> dom (rnConns s0) \<subseteq> set (rnClosed s))
    \<and> ((\<nexists>u. server_step lib ConnStep t u) \<longrightarrow>
        Run_returns False t \<and> rnConns t = (\<lambda>_. None) \<and> ctConns (rnTracker t) = []
        \<and> activeConns (rnMetrics t) = 0
        \<and> ((calm_step lib)\<^sup>*\<^sup>* start s \<longrightarrow> (\<forall>l u mx. rnLimiter t = Some l \<longrightarrow>
              map_of (clLimits l) u = Some mx \<longrightarrow> zget (clCounts l) u = 0)))"
proof -
  note ok = start_ok [OF assms(1), where st = st and reg = reg]
  have b0: "books_ok x" if "(any_step lib)\<^sup>*\<^sup>* start x" for x
    using books_steps [OF that] ok(1) by (simp add: start)
  have s: "books_ok s" by (rule b0 [OF assms(3)])
  note w = work_steps [OF assms(5) s assms(4)]
  have "rnSwept s" using s assms(4) by (simp add: books_ok_def)
  moreover have "\<not> rnSwept start" by (simp add: start start_running_def)
  ultimately obtain s0 where s0: "(any_step lib)\<^sup>*\<^sup>* start s0" "\<not> rnSwept s0"
      "(any_step lib)\<^sup>*\<^sup>* (shut_down s0) s"
    using swept_once [OF assms(3)] by blast
  have "dom (rnConns s0) \<subseteq> set (rnClosed (shut_down s0))"
    using b0 [OF s0(1)] by (simp add: books_ok_def shut_down_def ct_closeAll_def foldl_insert)
  with closed_steps [OF s0(3)] have closed: "dom (rnConns s0) \<subseteq> set (rnClosed s)" by blast
  have drained: "Run_returns False t \<and> rnConns t = (\<lambda>_. None) \<and> ctConns (rnTracker t) = []
      \<and> activeConns (rnMetrics t) = 0 \<and> (\<forall>u. served t u = {})"
    if "\<nexists>u. server_step lib ConnStep t u"
  proof -
    have no: "rnConns t = (\<lambda>_. None)" using conn_has_step that by (metis not_None_eq)
    moreover have "rnPending t = None" using pending_has_step that by blast
    moreover have "metered t = {}" "\<And>u. served t u = {}" using no by (simp_all add: metered_def served_def)
    ultimately show ?thesis using w by (simp add: books_ok_def Run_returns_def)
  qed
  have "caps_ok t" if "(calm_step lib)\<^sup>*\<^sup>* start s"
  proof -
    have "(calm_step lib)\<^sup>*\<^sup>* start t"
      using that ConnSteps_calm [OF relpowp_imp_rtranclp [OF assms(5)]] by (rule rtranclp_trans)
    then show ?thesis using caps_steps ok by (metis start)
  qed
  with drained w s0 closed show ?thesis unfolding caps_ok_def by fastforce
qed

text \<open>The one session of the sample ends after the shutdown, and the server returns.\<close>

definition sample_swept :: "(string, int \<times> int) running" where
  "sample_swept = shut_down (context_done sample_served)"

definition sample_closed :: "(string, int \<times> int) running" where
  "sample_closed = close_listener sample_swept"

definition sample_ended :: "(string, int \<times> int) running" where
  "sample_ended = conn_finished 7 (the (rnConns sample_closed 7)) ''alice'' sample_closed"

lemma sample_closed_run: "(calm_step pair_lib)\<^sup>*\<^sup>* sample_start sample_closed"
proof -
  have flags: "\<not> rnStopping sample_served" "\<not> rnSwept sample_served" "rnListening sample_served"
    by code_simp+
  have "calm_step pair_lib sample_served (context_done sample_served)"
    "calm_step pair_lib (context_done sample_served) sample_swept"
    "calm_step pair_lib sample_swept sample_closed"
    unfolding calm_step_def sample_closed_def sample_swept_def
    by (intro exI [of _ ShutdownStep] conjI server_step.intros;
        simp add: shut_down_def context_done_def flags)+
  with ConnSteps_calm [OF sample_served_run] show ?thesis
    by (meson rtranclp.rtrancl_into_rtrancl)
qed

lemma calm_any: "(calm_step lib)\<^sup>*\<^sup>* s t \<Longrightarrow> (any_step lib)\<^sup>*\<^sup>* s t"
  by (rule rtranclp_mono [THEN predicate2D]) (auto simp: any_step_def calm_step_def)

lemma sample_closed_conn: "rnConns sample_closed 7 = Some (the (rnConns sample_closed 7))"
  "\<exists>h. cnPhase (the (rnConns sample_closed 7)) = Serving ''alice'' h"
proof -
  have "rnConns sample_closed 7 \<noteq> None" by code_simp
  then show "rnConns sample_closed 7 = Some (the (rnConns sample_closed 7))" by simp
  have "(case cnPhase (the (rnConns sample_closed 7)) of Handshaking \<Rightarrow> False | Serving u h \<Rightarrow> u = ''alice'')"
    by code_simp
  then show "\<exists>h. cnPhase (the (rnConns sample_closed 7)) = Serving ''alice'' h" by (simp split: phase.splits)
qed

theorem server_drains_witness:
  "1 \<le> work sample_closed \<and> Run_returns False sample_ended \<and> 7 \<in> set (rnClosed sample_closed)"
proof -
  have m: "activeConns NewMetrics = 0" by (simp add: NewMetrics_def)
  have off: "\<not> rnListening sample_closed" by (simp add: sample_closed_def close_listener_def)
  have "server_step pair_lib ConnStep sample_closed sample_ended"
    unfolding sample_ended_def using server_step.finished [OF sample_closed_conn(1)] sample_closed_conn(2) by blast
  then have one: "(server_step pair_lib ConnStep ^^ 1) sample_closed sample_ended"
    by (auto intro!: relcomppI)
  note d = server_drains [OF m sample_start_def calm_any [OF sample_closed_run] off one]
  have "set (ctConns (rnTracker sample_served)) = {7}" by code_simp
  moreover have "books_ok sample_served"
    by (rule books_steps [OF ConnSteps_any [OF sample_served_run [unfolded sample_start_def]] start_ok(1) [OF m]])
  ultimately have "dom (rnConns sample_closed) = {7}"
    by (simp add: books_ok_def sample_closed_def sample_swept_def close_listener_def shut_down_def context_done_def)
  then have "dom (rnConns sample_ended) = {}" by (simp add: sample_ended_def conn_finished_def)
  then have none: "rnConns sample_ended = (\<lambda>_. None)" by simp
  have pend: "rnPending sample_ended = None" by code_simp
  have "\<nexists>u. server_step pair_lib ConnStep sample_ended u"
  proof
    assume "\<exists>u. server_step pair_lib ConnStep sample_ended u"
    then obtain u where u: "server_step pair_lib ConnStep sample_ended u" by blast
    have "\<not> rnListening sample_ended" using off by (simp add: sample_ended_def conn_finished_def)
    with none pend u show False by (auto elim: ConnStep_cases)
  qed
  with d have "Run_returns False sample_ended" "1 \<le> work sample_closed" by blast+
  moreover have "7 \<in> set (rnClosed sample_closed)" by code_simp
  ultimately show ?thesis by blast
qed

text \<open>
  A connection that the loop holds when the shutdown sweeps is tracked after it, and no step of
  the shutdown closes it.
\<close>

lemma late_connection_open:
  "\<exists>s :: (string, int \<times> int) running. (any_step pair_lib)\<^sup>*\<^sup>* sample_start s \<and> \<not> rnListening s
     \<and> rnConns s 8 \<noteq> None \<and> 8 \<notin> set (rnClosed s)"
proof -
  let ?a = "conn_arrived 8 ''10.0.0.2:5'' sample_start"
  let ?d = "close_listener (shut_down (context_done ?a))"
  let ?e = "conn_accepted 8 ''10.0.0.2:5'' ?d"
  note st = sample_start_def start_running_def conn_arrived_def context_done_def shut_down_def
    close_listener_def conn_accepted_def ct_closeAll_def
  have "any_step pair_lib sample_start ?a" unfolding any_step_def
    by (intro exI [of _ ConnStep] server_step.arrive) (simp_all add: st)
  moreover have "any_step pair_lib ?a (context_done ?a)" unfolding any_step_def
    by (intro exI [of _ ShutdownStep] server_step.stopping) (simp add: st)
  moreover have "any_step pair_lib (context_done ?a) (shut_down (context_done ?a))" unfolding any_step_def
    by (intro exI [of _ ShutdownStep] server_step.shutdown) (simp_all add: st)
  moreover have "any_step pair_lib (shut_down (context_done ?a)) ?d" unfolding any_step_def
    by (intro exI [of _ ShutdownStep] server_step.listener_closed) (simp_all add: st)
  moreover have "any_step pair_lib ?d ?e" unfolding any_step_def
    by (intro exI [of _ ConnStep] server_step.accept) (simp add: st)
  ultimately have "(any_step pair_lib)\<^sup>*\<^sup>* sample_start ?e"
    by (meson r_into_rtranclp rtranclp.rtrancl_into_rtrancl)
  moreover have "\<not> rnListening ?e \<and> rnConns ?e 8 \<noteq> None \<and> 8 \<notin> set (rnClosed ?e)" by (simp add: st)
  ultimately show ?thesis by blast
qed

section \<open>How far a session reaches\<close>

text \<open>
  C6: A session reaches no further than its user's configuration. For the session the server
  builds for a user from a VFS made of the configured backends, no command changes an object
  outside the backends the user is allowed, nor outside the user's prefix within the backend's.
\<close>

theorem user_confined:
  assumes "s3_service api view mounted pending" and "NewVFS la co bcs = Inr (stVfs st)"
    and "\<And>k b. lookup (stVfs st) k = Some b \<Longrightarrow> mounted (bClient b) (bBucket b)"
    and "allowed = userAllowedBackends (stCfg st) user"
    and "pfxs = userBackendPrefixes (stCfg st) user"
    and "\<And>k b. lookup (stVfs st) k = Some b \<Longrightarrow> allowed = [] \<or> k \<in> set allowed \<Longrightarrow>
      l \<notin> locs b (under (bPrefix (extend_prefix (prefix_for pfxs k) b)))"
  shows "wview view (snd (Filecmd (session_handlers st reg user remote) n api r w)) l = wview view w l"
proof -
  let ?h = "session_handlers st reg user remote"
  have v: "hVfs ?h = WithBackendPrefixes pfxs (vfs_Filter allowed (stVfs st))"
    by (simp add: session_handlers_def NewS3Handlers_def Let_def assms(4,5))
  have lk: "lookup (hVfs ?h) k = (if allowed = [] \<or> k \<in> set allowed
      then map_option (extend_prefix (prefix_for pfxs k)) (lookup (stVfs st) k) else None)" for k
    by (simp add: v lookup_WithBackendPrefixes lookup_Filter)
  have wf: "wf_vfs (hVfs ?h)"
    unfolding v using NewVFS_Inr(1) [OF assms(2)] by (simp add: wf_vfs_WithBackendPrefixes wf_vfs_Filter)
  have ok: "session_ok mounted ?h"
    using wf assms(3) by (auto simp: session_ok_def mounts_def lk split: if_splits)
  have "l \<notin> territory ?h"
  proof
    assume "l \<in> territory ?h"
    then obtain k b where "lookup (stVfs st) k = Some b" "allowed = [] \<or> k \<in> set allowed"
      "l \<in> locs (extend_prefix (prefix_for pfxs k) b) (under (bPrefix (extend_prefix (prefix_for pfxs k) b)))"
      by (auto simp: territory_def mounts_def lk split: if_splits)
    moreover have "locs (extend_prefix p b) K = locs b K" for p K
      by (auto simp: locs_def loc_of_def)
    ultimately show False using assms(6) by blast
  qed
  then have "agree_off (wview view) (territory ?h) w (snd (Filecmd ?h n api r w)) \<Longrightarrow>
      wview view (snd (Filecmd ?h n api r w)) l = wview view w l"
    by (rule agree_offD [rotated])
  with s3_service.Filecmd_territory [OF assms(1) ok] show ?thesis unfolding within_def by blast
qed

text \<open>A user with one backend and a prefix in it, next to another's files.\<close>

definition shared_vfs :: vfs where
  "shared_vfs = projr (NewVFS (\<lambda>_. None) (\<lambda>_. 0) [sample_config ''a'' ''/x/'', sample_config ''b'' []])"

definition homed_state :: "string server_state" where
  "homed_state = sample_state\<lparr>stVfs := shared_vfs,
     stCfg := sshid_config\<lparr>cUsers := [(sample_user ''alice'' ''pw'')\<lparr>uBackends := [''a''], uPrefix := ''/alice/''\<rparr>]\<rparr>\<rparr>"

definition shared_world :: "fake_world world" where
  "shared_world = \<lparr>wStore = (\<lambda>c. NewFakeS3 [(''x/alice/f'', ''1''), (''x/bob/f'', ''2'')]), wMetrics = NewMetrics\<rparr>"

definition alice_removes :: "string \<Rightarrow> (go_error + unit) \<times> fake_world world" where
  "alice_removes p = Filecmd (session_handlers homed_state (None :: (int \<times> int) rateRegistry option) ''alice'' ''r'')
     9 fake_api \<lparr>rMethod = ''Remove'', rFilepath = p, rTarget = []\<rparr> shared_world"

lemma shared_vfs_eq:
  "NewVFS (\<lambda>_. None) (\<lambda>_. 0) [sample_config ''a'' ''/x/'', sample_config ''b'' []] = Inr shared_vfs"
proof -
  have "\<not> isl (NewVFS (\<lambda>_. None) (\<lambda>_. 0) [sample_config ''a'' ''/x/'', sample_config ''b'' []])"
    by code_simp
  then show ?thesis
    by (cases "NewVFS (\<lambda>_. None) (\<lambda>_. 0) [sample_config ''a'' ''/x/'', sample_config ''b'' []]")
      (simp_all add: shared_vfs_def)
qed

lemma shared_lookup: "\<exists>b. lookup shared_vfs ''a'' = Some b \<and> bClient b = 0 \<and> bBucket b = ''bucket''
    \<and> bPrefix (extend_prefix (prefix_for [(''*'', ''/alice/'')] ''a'') b) = ''x/alice/''"
proof -
  have "map_option (\<lambda>b. (bClient b, bBucket b, bPrefix (extend_prefix (prefix_for [(''*'', ''/alice/'')] ''a'') b)))
      (lookup shared_vfs ''a'') = Some (0, ''bucket'', ''x/alice/'')"
    by code_simp
  then show ?thesis by auto
qed

lemma shared_mounted: "lookup shared_vfs k = Some b \<Longrightarrow> fake_mounted (bClient b) (bBucket b)"
proof -
  assume k: "lookup shared_vfs k = Some b"
  have "list_all (\<lambda>(k, b). bBucket b = ''bucket'') (Backends shared_vfs)" by code_simp
  moreover have "(k, b) \<in> set (Backends shared_vfs)" using k by (auto simp: lookup_def dest: map_of_SomeD)
  ultimately show ?thesis by (auto simp: list_all_iff fake_mounted_def)
qed

theorem user_confined_witness:
  "fst (alice_removes ''/a/f'') = Inr ()
   \<and> wview fake_view (snd (alice_removes ''/a/f'')) (0, ''bucket'', ''x/bob/f'') = Some ''2''"
proof -
  have cfg: "userAllowedBackends (stCfg homed_state) ''alice'' = [''a'']"
    "userBackendPrefixes (stCfg homed_state) ''alice'' = [(''*'', ''/alice/'')]"
    by code_simp+
  have vfs: "stVfs homed_state = shared_vfs" by (simp add: homed_state_def)
  have "wview fake_view (snd (alice_removes ''/a/f'')) (0, ''bucket'', ''x/bob/f'')
      = wview fake_view shared_world (0, ''bucket'', ''x/bob/f'')"
    unfolding alice_removes_def
  proof (rule user_confined [OF fake.s3_service_axioms])
    show "NewVFS (\<lambda>_. None) (\<lambda>_. 0) [sample_config ''a'' ''/x/'', sample_config ''b'' []] = Inr (stVfs homed_state)"
      by (simp add: vfs shared_vfs_eq)
    show "fake_mounted (bClient b) (bBucket b)" if "lookup (stVfs homed_state) k = Some b" for k b
      using that by (simp add: vfs shared_mounted)
    show "(0, ''bucket'', ''x/bob/f'') \<notin> locs b (under (bPrefix (extend_prefix
        (prefix_for [(''*'', ''/alice/'')] k) b)))"
      if "lookup (stVfs homed_state) k = Some b" "[''a''] = [] \<or> k \<in> set [''a'']" for k b
      using that shared_lookup by (auto simp: vfs locs_def loc_of_def prefix_def)
  qed (simp_all add: cfg)
  moreover have "wview fake_view shared_world (0, ''bucket'', ''x/bob/f'') = Some ''2''" by code_simp
  moreover have "fst (alice_removes ''/a/f'') = Inr ()" by code_simp
  ultimately show ?thesis by simp
qed

section \<open>What a session can see\<close>

text \<open>What the configuration lets a user reach: the keys, or listings of the keys under a prefix.\<close>

definition user_reach :: "config \<Rightarrow> vfs \<Rightarrow> string \<Rightarrow> client \<Rightarrow> string \<Rightarrow> string \<Rightarrow> bool" where
  "user_reach cfg v user c bkt key \<longleftrightarrow>
     list_ex (\<lambda>(name, b). (userAllowedBackends cfg user = [] \<or> name \<in> set (userAllowedBackends cfg user))
         \<and> bClient b = c \<and> bBucket b = bkt
         \<and> prefix (bPrefix (extend_prefix (prefix_for (userBackendPrefixes cfg user) name) b)) key)
       (gm_range (Backends v))"

lemma session_covered:
  "covers (user_reach (stCfg st) (stVfs st) user) (session_handlers st reg user remote)"
  unfolding covers_def
proof (intro allI impI)
  fix name b k
  assume b: "lookup (hVfs (session_handlers st reg user remote)) name = Some b" and k: "prefix (bPrefix b) k"
  let ?al = "userAllowedBackends (stCfg st) user"
  let ?p = "prefix_for (userBackendPrefixes (stCfg st) user) name"
  obtain b' where al: "?al = [] \<or> name \<in> set ?al" and b': "lookup (stVfs st) name = Some b'"
    and eq: "b = extend_prefix ?p b'"
    using b by (auto simp: session_handlers_def NewS3Handlers_def Let_def lookup_WithBackendPrefixes lookup_Filter
        split: if_splits)
  have "(name, b') \<in> set (gm_range (Backends (stVfs st)))" using b' by (simp add: set_gm_range lookup_def)
  moreover have "bClient b = bClient b'" "bBucket b = bBucket b'" by (simp_all add: eq)
  ultimately show "user_reach (stCfg st) (stVfs st) user (bClient b) (bBucket b) k"
    unfolding user_reach_def list_ex_iff using al k by (intro bexI [of _ "(name, b')"]) (auto simp: eq)
qed

text \<open>
  C7: A session sees no further than its user's configuration. Opening, reading, listing and
  stat make only head, get and list requests of keys in the allowed backends under the user's
  prefixes: whatever any other call of the S3 client would answer, and whatever it would do to
  the objects, changes nothing of their results and effects. This asks nothing of the service.
\<close>

theorem user_reads_confined:
  assumes "h = session_handlers st reg user remote"
    and "api' = fenced (user_reach (stCfg st) (stVfs st) user) api other"
  shows "Fileread h api' r = Fileread h api r \<and> Filelist h n api' r = Filelist h n api r
    \<and> (\<forall>w x w'. Fileread h api r w = (Inr x, w') \<longrightarrow>
          s3Reader_ReadAt api' (reader_of x) = s3Reader_ReadAt api (reader_of x))"
proof -
  have c: "covers (user_reach (stCfg st) (stVfs st) user) h" unfolding assms(1) by (rule session_covered)
  show ?thesis unfolding assms(2)
    by (intro conjI allI impI Fileread_fenced [OF c] Filelist_fenced [OF c]) (rule ReadAt_fenced [OF c])
qed

definition deaf_api :: "fake_world s3_api" where
  "deaf_api = fake_api\<lparr>api_HeadObject := (\<lambda>c b k s. (Inl NotFound, s)),
     api_ListObjectsV2 := (\<lambda>c b q s. (Inl NotFound, s))\<rparr>"

definition alice_fence :: "fake_world s3_api" where
  "alice_fence = fenced (user_reach (stCfg homed_state) (stVfs homed_state) ''alice'') fake_api deaf_api"

theorem user_reads_confined_witness:
  "map_sum id (map fiName) (fst (Filelist (session_handlers homed_state (None :: (int \<times> int) rateRegistry option) ''alice'' ''r'')
       9 alice_fence \<lparr>rMethod = ''List'', rFilepath = ''/a'', rTarget = []\<rparr> shared_world)) = Inr [''f'']
   \<and> isl (fst (api_HeadObject alice_fence 0 ''bucket'' ''x/bob/f'' (wStore shared_world)))
   \<and> \<not> isl (fst (api_HeadObject fake_api 0 ''bucket'' ''x/bob/f'' (wStore shared_world)))"
proof -
  let ?h = "session_handlers homed_state (None :: (int \<times> int) rateRegistry option) ''alice'' ''r''"
  let ?r = "\<lparr>rMethod = ''List'', rFilepath = ''/a'', rTarget = []\<rparr>"
  have "Filelist ?h 9 alice_fence ?r = Filelist ?h 9 fake_api ?r"
    using user_reads_confined [OF refl alice_fence_def] by blast
  moreover have "map_sum id (map fiName) (fst (Filelist ?h 9 fake_api ?r shared_world)) = Inr [''f'']" by code_simp
  moreover have "isl (fst (api_HeadObject alice_fence 0 ''bucket'' ''x/bob/f'' (wStore shared_world)))" by code_simp
  moreover have "\<not> isl (fst (api_HeadObject fake_api 0 ''bucket'' ''x/bob/f'' (wStore shared_world)))" by code_simp
  ultimately show ?thesis by simp
qed

end
