(* ===== verification/MetricsServer.thy ===== *)
theory MetricsServer
  imports Metrics
begin

text \<open>
  The HTTP server of \<open>internal/metrics/metrics.go\<close>: where the collectors are registered, and
  what each path answers. The Prometheus client is a parameter: the collectors it registers
  itself in its default registry, and the text it makes of what a registry gathers.
\<close>

text \<open>The global default registry of the client, and the ones of \<open>prometheus.NewRegistry\<close>.\<close>

datatype registry = DefaultRegistry | OwnRegistry nat

text \<open>
  What a collector shows: a number, or one for each vector of its labels (a label without a
  value is not shown). The collectors of the program, by name.
\<close>

datatype sample = Number int | Labelled "string list \<Rightarrow> int option"

definition collectors :: "metrics \<Rightarrow> (string \<times> sample) list" where
  "collectors m =
     [(''sftp2s3_connections_active'', Number (activeConns m)),
      (''sftp2s3_connections_total'', Number (int (totalConns m))),
      (''sftp2s3_upload_bytes_total'', Number (uploadBytes m)),
      (''sftp2s3_download_bytes_total'', Number (downloadBytes m)),
      (''sftp2s3_s3_operations_total'', Labelled (\<lambda>ls. case ls of
         [op, b, status] \<Rightarrow> if s3OpsTotal m (op, b, status) = 0 then None else Some (int (s3OpsTotal m (op, b, status)))
       | _ \<Rightarrow> None)),
      (''sftp2s3_s3_operation_duration_seconds'', Labelled (\<lambda>ls. case ls of
         [op, b] \<Rightarrow> if s3OpDuration m (op, b) = 0 then None else Some (int (s3OpDuration m (op, b)))
       | _ \<Rightarrow> None)),
      (''sftp2s3_auth_failures_total'', Number (int (authFailures m))),
      (''sftp2s3_backend_healthy'', Labelled (\<lambda>ls. case ls of [b] \<Rightarrow> backendHealthy m b | _ \<Rightarrow> None))]"

text \<open>
  The registries, as the names of the program's collectors registered in each. \<open>NewMetrics\<close>
  registers all of them in the registry it is given, if any.
\<close>

type_synonym registries = "registry \<Rightarrow> string list"

definition register_metrics :: "registry option \<Rightarrow> registries \<Rightarrow> registries" where
  "register_metrics reg R =
     (case reg of None \<Rightarrow> R | Some r \<Rightarrow> R(r := R r @ map fst (collectors NewMetrics)))"

record prom_lib =
  plDefault :: "(string \<times> sample) list"
  plText :: "(string \<times> sample) list \<Rightarrow> string"

definition gather :: "prom_lib \<Rightarrow> registries \<Rightarrow> metrics \<Rightarrow> registry \<Rightarrow> (string \<times> sample) list" where
  "gather lib R m r =
     (if r = DefaultRegistry then plDefault lib else [])
     @ filter (\<lambda>c. fst c \<in> set (R r)) (collectors m)"

text \<open>\<open>promhttp.Handler()\<close> serves what the default registry gathers.\<close>

definition promhttp_Handler :: "prom_lib \<Rightarrow> registries \<Rightarrow> metrics \<Rightarrow> string \<Rightarrow> http_reply" where
  "promhttp_Handler lib R m authorization = (200, plText lib (gather lib R m DefaultRegistry))"

text \<open>
  The routes of \<open>StartServer\<close>, of a path that the multiplexer has cleaned. Its TLS, its
  timeouts and its shutdown are the library's.
\<close>

definition StartServer_mux :: "prom_lib \<Rightarrow> registries \<Rightarrow> metrics \<Rightarrow> bool option \<Rightarrow> string
    \<Rightarrow> string \<Rightarrow> string \<Rightarrow> http_reply" where
  "StartServer_mux lib R m checker metricsToken path authorization =
     (if path = ''/metrics'' then
        metricsAuthHandler metricsToken (promhttp_Handler lib R m) authorization
      else if path = ''/healthz'' then healthz checker
      else (404, ''404 page not found''))"

text \<open>
  The page depends on the program's collectors exactly when \<open>NewMetrics\<close> was given the default
  registry.
\<close>

lemma gather_default:
  "gather lib (register_metrics reg (\<lambda>_. [])) m DefaultRegistry =
     plDefault lib @ (if reg = Some DefaultRegistry then collectors m else [])"
  by (auto simp: gather_def register_metrics_def collectors_def split: option.split)

text \<open>Whether the server speaks TLS.\<close>

definition metrics_tls :: "string \<Rightarrow> string \<Rightarrow> bool" where
  "metrics_tls certFile keyFile \<longleftrightarrow> certFile \<noteq> [] \<and> keyFile \<noteq> []"

end
