(* ===== verification/MainRun.thy ===== *)
theory MainRun
  imports Server Health ConfigLoad MetricsServer
begin

text \<open>
  \<open>cmd/sftp2s3/main.go\<close>: the start of the program up to the loop of the server, and the
  reload on SIGHUP. The flags are given parsed, as \<open>flag.Parse\<close> leaves them.
\<close>

section \<open>Logging and flags\<close>

datatype log_level = LevelDebug | LevelInfo | LevelWarn | LevelError
datatype log_handler = JSONHandler | TextHandler

definition initLogger :: "string \<Rightarrow> string \<Rightarrow> log_level \<times> log_handler" where
  "initLogger level format =
     (let l = to_lower level;
          lvl = (if l = ''debug'' then LevelDebug else if l = ''info'' then LevelInfo
                 else if l = ''warn'' \<or> l = ''warning'' then LevelWarn
                 else if l = ''error'' then LevelError else LevelInfo)
      in (lvl, if to_lower format = ''json'' then JSONHandler else TextHandler))"

definition requireRecklessEnv :: "config_lib \<Rightarrow> string \<Rightarrow> go_error option" where
  "requireRecklessEnv lib name =
     (if osGetenv lib name = []
      then Some (Errorf ''set %s to acknowledge you are intentionally leaking passwords'' [name])
      else None)"

record flags =
  flConfigPath :: string
  flShowVersion :: bool
  flHashPassword :: bool
  flHashPasswordOutput :: string
  flVerifyPassword :: string
  flInsecureLogPasswords :: bool

section \<open>The start\<close>

text \<open>
  The outcome of \<open>run\<close> before the loop of the server: an exit code, or the running server
  with its monitor and its shutdown timeout. Listening on an address is a parameter, the error
  of the attempt.
\<close>

datatype ('k, 'l) outcome_of_start =
    Exit int
  | Serve "('k, 'l) running" healthMonitor int

record ('k, 's, 'l) run_deps =
  rdConfig :: config_lib
  rdBuild :: "('k, 's) build_deps"
  rdRate :: "'l rate_lib"
  rdHeap :: "nat \<Rightarrow> 'l"
  rdListen :: "string \<Rightarrow> go_error option"
  rdStdin :: stdin

text \<open>A duration of the configuration with its default; \<open>None\<close> when it does not parse.\<close>

definition config_duration :: "string \<Rightarrow> int \<Rightarrow> int option" where
  "config_duration s dflt =
     (if s = [] then Some dflt
      else case parse_duration s of Inl e \<Rightarrow> None | Inr d \<Rightarrow> Some d)"

definition listen_addr :: "config \<Rightarrow> string" where
  "listen_addr cfg =
     sHost (cServer cfg) @ '':'' @
     (if sPort (cServer cfg) < 0 then ''-'' @ decimal (nat (- sPort (cServer cfg)))
      else decimal (nat (sPort (cServer cfg))))"

definition serve_config :: "('k, 's, 'l) run_deps \<Rightarrow> int \<Rightarrow> (nat \<Rightarrow> int) \<Rightarrow> config \<Rightarrow> 's build_world
    \<Rightarrow> ('k, 'l) outcome_of_start \<times> 's build_world" where
  "serve_config d now clock cfg w =
     (case BuildState (rdBuild d) now clock True cfg w of
        (Inl err, w) \<Rightarrow> (Exit 1, w)
      | (Inr st, w) \<Rightarrow>
          let cfg = stCfg st;
              connLimiter = NewUserConnLimiter (cUsers cfg);
              rateRegistry = NewUserRateRegistry (rdRate d) (rdHeap d) (cUsers cfg)
          in case config_duration (sBackendHealthInterval (cServer cfg)) (30 * nsecs) of
               None \<Rightarrow> (Exit 1, w)
             | Some healthInterval \<Rightarrow>
                 if sMetricsAddr (cServer cfg) \<noteq> [] \<and> rdListen d (sMetricsAddr (cServer cfg)) \<noteq> None
                 then (Exit 1, w)
                 else case config_duration (sShutdownTimeout (cServer cfg)) (30 * nsecs) of
                   None \<Rightarrow> (Exit 1, w)
                 | Some shutdownTimeout \<Rightarrow>
                     if rdListen d (listen_addr cfg) \<noteq> None then (Exit 1, w)
                     else (Serve (start_running st (Some connLimiter) (Some rateRegistry) NewMetrics)
                             (NewHealthMonitor True healthInterval) shutdownTimeout, w))"

text \<open>\<open>runPasswordOp\<close> only swaps the standard input for the time of the command.\<close>

definition run :: "('k, 's, 'l) run_deps \<Rightarrow> int \<Rightarrow> (nat \<Rightarrow> int) \<Rightarrow> go_error + flags \<Rightarrow> 's build_world
    \<Rightarrow> ('k, 'l) outcome_of_start \<times> 's build_world" where
  "run d now clock args w =
     (case args of
        Inl err \<Rightarrow> (Exit 1, w)
      | Inr fl \<Rightarrow>
          if flInsecureLogPasswords fl
             \<and> requireRecklessEnv (rdConfig d) ''SFTP2S3_I_AM_RECKLESSLY_LEAKING_PASSWORDS'' \<noteq> None
          then (Exit 1, w)
          else if flShowVersion fl then (Exit 0, w)
          else if flHashPassword fl then
            let out = (if flHashPasswordOutput fl = [] then ''sftp2s3.hash'' else flHashPasswordOutput fl)
            in case RunHashPassword (bdSsh (rdBuild d)) (rdStdin d) now out (bwFiles w) of
                 (err, printed, f) \<Rightarrow> (Exit (if err = None then 0 else 1), w\<lparr>bwFiles := f\<rparr>)
          else if flVerifyPassword fl \<noteq> [] then
            case RunVerifyPassword (bdSsh (rdBuild d)) (rdStdin d) (flVerifyPassword fl) of
              (err, printed) \<Rightarrow> (Exit (if err = None then 0 else 1), w)
          else case config_Load (rdConfig d) (flConfigPath fl) (bwFiles w) of
            Inl err \<Rightarrow> (Exit 1, w)
          | Inr cfg \<Rightarrow> serve_config d now clock cfg w)"

text \<open>
  What the metrics server answers: \<open>run\<close> makes the collectors in a registry of its own and
  hands the server the monitor, the token and the files of the configuration.
\<close>

definition metrics_endpoint :: "prom_lib \<Rightarrow> config \<Rightarrow> ('k, 'l) running \<Rightarrow> healthMonitor \<Rightarrow> string \<Rightarrow> string
    \<Rightarrow> http_reply" where
  "metrics_endpoint lib cfg s monitor path authorization =
     StartServer_mux lib (register_metrics (Some (OwnRegistry 0)) (\<lambda>_. [])) (rnMetrics s) (Some (AllHealthy monitor))
       (sMetricsToken (cServer cfg)) path authorization"

section \<open>The reload\<close>

text \<open>
  The body of the loop on SIGHUP. \<open>old\<close> is the tracker of the old state as it is now; its
  goroutine saves it once more when its context is cancelled, after the new tracker was
  loaded. Errors leave the server as it is.
\<close>

definition final_save :: "state_codec \<Rightarrow> int \<Rightarrow> failureTracker \<Rightarrow> files \<Rightarrow> files" where
  "final_save json now old f =
     (if saves old then snd (snd (tracker_save json now now old f)) else f)"

definition reload :: "('k, 's, 'l) run_deps \<Rightarrow> int \<Rightarrow> (nat \<Rightarrow> int) \<Rightarrow> string \<Rightarrow> failureTracker
    \<Rightarrow> ('k, 'l) running \<Rightarrow> 's build_world \<Rightarrow> ('k, 'l) running \<times> 's build_world" where
  "reload d now clock configPath old s w =
     (case config_Load (rdConfig d) configPath (bwFiles w) of
        Inl err \<Rightarrow> (s, w)
      | Inr newCfg \<Rightarrow>
          (case BuildState (rdBuild d) now clock True newCfg w of
             (Inl err, w) \<Rightarrow> (s, w)
           | (Inr st, w) \<Rightarrow>
               (install_state (rdRate d) (cUsers (stCfg st)) st s,
                w\<lparr>bwFiles := final_save (bdJson (rdBuild d)) now old (bwFiles w)\<rparr>)))"

section \<open>What a built state is\<close>

lemma on_files_Inr: "on_files msg m w = (Inr v, w') \<longleftrightarrow>
    (\<exists>f. m (bwFiles w) = (Inr v, f) \<and> w' = w\<lparr>bwFiles := f\<rparr>)"
  by (auto simp: on_files_def split: prod.splits)

lemma on_store_Inr: "on_store msg m w = (Inr v, w') \<longleftrightarrow>
    (\<exists>s. m (bwStore w) = (Inr v, s) \<and> w' = w\<lparr>bwStore := s\<rparr>)"
  by (auto simp: on_store_def split: prod.splits)

text \<open>Each part of the state comes from the resolved configuration.\<close>

lemma BuildState_Inr:
  assumes "BuildState d now clock m cfg w = (Inr st, w')"
  shows "\<exists>f. (\<exists>g. ResolveSSHIDKeys (bdHttp d) clock cfg f = (Inr (stCfg st), g))
    \<and> NewVFS (bdLoadAws d) (bdClientOf d) (cBackends (stCfg st)) = Inr (stVfs st)
    \<and> NewFailureTracker (bdJson d) (bwFiles w') now (sAuthFailures (cServer (stCfg st))) = Inr (stTracker st)
    \<and> NewSSHServerConfig (bdSsh d) (bwFiles w') (cUsers (stCfg st)) = Inr (stSsh st)
    \<and> loadOrGenerateHostKey (bdKeys d) now (sHostKey (cServer cfg)) (sHostKeyType (cServer cfg)) (bwFiles w)
        = (Inr (stSigner st), f)
    \<and> stMetrics st = m"
  using assms
  by (auto simp: BuildState_def act_simps on_files_Inr on_store_Inr)

text \<open>A tracker without a state file starts empty.\<close>

lemma NewFailureTracker_empty:
  assumes "NewFailureTracker json f now cfg = Inr t" and "afStateFile cfg = []"
  shows "attempts_of t r = [] \<and> blocked_at t r = None"
  using assms
  by (auto simp: NewFailureTracker_def wrap_duration_def Let_def attempts_of_def blocked_at_def
      split: sum.splits)

end
