(* ===== verification/SystemProps.thy ===== *)
theory SystemProps
  imports ServerProps MainRun
begin

text \<open>The properties of the health checks, the host key and the reload.\<close>

section \<open>Health\<close>

text \<open>
  C29: A health check reports what it found. A check of all backends makes exactly one list
  request for each backend of the VFS, in some order, each in the state the one before has left,
  and nothing else happens to the service. The status of each backend is whether its request
  succeeded; each request is counted once, with its outcome, no other operation is counted, and
  the gauge of each backend, and of no other name, shows its status. The monitor is healthy when
  all of them are, and then and only then \<open>/healthz\<close> answers 200.
\<close>

theorem health_reports:
  assumes "named_vfs v" and "hmMetrics m" and "checkAll api (Some v) m w = (m', w')"
  shows "(\<exists>xs rs. distinct (map fst xs) \<and> set xs = {(name, b). lookup v name = Some b}
        \<and> answers api xs (wStore w) = (rs, wStore w')
        \<and> map_of (hmStatus m') = map_of rs \<and> counted rs (wMetrics w) (wMetrics w'))
    \<and> (AllHealthy m' \<longleftrightarrow> (\<forall>name\<in>dom (lookup v). Healthy m' name))
    \<and> (fst (healthz (Some (AllHealthy m'))) = 200 \<longleftrightarrow> AllHealthy m')"
proof -
  let ?xs = "gm_range (Backends v)"
  have loop: "check_loop True api ?xs [] w = (hmStatus m', w')"
    using assms(2,3) by (auto simp: checkAll_def split: prod.splits)
  have names: "\<forall>(k, b)\<in>set ?xs. bName b = k"
    using assms(1) by (auto simp: set_gm_range named_vfs_def lookup_def)
  have sx: "set ?xs = {(name, b). lookup v name = Some b}" by (simp add: set_gm_range lookup_def)
  obtain rs t where an: "answers api ?xs (wStore w) = (rs, t)" by fastforce
  have ds: "distinct (map fst ?xs)" by simp
  from check_loop_answers [OF loop names ds an] have st: "map_of (hmStatus m') = map_of rs"
    and t: "wStore w' = t" and ct: "counted rs (wMetrics w) (wMetrics w')"
    and keys: "map fst rs = map fst ?xs"
    by (auto simp: fun_eq_iff split: option.splits)
  have "dom (map_of (hmStatus m')) = fst ` set ?xs"
    unfolding st dom_map_of_conv_image_fst using keys by (metis list.set_map)
  then have dom: "dom (map_of (hmStatus m')) = dom (lookup v)" by (force simp: sx)
  have "AllHealthy m' \<longleftrightarrow> (\<forall>name\<in>dom (lookup v). Healthy m' name)"
    unfolding dom [symmetric] AllHealthy_iff by (force simp: Healthy_def)
  moreover have "fst (healthz (Some (AllHealthy m'))) = 200 \<longleftrightarrow> AllHealthy m'"
    by (simp add: healthz_def split: bool.split)
  moreover have "answers api ?xs (wStore w) = (rs, wStore w')" using an t by simp
  ultimately show ?thesis using ds sx st ct by blast
qed

definition half_down_world :: "fake_world world" where
  "half_down_world = sample_world\<lparr>wStore := (wStore sample_world)(1 := (wStore sample_world 1)\<lparr>fkFail := True\<rparr>)\<rparr>"

definition sample_check :: "healthMonitor \<times> fake_world world" where
  "sample_check = checkAll fake_api (Some sample_vfs) (NewHealthMonitor True 30) half_down_world"

theorem health_reports_witness:
  "Healthy (fst sample_check) ''media'' \<and> \<not> Healthy (fst sample_check) ''backup''
   \<and> \<not> AllHealthy (fst sample_check) \<and> fst (healthz (Some (AllHealthy (fst sample_check)))) \<noteq> 200
   \<and> checks (wMetrics (snd sample_check)) ''backup'' ''success'' = 0"
proof -
  have named: "named_vfs sample_vfs" using sample_named by (simp add: sample_handlers_def NewS3Handlers_def)
  have m: "hmMetrics (NewHealthMonitor True 30)" by (simp add: NewHealthMonitor_def)
  have run: "checkAll fake_api (Some sample_vfs) (NewHealthMonitor True 30) half_down_world
      = (fst sample_check, snd sample_check)" by (simp add: sample_check_def)
  have h: "Healthy (fst sample_check) ''media''" "\<not> Healthy (fst sample_check) ''backup''" by code_simp+
  have lk: "''backup'' \<in> dom (lookup sample_vfs)" by (simp add: sample_vfs_def lookup_def)
  note r = health_reports [OF named m run]
  have "checks (wMetrics (snd sample_check)) ''backup'' ''success'' = 0" by code_simp
  with h r lk show ?thesis by blast
qed

section \<open>The host key\<close>

text \<open>
  C28: The host key is stable. The key that a start loads or makes is the one every later start
  loads from the same file, whatever type is configured then, and a later start writes nothing.
  It is the key of the file, guarded: an RSA key with a \<open>SignWithAlgorithm\<close> refuses the
  algorithm \<open>ssh-rsa\<close> there and gives every other signature as before; the \<open>Sign\<close> of the key,
  which names no algorithm, stays as it was, and so does a key without \<open>SignWithAlgorithm\<close>.
\<close>

theorem host_key_stable:
  assumes "ed25519_typed lib" and "loadOrGenerateHostKey lib now path keyType f = (Inr s, g)"
    and "fsReadFault g path = None"
  shows "loadOrGenerateHostKey lib now' path keyType' g = (Inr s, g)
    \<and> (\<exists>pem s0. os_ReadFile path g = Inr pem \<and> klParse lib pem = Inr s0 \<and> guarded s0 s)"
  using loadOrGenerate_again [OF assms] loadHostKey_guarded
  by (auto simp: loadOrGenerateHostKey_def)

text \<open>Keys that sign with the name of the algorithm; \<open>Sign\<close> is with the type of the key.\<close>

definition sample_signer :: "string \<Rightarrow> signer" where
  "sample_signer t = \<lparr>sgType = t, sgSign = (\<lambda>d. Inr (t @ d)), sgSignWithAlgorithm = Some (\<lambda>d a. Inr (a @ d))\<rparr>"

definition sample_keys :: key_lib where
  "sample_keys = \<lparr>klGenerateRSA = Inr ''k'', klMarshalRSA = (\<lambda>k. ''rsa '' @ k),
     klGenerateEd25519 = Inr ''k'', klMarshalEd25519 = (\<lambda>k. Inr (''ed '' @ k)),
     klParse = (\<lambda>pem. Inr (sample_signer (if take 3 pem = ''rsa'' then ''ssh-rsa'' else ''ssh-ed25519'')))\<rparr>"

theorem host_key_stable_witness:
  "fst (loadOrGenerateHostKey sample_keys 2 ''key'' ''ed25519'' (snd (loadOrGenerateHostKey sample_keys 1 ''key'' ''rsa'' no_files)))
     = fst (loadOrGenerateHostKey sample_keys 1 ''key'' ''rsa'' no_files)
   \<and> guarded (sample_signer ''ssh-rsa'') (projr (fst (loadOrGenerateHostKey sample_keys 1 ''key'' ''rsa'' no_files)))
   \<and> isl (the (sgSignWithAlgorithm (projr (fst (loadOrGenerateHostKey sample_keys 1 ''key'' ''rsa'' no_files)))) ''d'' ''ssh-rsa'')"
proof -
  have typed: "ed25519_typed sample_keys"
    by (auto simp: ed25519_typed_def sample_keys_def sample_signer_def KeyAlgoRSA_def)
  let ?x = "loadOrGenerateHostKey sample_keys 1 ''key'' ''rsa'' no_files"
  have "\<not> isl (fst ?x)" by code_simp
  then have run: "?x = (Inr (projr (fst ?x)), snd ?x)" by (cases ?x; cases "fst ?x") auto
  have "fsReadFault (snd ?x) ''key'' = None" by code_simp
  note st = host_key_stable [OF typed run this, of 2 "''ed25519''"]
  have rd: "os_ReadFile ''key'' (snd ?x) = Inr ''rsa k''" by code_simp
  have ps: "klParse sample_keys ''rsa k'' = Inr (sample_signer ''ssh-rsa'')" by (simp add: sample_keys_def)
  from st rd ps have g: "guarded (sample_signer ''ssh-rsa'') (projr (fst ?x))"
    by (metis sum.inject(2))
  then have "isl (the (sgSignWithAlgorithm (projr (fst ?x))) ''d'' ''ssh-rsa'')"
    by (auto simp: guarded_def sample_signer_def)
  with st g run show ?thesis by auto
qed

section \<open>The reload\<close>

text \<open>What a reload leaves alone: all of the running server but its state and its limits.\<close>

definition goes_on :: "('k, 'l) running \<Rightarrow> ('k, 'l) running \<Rightarrow> bool" where
  "goes_on s s' \<longleftrightarrow> rnPending s' = rnPending s \<and> rnConns s' = rnConns s \<and> rnTracker s' = rnTracker s
     \<and> rnClosed s' = rnClosed s \<and> rnWait s' = rnWait s \<and> rnStopping s' = rnStopping s
     \<and> rnSwept s' = rnSwept s \<and> rnListening s' = rnListening s \<and> rnMetrics s' = rnMetrics s"

text \<open>
  The limits of a file, on the users \<open>us\<close>: the cap of a user is the last positive one in the
  file and the connections counted are kept; each user has the bucket of the file's rate, a
  bucket there was is set to it.
\<close>

definition new_limits :: "'l rate_lib \<Rightarrow> userConfig list \<Rightarrow> ('k, 'l) running \<Rightarrow> ('k, 'l) running \<Rightarrow> bool" where
  "new_limits lib us s s' \<longleftrightarrow>
     (case rnLimiter s of
        None \<Rightarrow> rnLimiter s' = None
      | Some l \<Rightarrow> \<exists>l'. rnLimiter s' = Some l' \<and> conn_active l' = conn_active l
          \<and> (\<forall>u. conn_cap l' u = (case [n \<leftarrow> map uMaxConnections (filter (\<lambda>x. uUsername x = u) us). n > 0] of
               [] \<Rightarrow> None | ns \<Rightarrow> Some (last ns))))
     \<and> (case rnRegistry s of
        None \<Rightarrow> rnRegistry s' = None
      | Some r \<Rightarrow> \<exists>r'. rnRegistry s' = Some r' \<and> wf_registry r'
          \<and> (\<forall>u. bucket r' u = map_option (\<lambda>n. set_bucket lib n (bucket r u)) (map_of (rate_limits us []) u)))"

lemma install_limits:
  assumes "\<And>r. rnRegistry s = Some r \<Longrightarrow> wf_registry r"
  shows "new_limits lib us s (install_state lib us st s)"
proof -
  have reg: "wf_registry (registry_Update lib us r) \<and> (\<forall>u. bucket (registry_Update lib us r) u
      = map_option (\<lambda>n. set_bucket lib n (bucket r u)) (map_of (rate_limits us []) u))"
    if "rnRegistry s = Some r" for r
    using registry_Update_bucket [OF assms [OF that]] wf_registry_Update [OF assms [OF that]] by blast
  have "conn_cap (connLimiter_Update us l) u = (case [n \<leftarrow> map uMaxConnections (filter (\<lambda>x. uUsername x = u) us). n > 0] of
      [] \<Rightarrow> None | ns \<Rightarrow> Some (last ns))" for l u
    by (simp add: conn_cap_def connLimiter_Update_def map_of_conn_limits split: list.split)
  moreover have "conn_active (connLimiter_Update us l) = conn_active l" for l
    by (simp add: conn_active_def connLimiter_Update_def)
  ultimately show ?thesis
    using reg by (auto simp: new_limits_def install_state_def split: option.split)
qed

text \<open>
  The state of a file: built from the configuration \<open>cfg\<close> with the keys of sshid.io added.
\<close>

definition state_of :: "('k, 's) build_deps \<Rightarrow> int \<Rightarrow> config \<Rightarrow> files \<Rightarrow> files \<Rightarrow> 'k server_state \<Rightarrow> bool" where
  "state_of d now cfg f g st \<longleftrightarrow>
     cServer (stCfg st) = cServer cfg \<and> cBackends (stCfg st) = cBackends cfg
     \<and> list_all2 (keys_added (bdSsh d)) (cUsers cfg) (cUsers (stCfg st))
     \<and> NewVFS (bdLoadAws d) (bdClientOf d) (cBackends cfg) = Inr (stVfs st)
     \<and> NewSSHServerConfig (bdSsh d) g (cUsers (stCfg st)) = Inr (stSsh st)
     \<and> fst (loadOrGenerateHostKey (bdKeys d) now (sHostKey (cServer cfg)) (sHostKeyType (cServer cfg)) f)
         = Inr (stSigner st)
     \<and> NewFailureTracker (bdJson d) g now (sAuthFailures (cServer cfg)) = Inr (stTracker st)
     \<and> (afStateFile (sAuthFailures (cServer cfg)) = [] \<longrightarrow>
          (\<forall>r. attempts_of (stTracker st) r = [] \<and> blocked_at (stTracker st) r = None))
     \<and> stMetrics st"

lemma BuildState_state_of:
  assumes st: "BuildState d now clock True cfg w = (Inr st, v)"
  shows "state_of d now cfg (bwFiles w) (bwFiles v) st"
proof -
  from BuildState_Inr [OF st] obtain f g h
    where keys: "ResolveSSHIDKeys (bdHttp d) clock cfg f = (Inr (stCfg st), g)"
      and vfs: "NewVFS (bdLoadAws d) (bdClientOf d) (cBackends (stCfg st)) = Inr (stVfs st)"
      and tr: "NewFailureTracker (bdJson d) (bwFiles v) now (sAuthFailures (cServer (stCfg st))) = Inr (stTracker st)"
      and ssh: "NewSSHServerConfig (bdSsh d) (bwFiles v) (cUsers (stCfg st)) = Inr (stSsh st)"
      and hk: "loadOrGenerateHostKey (bdKeys d) now (sHostKey (cServer cfg)) (sHostKeyType (cServer cfg)) (bwFiles w)
        = (Inr (stSigner st), h)"
      and m: "stMetrics st = True"
    by blast
  obtain x k where x: "resolve_users (bdHttp d) (NewSSHIDResolver (sCacheDir (cServer cfg))) clock 0 (cUsers cfg) f = (x, k)"
    by fastforce
  from keys x obtain us where us: "x = Inr us" and stc: "stCfg st = cfg\<lparr>cUsers := us\<rparr>"
    by (auto simp: ResolveSSHIDKeys_def act_simps)
  have "list_all2 (keys_added (bdSsh d)) (cUsers cfg) us"
    using resolve_users_ok [OF x, of "bdSsh d"] us by blast
  then show ?thesis
    using vfs tr ssh hk m NewFailureTracker_empty [OF tr] unfolding state_of_def stc by simp
qed

text \<open>
  C31: A reload is all or nothing. When the file does not load nothing happens; when the new
  state cannot be built (the attempt may have written files) the server is as before. Else, and
  always then, the server has the state built from the file, which is a complete configuration:
  its users with the keys fetched for them, its VFS, SSH configuration, host key and failure
  tracker; the caps of the connection limiter and the buckets of the rate registry are those of
  the new users; and the connections under way, the shutdown and the metrics are untouched. The
  failures of authentication are forgotten when there is no state file: the new tracker has no
  attempt and no block.
\<close>

theorem reload_all_or_nothing:
  assumes "\<And>r. rnRegistry s = Some r \<Longrightarrow> wf_registry r"
    and "reload d now clock path old s w = (s', w')"
  shows "case config_Load (rdConfig d) path (bwFiles w) of
      Inl e \<Rightarrow> s' = s \<and> w' = w
    | Inr cfg \<Rightarrow> complete (rdConfig d) cfg
        \<and> (case BuildState (rdBuild d) now clock True cfg w of
             (Inl e, v) \<Rightarrow> s' = s \<and> w' = v
           | (Inr st, v) \<Rightarrow> rnState s' = st \<and> goes_on s s'
               \<and> state_of (rdBuild d) now cfg (bwFiles w) (bwFiles v) st
               \<and> new_limits (rdRate d) (cUsers (stCfg st)) s s')"
proof (cases "config_Load (rdConfig d) path (bwFiles w)")
  case (Inl e)
  with assms(2) show ?thesis by (simp add: reload_def)
next
  case cfg: (Inr cfg)
  then have c: "complete (rdConfig d) cfg" using config_Load_iff by blast
  obtain r v where b: "BuildState (rdBuild d) now clock True cfg w = (r, v)" by fastforce
  show ?thesis
  proof (cases r)
    case (Inl e)
    with assms(2) cfg c b show ?thesis by (simp add: reload_def)
  next
    case (Inr st)
    then have s': "s' = install_state (rdRate d) (cUsers (stCfg st)) st s"
      using assms(2) cfg b by (simp add: reload_def)
    have "goes_on s s'" by (simp add: s' goes_on_def install_state_def)
    moreover have "new_limits (rdRate d) (cUsers (stCfg st)) s s'"
      unfolding s' by (rule install_limits [OF assms(1)])
    moreover have "rnState s' = st" by (simp add: s' install_state_def)
    moreover have "state_of (rdBuild d) now cfg (bwFiles w) (bwFiles v) st"
      by (rule BuildState_state_of [where clock = clock]) (simp add: b Inr)
    ultimately show ?thesis using c cfg b Inr by simp
  qed
qed

text \<open>A deployment that reloads a file without backends, and its old tracker with a block.\<close>

definition sample_run_deps :: "(string, fake_world, int \<times> int) run_deps" where
  "sample_run_deps =
     \<lparr>rdConfig = \<lparr>osGetenv = (\<lambda>_. []),
        yamlUnmarshal = (\<lambda>_. Inr (sshid_config\<lparr>cServer := sample_server\<lparr>sCacheDir := []\<rparr>, cUsers := sample_users\<rparr>)),
        bcryptCost = (\<lambda>_. Inr 10)\<rparr>,
      rdBuild = \<lparr>bdKeys = sample_keys, bdHttp = (\<lambda>_. Inl EOF), bdLoadAws = (\<lambda>_. None),
        bdClientOf = (\<lambda>_. 0), bdApi = fake_api,
        bdJson = \<lparr>jsonMarshal = (\<lambda>_. Inl EOF), jsonDecode = (\<lambda>_. Inl EOF)\<rparr>, bdSsh = plain_lib\<rparr>,
      rdRate = pair_lib, rdHeap = (\<lambda>_. (0, 0)), rdListen = (\<lambda>_. None), rdStdin = Piped []\<rparr>"

definition blocked_tracker :: failureTracker where
  "blocked_tracker = sample_tracker\<lparr>ftStateFile := [], ftBlocked := [(''10.0.0.1:99'', 100)]\<rparr>"

definition config_world :: "fake_world build_world" where
  "config_world = \<lparr>bwFiles = no_files\<lparr>fsFiles := [(''config.yaml'', (''users'', 0))]\<rparr>, bwStore = sample_store\<rparr>"

definition limited_served :: "(string, int \<times> int) running" where
  "limited_served = sample_served\<lparr>rnState := sample_state\<lparr>stTracker := blocked_tracker\<rparr>,
     rnRegistry := Some (NewUserRateRegistry pair_lib (\<lambda>_. (0, 0)) (limited 500))\<rparr>"

definition sample_reload :: "(string, int \<times> int) running \<times> fake_world build_world" where
  "sample_reload = reload sample_run_deps 5 (\<lambda>_. 5) ''config.yaml'' blocked_tracker limited_served config_world"

theorem reload_all_or_nothing_witness:
  "blocked_at (stTracker (rnState (fst sample_reload))) ''10.0.0.1:99'' = None
   \<and> fst (IsBlocked ''10.0.0.1:99'' 5 blocked_tracker)
   \<and> rnConns (fst sample_reload) = rnConns sample_served
   \<and> (\<exists>r. rnRegistry (fst sample_reload) = Some r \<and> bucket r ''alice'' = None)"
proof -
  have run: "reload sample_run_deps 5 (\<lambda>_. 5) ''config.yaml'' blocked_tracker limited_served config_world
      = (fst sample_reload, snd sample_reload)" by (simp add: sample_reload_def)
  have "wf_registry r" if "rnRegistry limited_served = Some r" for r
  proof -
    have "r = NewUserRateRegistry pair_lib (\<lambda>_. (0, 0)) (limited 500)" using that by (simp add: limited_served_def)
    moreover have "wf_registry (NewUserRateRegistry pair_lib (\<lambda>_. (0, 0)) (limited 500))"
      unfolding NewUserRateRegistry_def by (rule wf_registry_Update) (simp add: wf_registry_def)
    ultimately show ?thesis by simp
  qed
  note r = reload_all_or_nothing [OF this run]
  let ?load = "config_Load (rdConfig sample_run_deps) ''config.yaml'' (bwFiles config_world)"
  have "\<not> isl ?load" by code_simp
  then obtain cfg where cfg: "?load = Inr cfg" by (cases ?load) auto
  have cfg': "cfg = projr ?load" by (simp add: cfg)
  let ?b = "BuildState (rdBuild sample_run_deps) 5 (\<lambda>_. 5) True (projr ?load) config_world"
  have "\<not> isl (fst ?b)" by code_simp
  then obtain st v where b: "BuildState (rdBuild sample_run_deps) 5 (\<lambda>_. 5) True cfg config_world = (Inr st, v)"
    unfolding cfg' by (cases ?b; cases "fst ?b") auto
  have "afStateFile (sAuthFailures (cServer (projr ?load))) = []" by code_simp
  then have nf: "afStateFile (sAuthFailures (cServer cfg)) = []" by (simp only: cfg')
  have us: "map_of (rate_limits (cUsers (stCfg (projr (fst ?b)))) []) ''alice'' = None" by code_simp
  have "st = projr (fst ?b)" using b unfolding cfg' by simp
  with us have us': "map_of (rate_limits (cUsers (stCfg st)) []) ''alice'' = None" by simp
  have "fst (IsBlocked ''10.0.0.1:99'' 5 blocked_tracker)" by code_simp
  moreover have "rnConns limited_served = rnConns sample_served" by (simp add: limited_served_def)
  moreover obtain r0 where "rnRegistry limited_served = Some r0" by (simp add: limited_served_def)
  ultimately show ?thesis
    using r nf us' unfolding cfg sum.case b prod.case goes_on_def state_of_def new_limits_def by auto
qed

section \<open>The metrics endpoint\<close>

text \<open>
  \<open>/metrics\<close> answers 401 to a request that does not carry the configured token; what it serves is
  what the library itself has in the default registry: the collectors of the program are
  registered in another, so no state of them ever changes it. \<open>/healthz\<close> needs no token and tells
  the health of the monitor.
\<close>

lemma metrics_not_served:
  "metrics_endpoint lib cfg s monitor ''/metrics'' auth =
     (if sMetricsToken (cServer cfg) = [] \<or> auth = ''Bearer '' @ sMetricsToken (cServer cfg)
      then (200, plText lib (plDefault lib)) else (401, ''unauthorized''))"
  "metrics_endpoint lib cfg s monitor ''/healthz'' auth =
     (if AllHealthy monitor then (200, ''ok'') else (503, ''unhealthy''))"
  by (simp_all add: metrics_endpoint_def StartServer_mux_def promhttp_Handler_def gather_default
      metricsAuthHandler_def healthz_def split: bool.split)

end
