(* ===== verification/Spec2Isabelle.thy ===== *)
theory Spec2Isabelle
  imports CommandProps ListingProps FileProps StoreProps LimitProps AuthProps TrackerProps
    KeyProps ConfigProps ServerProps SystemProps
begin

text \<open>
  The verification library of sftp2s3, an SFTP server whose files are the objects of S3 buckets.

  The program. \<open>cmd/sftp2s3/main.go\<close> loads the configuration, builds the state of the server
  and runs it; a SIGHUP builds a new state and installs it for the connections to come. Each
  connection goes through the SSH handshake, where two callbacks decide who gets in and the
  tracker of failed authentications slows down guessing; it is counted by a limiter and gets
  the handlers of its user's session: a view of the backends, the user's permissions and
  limits. The handlers turn each SFTP request into calls of the S3 client. A monitor lists each
  backend at intervals, and an HTTP server publishes metrics and health.

  What models what.
  \<^item> The language and its library: Prelude (maps, 64-bit integers, errors as values, the
    state-and-error actions in which stateful code is written), GoStrings, GoPath, GoTime,
    GoURL, and Files (the file system with its faults; times are nanoseconds).
  \<^item> \<open>internal/config\<close>: Config (the records), ConfigLoad (substitution, defaults, validation).
  \<^item> \<open>internal/storage\<close>: Storage (backends and operations), over the record \<open>s3_api\<close> of the
    calls of the S3 client; S3Service is their contract, the locale \<open>s3_service\<close>.
  \<^item> \<open>internal/storagetest\<close>: FakeS3, the S3 of the tests, which interprets the contract; a
    response is the value the SDK decodes from it, an upload the single PUT the fake knows. NetS3
    interprets the contract a second time, with bodies that die with their context.
  \<^item> \<open>internal/vfs\<close>: Vfs. \<open>internal/ratelimit\<close>: Ratelimit, with the locale \<open>session_limiter\<close>
    that the server's books rest on. \<open>internal/metrics\<close>: Metrics, MetricsServer.
  \<^item> \<open>internal/sftphandlers\<close>: Permissions, FileInfo, HandlerBase (path resolution, the timed
    S3 calls, paging), FileTransfer (reader and writer, with the method sets that decide
    which of them the SFTP library can close), Commands (\<open>Filecmd\<close>), Listing (\<open>Filelist\<close>).
  \<^item> \<open>internal/auth\<close> and \<open>internal/cache\<close>: AuthFailures (the tracker and its state file),
    AuthKeys (authorized keys, passwords, the keys of sshid.io and their cache).
  \<^item> \<open>internal/server\<close>: SSHConfig (the callbacks of \<open>NewSSHServerConfig\<close>), Hostkey, Server (the
    building of the state, the session, the connections as the step relation \<open>server_step\<close>: the
    accept loop holds a connection before it tracks it, the shutdown sweeps once and then closes
    the listener).
  \<^item> \<open>internal/health\<close>: Health. \<open>cmd/sftp2s3\<close>: MainRun (start, reload, metrics endpoint).

  How state is modelled. The objects of the store are the S3 client's, an abstract state of
  which the contract knows the view: the contents at a client, bucket and key. The handlers run
  on a world of the store and the metrics; the tracker, the limiter and the registry of limiters
  are records that each operation takes and returns; the limiters shared by pointer are a heap.
  Actions return an error or a value, with the new state in both cases. A clock is an argument:
  an operation is given the instants at which the code reads it.

  What the lemmas show.
  \<^item> CommandSpec, RenameSpec and Guarantees, inside the contract: where a command writes, what
    its permissions let it change, and the effect of copying, renaming and removing as a
    function of the objects before. Refusals runs a command over the service with a notebook of
    the keys \<open>DeleteObjects\<close> answers it has not deleted, which the program ignores, in lockstep
    with the run over the service itself: \<open>refused\<close> is the keys so noted, and what a delete, a
    remove or a rename has done is stated up to them. CommandProps instantiates it for every
    request.
  \<^item> Listing and ListingProps: entries, stat, paths. FileProps: uploads and downloads.
    StoreProps: \<open>DeletePrefix\<close>, copy sources, the fake, the session's VFS. LimitProps: the limits
    after a reload.
  \<^item> AuthGate: the locale \<open>failure_gate\<close> between callbacks and tracker bounds the guesses of a
    remote whose attempts overlap; the tracker interprets it. TrackerSpec: trackers that agree on live attempts and
    blocks answer alike for ever. AuthProps, TrackerProps, KeyProps: who gets in, restarts, keys.
  \<^item> ConfigProps: loading, and the substitution against a reference evaluation of templates.
  \<^item> ReadFence: which calls of the S3 client reading and listing make. ServerProps: the invariant
    that ties tracked connections, gauge and limiter together, that the server drains, and how
    far a session reaches and sees. SystemProps: health checks against the requests they make,
    the host key and what its signer still signs, reload, metrics endpoint.

  Fuel. The loops over the pages of a listing take fuel, as a service may always promise one
  more page; \<open>list_terminates\<close> and \<open>delete_prefix_exact\<close> show that more fuel than there are
  objects under the prefix is enough, for every service of the contract, and
  \<open>commands_terminate\<close> shows it of the commands, of a rename or a copy when its source and
  destination do not overlap. Of a rename or a copy of a directory into itself, whose listing
  may meet its own copies, no bound is given, only what a success has done.
  All other recursions are over the data or have a termination proof.

  What is assumed of the outside, always by name. \<open>s3_service\<close>: what the calls return and leave
  in the store, of a body only what it gives when it can be read and of \<open>DeleteObjects\<close> that
  each key is deleted or named in the answer; \<open>honours_range\<close>: that a client reads the range it
  is asked for; the hypotheses of \<open>stream_needs_live_bodies\<close>: that a body fails with its context
  and an upload with its body; \<open>json_roundtrip\<close>: of the state file's JSON; \<open>ed25519_typed\<close>: the
  type of the keys made. The other hypotheses are of the program's own values, each kept or
  made by an operation of the model: \<open>session_ok\<close> and \<open>named_vfs\<close> of the VFS of a session,
  \<open>wf_registry\<close> of the rate registry; and \<open>separate\<close> excludes a rename or a copy of a directory
  whose source and destination lie in each other. Keys, hashes, YAML, HTTP, the token bucket
  and the text of the Prometheus page are parameters. What the SSH and SFTP libraries do with
  what the program gives them, that a client's attempt is put to the callback of its method
  (\<open>authenticate\<close>) and that a file is closed when it has a \<open>Close\<close> (\<open>upload_session\<close>), is
  their documented behaviour, kept apart from the definitions that translate the code.

  Not modelled. Log lines and prompts, and the plaintext of passwords that a debugging flag
  prints. The SSH and SFTP protocols, TLS, timeouts of contexts and HTTP servers, the parsing
  of flags are the libraries'; the timer that ends a shutdown is a flag of \<open>Run_returns\<close>. Goroutines appear as the
  order of the steps: an operation under a mutex is one step. The authentication attempts of
  different connections overlap (\<open>auth_event_step\<close>); the requests of a session, the reads and
  writes of a file and the commands are each one step. Maps are ranged over in any order: a map
  is a list, and the theorems are of every list. The loss of precision of float64 counters is
  left out.
\<close>

end
